(* ===== verification/Brix_Prelude.thy ===== *)
theory Brix_Prelude
  imports Main "HOL-Library.Word"
begin

text \<open>
  Shared vocabulary of the Brix development: the machine types of the C++ sources on the
  platform they are built for (LP64, little endian: \<open>int\<close> has 32 bits, \<open>long\<close> has 64), the
  errors a C++ call can end with, the collections of simplification rules the component
  theories extend, and the generic lemmas and interfaces (codecs, invariants of a step
  relation) they share.
\<close>

section \<open>Machine types and errors\<close>

type_synonym u32 = "32 word"
type_synonym i32 = "32 word"
type_synonym u64 = "64 word"
type_synonym i64 = "64 word"
type_synonym in_addr = "32 word"

text \<open>
  How a call can fail: with one of the two standard exceptions the sources meet, or by
  executing an operation whose behaviour the language leaves undefined (an unchecked
  read or write past the end of an array).
\<close>

datatype cpp_error = Invalid_argument | Out_of_range | Undefined_behaviour

named_theorems text_simps \<open>evaluation of the text routines on printed values\<close>
named_theorems inet_simps \<open>addresses and octets\<close>
named_theorems db_simps \<open>one step of a database operation\<close>
named_theorems election_simps \<open>one step of the election state machine\<close>

section \<open>Generic lemmas\<close>

lemma takeWhile_all [text_simps]: "list_all P xs \<Longrightarrow> takeWhile P xs = xs"
  by (induction xs) auto

lemma dropWhile_all [text_simps]: "list_all P xs \<Longrightarrow> dropWhile P xs = []"
  by (induction xs) auto

lemma takeWhile_stop [text_simps]:
  "list_all P xs \<Longrightarrow> \<not> P y \<Longrightarrow> takeWhile P (xs @ y # ys) = xs"
  by (induction xs) auto

lemma dropWhile_stop [text_simps]:
  "list_all P xs \<Longrightarrow> \<not> P y \<Longrightarrow> dropWhile P (xs @ y # ys) = y # ys"
  by (induction xs) auto

lemma length_dropWhile_less:
  "dropWhile P xs = y # ys \<Longrightarrow> length ys < length xs"
  by (metis length_dropWhile_le Suc_le_eq length_Cons)

lemma sint_range_64: "- (2 ^ 63) \<le> sint w" "sint w < 2 ^ 63" for w :: i64
  using sint_range_size [of w] by (simp_all add: word_size)

lemma sint_range_32: "- (2 ^ 31) \<le> sint w" "sint w < 2 ^ 31" for w :: i32
  using sint_range_size [of w] by (simp_all add: word_size)

lemma unat_less_64: "unat w < 2 ^ 64" for w :: u64
  using unsigned_less [of w, where 'a = nat] by simp

lemma unat_less_32: "unat w < 2 ^ 32" for w :: u32
  using unsigned_less [of w, where 'a = nat] by simp

lemma unat_of_nat_32: "n < 2 ^ 32 \<Longrightarrow> unat (of_nat n :: u32) = n"
  by (simp add: unat_of_nat take_bit_eq_mod)

lemma unat_of_nat_16: "n < 2 ^ 16 \<Longrightarrow> unat (of_nat n :: 16 word) = n"
  by (simp add: unat_of_nat take_bit_eq_mod)

lemma unat_of_nat_64: "n < 2 ^ 64 \<Longrightarrow> unat (of_nat n :: u64) = n"
  by (simp add: unat_of_nat take_bit_eq_mod)

lemma sint_word_of_int_31:
  "sint (word_of_int (t + d) :: 32 word) = signed_take_bit 31 (sint (word_of_int t :: 32 word) + d)"
proof -
  have "signed_take_bit 31 (t + d) = signed_take_bit 31 (signed_take_bit 31 t + d)"
    by (rule signed_take_bit_eq_iff_take_bit_eq [THEN iffD2]) 
      (metis take_bit_add take_bit_signed_take_bit le_refl)
  then show ?thesis by (simp add: signed_of_int del: of_int_add)
qed

lemma mod_window:
  fixes x m :: int
  assumes "0 \<le> x" "x < 2 * m"
  shows "x mod m = (if x < m then x else x - m)"
proof (cases "x < m")
  case True then show ?thesis using assms by simp
next
  case False
  then have "(x - m) mod m = x - m" using assms by (intro mod_pos_pos_trivial) auto
  then show ?thesis using False by simp
qed

text \<open>Sums over the values of a finite map, as one entry is added, dropped or replaced.\<close>

definition value_sum :: "('v \<Rightarrow> 'm::comm_monoid_add) \<Rightarrow> ('k \<rightharpoonup> 'v) \<Rightarrow> 'm" where
  "value_sum f m = (\<Sum>k\<in>dom m. f (the (m k)))"

lemma value_sum_empty [simp]: "value_sum f Map.empty = 0"
  by (simp add: value_sum_def)

lemma value_sum_insert:
  assumes "finite (dom m)" "m k = None"
  shows "value_sum f (m(k \<mapsto> v)) = f v + value_sum f m"
proof -
  have "(\<Sum>x\<in>dom m. f (the ((m(k \<mapsto> v)) x))) = (\<Sum>x\<in>dom m. f (the (m x)))"
    using assms by (intro sum.cong) auto
  then show ?thesis using assms by (simp add: value_sum_def domIff)
qed

lemma value_sum_delete:
  assumes "finite (dom m)" "m k = Some v"
  shows "value_sum f m = f v + value_sum f (m(k := None))"
proof -
  have "value_sum f ((m(k := None))(k \<mapsto> v)) = f v + value_sum f (m(k := None))"
    using assms by (intro value_sum_insert) auto
  then show ?thesis using assms by (simp add: fun_upd_idem)
qed

lemma value_sum_update:
  assumes "finite (dom m)" "m k = Some v"
  shows "f v + value_sum f (m(k \<mapsto> w)) = f w + value_sum f m"
proof -
  have "value_sum f ((m(k := None))(k \<mapsto> w)) = f w + value_sum f (m(k := None))"
    using assms by (intro value_sum_insert) auto
  then show ?thesis
    using value_sum_delete [OF assms, of f] by (simp add: ac_simps)
qed

lemma value_sum_two:
  fixes f :: "'v \<Rightarrow> nat"
  assumes "finite (dom m)" "m k = Some v" "m l = Some w" "k \<noteq> l"
  shows "f v + f w \<le> value_sum f m"
  using value_sum_delete [of m k v f] value_sum_delete [of "m(k := None)" l w f] assms by simp

lemma value_sum_member:
  fixes f :: "'v \<Rightarrow> nat"
  assumes "finite (dom m)" "m k = Some v"
  shows "f v \<le> value_sum f m"
  using value_sum_delete [of m k v f] assms by simp

text \<open>
  C++ integer conversions: adding an \<open>unsigned long\<close> to an \<open>int\<close> or \<open>unsigned int\<close> computes
  in 64 bits (the \<open>int\<close> is sign-extended) and keeps the low 32 bits.
\<close>

definition int_plus_ulong :: "i32 \<Rightarrow> u64 \<Rightarrow> i32" where
  "int_plus_ulong i x = ucast (scast i + x :: u64)"

definition int_minus_ulong :: "i32 \<Rightarrow> u64 \<Rightarrow> i32" where
  "int_minus_ulong i x = ucast (scast i - x :: u64)"

definition uint_plus_ulong :: "u32 \<Rightarrow> u64 \<Rightarrow> u32" where
  "uint_plus_ulong i x = ucast (ucast i + x :: u64)"

lemma ucast_add_64: "(ucast (x + y :: u64) :: u32) = ucast x + ucast y"
  by (rule word_eq_iff_unsigned [where 'a = int, THEN iffD2])
    (simp add: unsigned_ucast_eq take_bit_add uint_word_arith_bintrs flip: take_bit_eq_mod)

lemma ucast_diff_64: "(ucast (x - y :: u64) :: u32) = ucast x - ucast y"
  using ucast_add_64 [of "x - y" y] by (simp add: eq_diff_eq)

lemma ucast_scast_id: "(ucast (scast (i :: i32) :: u64) :: i32) = i"
  by transfer (simp add: take_bit_signed_take_bit)

lemma int_plus_ulong_low: "int_plus_ulong i x = i + ucast x"
  by (simp add: int_plus_ulong_def ucast_add_64 ucast_scast_id)

lemma int_minus_ulong_low: "int_minus_ulong i x = i - ucast x"
  by (simp add: int_minus_ulong_def ucast_diff_64 ucast_scast_id)

lemma uint_plus_ulong_low: "uint_plus_ulong i x = i + ucast x"
  by (simp add: uint_plus_ulong_def ucast_add_64 ucast_up_ucast_id is_up)

text \<open>A sum over a list of which one element changes.\<close>

lemma sum_list_map_update:
  "i < length xs \<Longrightarrow> sum_list (map f (xs[i := x])) + f (xs ! i) = sum_list (map f xs) + f x"
  for f :: "'a \<Rightarrow> 'b :: comm_monoid_add"
proof (induction xs arbitrary: i)
  case (Cons y xs)
  then show ?case by (cases i) (auto simp: ac_simps)
qed simp

section \<open>Interfaces\<close>

text \<open>
  A wire format: what one side prints, the other side reads back. The senders and the
  receivers of the program rely on this law only.
\<close>

locale codec =
  fixes encode :: "'a \<Rightarrow> string"
    and decode :: "string \<Rightarrow> cpp_error + 'a"
    and encodable :: "'a \<Rightarrow> bool"
  assumes decode_encode: "encodable x \<Longrightarrow> decode (encode x) = Inr x"
begin

lemma encode_inj: "encodable x \<Longrightarrow> encodable y \<Longrightarrow> encode x = encode y \<Longrightarrow> x = y"
  by (metis decode_encode sum.inject(2))

lemma decode_encode_list:
  "list_all encodable xs \<Longrightarrow> map (\<lambda>x. decode (encode x)) xs = map Inr xs"
  by (induction xs) (auto simp: decode_encode)

end

text \<open>
  A service: an operation on a shared state that, from a valid state, always returns a
  value (no exception leaves it) and leaves a valid state. Any sequence of requests to it
  then runs to the end.
\<close>

locale total_service =
  fixes run :: "'q \<Rightarrow> 's \<Rightarrow> (cpp_error + 'r) \<times> 's"
    and valid :: "'s \<Rightarrow> bool"
  assumes returns: "valid s \<Longrightarrow> \<exists>r. fst (run q s) = Inr r"
    and keeps: "valid s \<Longrightarrow> valid (snd (run q s))"
begin

lemma valid_fold: "valid s \<Longrightarrow> valid (fold (\<lambda>q s. snd (run q s)) qs s)"
  by (induction qs arbitrary: s) (auto simp: keeps)

lemma returns_after: "valid s \<Longrightarrow> \<exists>r. fst (run q (fold (\<lambda>q s. snd (run q s)) qs s)) = Inr r"
  by (rule returns) (rule valid_fold)

end

text \<open>
  A service that refines an abstract one as long as a measure of its state stays below a
  limit (the largest value a machine integer holds); each request adds at most \<open>unit_cost\<close>
  to the measure, so a bounded number of requests is simulated in full.
\<close>

locale bounded_refinement = total_service run valid
  for run :: "'q \<Rightarrow> 's \<Rightarrow> (cpp_error + 'r) \<times> 's" and valid :: "'s \<Rightarrow> bool" +
  fixes abs :: "'s \<Rightarrow> 'a"
    and spec :: "'q \<Rightarrow> 'a \<Rightarrow> 'a"
    and cost :: "'s \<Rightarrow> nat"
    and unit_cost :: nat
    and limit :: nat
  assumes simulates: "valid s \<Longrightarrow> cost s < limit \<Longrightarrow> abs (snd (run q s)) = spec q (abs s)"
    and cost_grows: "valid s \<Longrightarrow> cost s < limit \<Longrightarrow> cost (snd (run q s)) \<le> cost s + unit_cost"
begin

lemma simulates_fold:
  "valid s \<Longrightarrow> cost s + unit_cost * length qs < limit \<Longrightarrow>
   abs (fold (\<lambda>q s. snd (run q s)) qs s) = fold spec qs (abs s)"
proof (induction qs arbitrary: s)
  case (Cons q qs)
  have less: "cost s < limit" using Cons.prems by simp
  have "cost (snd (run q s)) \<le> cost s + unit_cost"
    using Cons.prems(1) less by (rule cost_grows)
  then have "cost (snd (run q s)) + unit_cost * length qs < limit"
    using Cons.prems(2) by simp
  then show ?case
    using Cons.IH [OF keeps [OF Cons.prems(1)]] simulates [OF Cons.prems(1) less] by simp
qed simp

lemma cost_fold:
  "valid s \<Longrightarrow> cost s + unit_cost * length qs < limit \<Longrightarrow>
   cost (fold (\<lambda>q s. snd (run q s)) qs s) \<le> cost s + unit_cost * length qs"
proof (induction qs arbitrary: s)
  case (Cons q qs)
  have less: "cost s < limit" using Cons.prems by simp
  have step: "cost (snd (run q s)) \<le> cost s + unit_cost"
    using Cons.prems(1) less by (rule cost_grows)
  then have "cost (snd (run q s)) + unit_cost * length qs < limit"
    using Cons.prems(2) by simp
  then have "cost (fold (\<lambda>q s. snd (run q s)) qs (snd (run q s)))
      \<le> cost (snd (run q s)) + unit_cost * length qs"
    by (rule Cons.IH [OF keeps [OF Cons.prems(1)]])
  also have "\<dots> \<le> cost s + unit_cost * length (q # qs)" using step by simp
  finally show ?case by simp
qed simp

end

text \<open>An invariant of a step relation holds in every state a run can reach.\<close>

locale invariant_system =
  fixes start :: "'s \<Rightarrow> bool"
    and step :: "'s \<Rightarrow> 's \<Rightarrow> bool"
    and inv :: "'s \<Rightarrow> bool"
  assumes inv_start: "start s \<Longrightarrow> inv s"
    and inv_step: "inv s \<Longrightarrow> step s t \<Longrightarrow> inv t"
begin

lemma inv_steps: "step\<^sup>*\<^sup>* s t \<Longrightarrow> inv s \<Longrightarrow> inv t"
  by (induction rule: rtranclp_induct) (auto intro: inv_step)

lemma inv_reachable: "start s \<Longrightarrow> step\<^sup>*\<^sup>* s t \<Longrightarrow> inv t"
  using inv_steps inv_start by blast

end

text \<open>
  A system whose steps can be seen as steps of another one, or as nothing, through a
  projection: its runs project to runs of the other, so the invariant of the other holds of
  what is projected.
\<close>

locale projected_system = invariant_system start step inv
  for start :: "'s \<Rightarrow> bool" and step :: "'s \<Rightarrow> 's \<Rightarrow> bool" and inv :: "'s \<Rightarrow> bool" +
  fixes fine_start :: "'c \<Rightarrow> bool"
    and fine_step :: "'c \<Rightarrow> 'c \<Rightarrow> bool"
    and proj :: "'c \<Rightarrow> 's"
  assumes proj_start: "fine_start c \<Longrightarrow> start (proj c)"
    and proj_step: "fine_step c d \<Longrightarrow> step (proj c) (proj d) \<or> proj d = proj c"
begin

lemma proj_steps: "fine_step\<^sup>*\<^sup>* c d \<Longrightarrow> step\<^sup>*\<^sup>* (proj c) (proj d)"
  by (induction rule: rtranclp_induct) (auto dest: proj_step intro: rtranclp.rtrancl_into_rtrancl)

end

sublocale projected_system \<subseteq> fine: invariant_system fine_start fine_step "\<lambda>c. inv (proj c)"
  by unfold_locales (use inv_start inv_step proj_start proj_step in fastforce)+

text \<open>
  A system that cannot get stuck before it is done: in every state of the invariant that is
  not final, some step goes down in a well-founded order. Other steps may go up, as those of
  a thread that waits for another; but the end stays within reach.
\<close>

locale progress_system = invariant_system start step inv
  for start :: "'s \<Rightarrow> bool" and step :: "'s \<Rightarrow> 's \<Rightarrow> bool" and inv :: "'s \<Rightarrow> bool" +
  fixes final :: "'s \<Rightarrow> bool"
    and order :: "('s \<times> 's) set"
  assumes wf_order: "wf order"
    and progress: "inv s \<Longrightarrow> \<not> final s \<Longrightarrow> \<exists>t. step s t \<and> (t, s) \<in> order"
begin

lemma finishes: "inv s \<Longrightarrow> \<exists>t. step\<^sup>*\<^sup>* s t \<and> final t \<and> inv t"
proof (induction s rule: wf_induct_rule [OF wf_order])
  case (1 s)
  show ?case
  proof (cases "final s")
    case False
    then obtain t where t: "step s t" "(t, s) \<in> order" using progress "1.prems" by blast
    obtain u where u: "step\<^sup>*\<^sup>* t u" "final u" "inv u"
      using "1.IH" [OF t(2) inv_step [OF "1.prems" t(1)]] by blast
    have "step\<^sup>*\<^sup>* s u" using t(1) u(1) by (rule converse_rtranclp_into_rtranclp)
    with u(2,3) show ?thesis by blast
  qed (use "1.prems" in blast)
qed

end

end
