(* ===== verification/Db_Manager.thy ===== *)
theory Db_Manager
  imports Brix_Prelude
begin

text \<open>
  The account database of \<open>server/src/db_manager\<close>: the records, the per-client mutexes and
  the global ones, the metadata counters, and the operations \<open>register_client\<close>,
  \<open>get_client_info\<close>, \<open>make_transaction\<close>, \<open>remove_client\<close> and \<open>get_db_metadata\<close>, each with
  its lock and unlock calls in the order of the code. An operation returns either the
  response or the exception that leaves it, together with the new state. A mutex is its
  held flag; locking a held mutex sets \<open>self_deadlock\<close>, since within one operation the
  holder is the caller itself. How operations of several threads interleave at their lock
  calls is the subject of \<open>Db_Locking\<close>.

  The lemmas give every operation in closed form on the states the server keeps, show that
  those states are kept, that no operation throws, blocks on itself or leaves a mutex held,
  that the books balance and that no money appears or disappears in a transfer.
\<close>

section \<open>db_manager.h\<close>

definition STARTING_BALANCE :: u64 where
  "STARTING_BALANCE = 100000"

definition STARTING_REQUEST :: u32 where
  "STARTING_REQUEST = 0"

record client_record =
  ip :: in_addr
  balance :: u64
  last_request :: u32

datatype description =
  SUCCESS | DUPLICATE_IP | INSUFFICIENT_BALANCE | NOT_FOUND | UNKNOWN_SENDER | UNKNOWN_RECEIVER
  | BALANCE_CHECK

record db_record_response =
  success :: bool
  response_record :: client_record
  status_code :: description

record db_metadata =
  num_transactions :: i32
  total_transferred :: u32
  total_balance :: i32

text \<open>The counters of \<open>DbManager\<close> are those of \<open>db_metadata\<close>, so the class extends the struct.\<close>

record db_manager = db_metadata +
  client_locks :: "in_addr \<rightharpoonup> bool"
  database_access_lock :: bool
  database_metadata_lock :: bool
  database_records :: "in_addr \<rightharpoonup> client_record"
  self_deadlock :: bool

type_synonym db_outcome = "(cpp_error + db_record_response) \<times> db_manager"

text \<open>The value-initialised record \<open>{}\<close> of the failure responses.\<close>

definition no_record :: client_record where
  "no_record = \<lparr>ip = 0, balance = 0, last_request = 0\<rparr>"

definition respond :: "bool \<Rightarrow> client_record \<Rightarrow> description \<Rightarrow> db_record_response" where
  "respond ok r d = \<lparr>success = ok, response_record = r, status_code = d\<rparr>"

section \<open>db_manager.cpp\<close>

definition DbManager :: db_manager where
  "DbManager =
     \<lparr>num_transactions = 0, total_transferred = 0, total_balance = 0, client_locks = Map.empty,
      database_access_lock = False, database_metadata_lock = False,
      database_records = Map.empty, self_deadlock = False\<rparr>"

definition lock_database :: "db_manager \<Rightarrow> db_manager" where
  "lock_database s =
     s\<lparr>self_deadlock := self_deadlock s \<or> database_access_lock s, database_access_lock := True\<rparr>"

definition unlock_database :: "db_manager \<Rightarrow> db_manager" where
  "unlock_database s = s\<lparr>database_access_lock := False\<rparr>"

definition lock_metadata :: "db_manager \<Rightarrow> db_manager" where
  "lock_metadata s =
     s\<lparr>self_deadlock := self_deadlock s \<or> database_metadata_lock s, database_metadata_lock := True\<rparr>"

definition unlock_metadata :: "db_manager \<Rightarrow> db_manager" where
  "unlock_metadata s = s\<lparr>database_metadata_lock := False\<rparr>"

text \<open>\<open>client_locks.at\<close> throws \<open>std::out_of_range\<close> for an unknown client.\<close>

definition lock_client :: "in_addr \<Rightarrow> db_manager \<Rightarrow> cpp_error + db_manager" where
  "lock_client a s =
     (case client_locks s a of
        None \<Rightarrow> Inl Out_of_range
      | Some held \<Rightarrow>
          Inr (s\<lparr>self_deadlock := self_deadlock s \<or> held, client_locks := (client_locks s)(a \<mapsto> True)\<rparr>))"

text \<open>\<open>unlock_client\<close> catches the exception and only reports it.\<close>

definition unlock_client :: "in_addr \<Rightarrow> db_manager \<Rightarrow> db_manager" where
  "unlock_client a s =
     (case client_locks s a of
        None \<Rightarrow> s
      | Some held \<Rightarrow> s\<lparr>client_locks := (client_locks s)(a \<mapsto> False)\<rparr>)"

definition get_client_info :: "in_addr \<Rightarrow> db_manager \<Rightarrow> db_record_response" where
  "get_client_info client_ip s =
     (case database_records s client_ip of
        Some r \<Rightarrow> respond True r SUCCESS
      | None \<Rightarrow> respond False no_record NOT_FOUND)"

text \<open>
  \<open>register_client\<close>. If the record existed although the mutex did not, the code would free
  the mutex it has just stored and then unlock it: a use after free.
\<close>

definition register_client :: "in_addr \<Rightarrow> db_manager \<Rightarrow> db_outcome" where
  "register_client client_ip s0 =
     (let new_client = \<lparr>ip = client_ip, balance = STARTING_BALANCE, last_request = STARTING_REQUEST\<rparr>;
          s1 = lock_database s0;
          mutex_inserted = (client_locks s1 client_ip = None);
          s2 = (if mutex_inserted
                then s1\<lparr>client_locks := (client_locks s1)(client_ip \<mapsto> False)\<rparr> else s1)
      in case lock_client client_ip s2 of
           Inl e \<Rightarrow> (Inl e, s2)
         | Inr s3 \<Rightarrow>
             (let s4 = unlock_database s3
              in if \<not> mutex_inserted
                 then (Inr (respond False no_record DUPLICATE_IP), unlock_client client_ip s4)
                 else if database_records s4 client_ip \<noteq> None
                 then (Inl Undefined_behaviour, s4)
                 else
                   let s5 = s4\<lparr>database_records := (database_records s4)(client_ip \<mapsto> new_client)\<rparr>;
                       s6 = lock_database (unlock_client client_ip s5);
                       s7 = unlock_database
                              (s6\<lparr>total_balance := int_plus_ulong (total_balance s6) STARTING_BALANCE\<rparr>)
                   in (Inr (respond True new_client SUCCESS), s7)))"

text \<open>
  \<open>make_transaction\<close>. \<open>at_sender\<close> is the unguarded \<open>database_records.at(sender_ip)\<close> of the
  two early returns, evaluated after the mutexes are released.
\<close>

definition at_sender ::
  "in_addr \<Rightarrow> (client_record \<Rightarrow> db_record_response) \<Rightarrow> db_manager \<Rightarrow> db_outcome" where
  "at_sender sender_ip f s =
     (case database_records s sender_ip of
        None \<Rightarrow> (Inl Out_of_range, s)
      | Some r \<Rightarrow> (Inr (f r), s))"

text \<open>
  From the point where both client mutexes are held and the database mutex is not. The counter
  of transactions is an \<open>int\<close>: its increment at \<open>2 ^ 31 - 1\<close> is undefined, and the model wraps there,
  as the machine's addition does. \<open>Db_Ledger\<close> bounds the counter by the number of operations.
\<close>

definition transfer_locked :: "in_addr \<Rightarrow> in_addr \<Rightarrow> u64 \<Rightarrow> db_manager \<Rightarrow> db_outcome" where
  "transfer_locked sender_ip receiver_ip amount s =
     (let release = (\<lambda>s. unlock_client receiver_ip (unlock_client sender_ip s))
      in case database_records s sender_ip of
           None \<Rightarrow> (Inr (respond False no_record UNKNOWN_SENDER), release s)
         | Some sender \<Rightarrow>
          (case database_records s receiver_ip of
             None \<Rightarrow> (Inr (respond False sender UNKNOWN_RECEIVER), release s)
           | Some receiver \<Rightarrow>
              (let sender = sender\<lparr>last_request := last_request sender + 1\<rparr>;
                   s = s\<lparr>database_records := (database_records s)(sender_ip \<mapsto> sender)\<rparr>
               in if balance sender < amount
                  then (Inr (respond False sender INSUFFICIENT_BALANCE), release s)
                  else
                    let sender = sender\<lparr>balance := balance sender - amount\<rparr>;
                        receiver = receiver\<lparr>balance := balance receiver + amount\<rparr>;
                        s = release (s\<lparr>database_records := (database_records s)
                               (sender_ip \<mapsto> sender, receiver_ip \<mapsto> receiver)\<rparr>);
                        s = lock_metadata s;
                        s = s\<lparr>total_transferred := uint_plus_ulong (total_transferred s) amount,
                              num_transactions := num_transactions s + 1\<rparr>;
                        s = unlock_metadata s
                    in (Inr (respond True sender SUCCESS), s))))"

definition make_transaction :: "in_addr \<Rightarrow> in_addr \<Rightarrow> u64 \<Rightarrow> db_manager \<Rightarrow> db_outcome" where
  "make_transaction sender_ip receiver_ip amount s0 =
     (let s1 = lock_database s0
      in case lock_client sender_ip s1 of
           Inl _ \<Rightarrow> (Inr (respond False no_record UNKNOWN_SENDER), unlock_database s1)
         | Inr s2 \<Rightarrow>
             if amount = 0
             then at_sender sender_ip (\<lambda>r. respond True r BALANCE_CHECK)
                    (unlock_database (unlock_client sender_ip s2))
             else if sender_ip = receiver_ip
             then at_sender sender_ip (\<lambda>r. respond False r DUPLICATE_IP)
                    (unlock_database (unlock_client sender_ip s2))
             else case lock_client receiver_ip s2 of
               Inl _ \<Rightarrow>
                 (let sender_info = get_client_info sender_ip s2
                  in (Inr (respond False (response_record sender_info) UNKNOWN_RECEIVER),
                      unlock_database (unlock_client sender_ip s2)))
             | Inr s3 \<Rightarrow> transfer_locked sender_ip receiver_ip amount (unlock_database s3))"

text \<open>\<open>erase\<close> returns how many entries it removed.\<close>

definition map_erase :: "'k \<Rightarrow> ('k \<rightharpoonup> 'v) \<Rightarrow> nat \<times> ('k \<rightharpoonup> 'v)" where
  "map_erase k m = (if m k = None then 0 else 1, m(k := None))"

definition remove_client :: "in_addr \<Rightarrow> db_manager \<Rightarrow> db_outcome" where
  "remove_client client_ip s0 =
     (let not_found = Inr (respond False no_record NOT_FOUND); s1 = lock_database s0
      in case lock_client client_ip s1 of
           Inl _ \<Rightarrow> (not_found, unlock_database s1)
         | Inr s2 \<Rightarrow>
          (let s3 = unlock_database s2
           in case database_records s3 client_ip of
                None \<Rightarrow> (not_found, unlock_client client_ip s3)
              | Some client_copy \<Rightarrow>
               (let (removed, recs) = map_erase client_ip (database_records s3);
                    s4 = s3\<lparr>database_records := recs\<rparr>
                in if removed = 0 then (not_found, unlock_client client_ip s4)
                   else
                     let s5 = unlock_client client_ip (lock_database s4)
                     in if client_locks s5 client_ip = None then (Inl Out_of_range, s5)
                        else
                          let (removed_locks, locks) = map_erase client_ip (client_locks s5);
                              s6 = unlock_database (s5\<lparr>client_locks := locks\<rparr>)
                          in if removed_locks = 0 then (not_found, s6)
                             else
                               let s7 = lock_database s6;
                                   s8 = unlock_database
                                     (s7\<lparr>total_balance :=
                                        int_minus_ulong (total_balance s7) (balance client_copy)\<rparr>)
                               in (Inr (respond True client_copy SUCCESS), s8))))"

definition get_db_metadata :: "db_manager \<Rightarrow> db_metadata" where
  "get_db_metadata s =
     \<lparr>num_transactions = num_transactions s, total_transferred = total_transferred s,
      total_balance = total_balance s\<rparr>"

section \<open>The states the server keeps\<close>

text \<open>
  \<open>db_wf\<close>: finitely many clients, one mutex per record, each record filed under its own
  address. \<open>db_idle\<close>: no mutex is held. \<open>books_balance\<close>: the \<open>int\<close> counter
  \<open>total_balance\<close> holds the low 32 bits of the sum of all balances.
\<close>

definition db_wf :: "db_manager \<Rightarrow> bool" where
  "db_wf s \<longleftrightarrow> finite (dom (database_records s)) \<and>
     dom (client_locks s) = dom (database_records s) \<and>
     (\<forall>a r. database_records s a = Some r \<longrightarrow> ip r = a)"

definition db_idle :: "db_manager \<Rightarrow> bool" where
  "db_idle s \<longleftrightarrow> \<not> database_access_lock s \<and> \<not> database_metadata_lock s \<and> \<not> self_deadlock s \<and>
     (\<forall>a. client_locks s a \<noteq> Some True)"

definition money :: "db_manager \<Rightarrow> nat" where
  "money s = value_sum (\<lambda>r. unat (balance r)) (database_records s)"

definition books_balance :: "db_manager \<Rightarrow> bool" where
  "books_balance s \<longleftrightarrow> total_balance s = of_nat (money s)"

definition db_ok :: "db_manager \<Rightarrow> bool" where
  "db_ok s \<longleftrightarrow> db_wf s \<and> db_idle s \<and> books_balance s"

lemma db_ok_initial: "db_ok DbManager"
  by (simp add: db_ok_def db_wf_def db_idle_def books_balance_def money_def DbManager_def)

lemma client_locks_idle [db_simps]:
  assumes "db_wf s" "db_idle s"
  shows "client_locks s a = (if database_records s a = None then None else Some False)"
proof (cases "client_locks s a")
  case None
  then show ?thesis using assms(1) by (metis db_wf_def domIff)
next
  case (Some b)
  then have "database_records s a \<noteq> None" using assms(1) by (metis db_wf_def domIff option.distinct(1))
  moreover have "\<not> b" using Some assms(2) by (auto simp: db_idle_def)
  ultimately show ?thesis using Some by simp
qed

lemma db_idle_flags [db_simps]:
  "db_idle s \<Longrightarrow> database_access_lock s = False"
  "db_idle s \<Longrightarrow> database_metadata_lock s = False"
  "db_idle s \<Longrightarrow> self_deadlock s = False"
  by (simp_all add: db_idle_def)

lemmas lock_defs =
  lock_database_def unlock_database_def lock_metadata_def unlock_metadata_def
  lock_client_def unlock_client_def

lemma locks_restored:
  assumes "db_wf s" "db_idle s" "database_records s a \<noteq> None"
  shows "(client_locks s)(a \<mapsto> False) = client_locks s"
  using assms by (intro fun_upd_idem) (simp add: client_locks_idle)

section \<open>The operations in closed form\<close>

lemma register_client_new:
  assumes "db_wf s" "db_idle s" "database_records s a = None"
  shows "register_client a s =
    (Inr (respond True \<lparr>ip = a, balance = STARTING_BALANCE, last_request = STARTING_REQUEST\<rparr> SUCCESS),
     s\<lparr>client_locks := (client_locks s)(a \<mapsto> False),
       database_records := (database_records s)
         (a \<mapsto> \<lparr>ip = a, balance = STARTING_BALANCE, last_request = STARTING_REQUEST\<rparr>),
       total_balance := int_plus_ulong (total_balance s) STARTING_BALANCE\<rparr>)"
  using assms by (simp add: register_client_def Let_def lock_defs db_simps)

lemma register_client_known:
  assumes "db_wf s" "db_idle s" "database_records s a \<noteq> None"
  shows "register_client a s = (Inr (respond False no_record DUPLICATE_IP), s)"
proof -
  obtain r where "database_records s a = Some r" using assms(3) by blast
  then show ?thesis
    using assms locks_restored [OF assms]
    by (simp add: register_client_def Let_def lock_defs db_simps)
qed

text \<open>A transfer between two different known clients, with the state it leaves.\<close>

definition charged :: "client_record \<Rightarrow> client_record" where
  "charged r = r\<lparr>last_request := last_request r + 1\<rparr>"

definition debited :: "u64 \<Rightarrow> client_record \<Rightarrow> client_record" where
  "debited amount r = r\<lparr>last_request := last_request r + 1, balance := balance r - amount\<rparr>"

definition credited :: "u64 \<Rightarrow> client_record \<Rightarrow> client_record" where
  "credited amount r = r\<lparr>balance := balance r + amount\<rparr>"

definition settle :: "in_addr \<Rightarrow> in_addr \<Rightarrow> u64 \<Rightarrow> db_manager \<Rightarrow> db_outcome" where
  "settle a b amount s =
     (case (database_records s a, database_records s b) of
        (None, _) \<Rightarrow> (Inr (respond False no_record UNKNOWN_SENDER), s)
      | (Some r, q) \<Rightarrow>
          if amount = 0 then (Inr (respond True r BALANCE_CHECK), s)
          else if a = b then (Inr (respond False r DUPLICATE_IP), s)
          else (case q of
             None \<Rightarrow> (Inr (respond False r UNKNOWN_RECEIVER), s)
           | Some q \<Rightarrow>
               if balance r < amount
               then (Inr (respond False (charged r) INSUFFICIENT_BALANCE),
                     s\<lparr>database_records := (database_records s)(a \<mapsto> charged r)\<rparr>)
               else (Inr (respond True (debited amount r) SUCCESS),
                     s\<lparr>database_records := (database_records s)
                         (a \<mapsto> debited amount r, b \<mapsto> credited amount q),
                       total_transferred := uint_plus_ulong (total_transferred s) amount,
                       num_transactions := num_transactions s + 1\<rparr>)))"

lemma locks_restored_two:
  assumes "db_wf s" "db_idle s" "database_records s a \<noteq> None" "database_records s b \<noteq> None" "a \<noteq> b"
  shows "(client_locks s)(b \<mapsto> True, a \<mapsto> False, b \<mapsto> False) = client_locks s"
  using assms locks_restored [OF assms(1,2,3)] locks_restored [OF assms(1,2,4)]
  by (simp add: fun_upd_twist)

lemma make_transaction_settle:
  assumes "db_wf s" "db_idle s"
  shows "make_transaction a b amount s = settle a b amount s"
proof (cases "database_records s a")
  case None
  then show ?thesis using assms
    by (simp add: make_transaction_def settle_def lock_defs db_simps)
next
  case (Some r)
  note a = Some
  have la: "(client_locks s)(a \<mapsto> False) = client_locks s"
    using a assms locks_restored by simp
  show ?thesis
  proof (cases "amount = 0 \<or> a = b \<or> database_records s b = None")
    case True
    then show ?thesis using a la assms
      by (auto simp: make_transaction_def settle_def at_sender_def get_client_info_def
          respond_def lock_defs db_simps)
  next
    case False
    then obtain q where q: "database_records s b = Some q" "a \<noteq> b" "amount \<noteq> 0" by auto
    have l2: "(client_locks s)(b \<mapsto> True, a \<mapsto> False, b \<mapsto> False) = client_locks s"
      using locks_restored_two [OF assms] a q by simp
    show ?thesis using a q l2 assms
      by (simp add: make_transaction_def transfer_locked_def settle_def charged_def debited_def
          credited_def Let_def lock_defs db_simps fun_upd_twist)
  qed
qed

text \<open>A covered transfer between two registered clients, as the request handler settles it.\<close>

lemma settle_covered:
  assumes "database_records s a = Some r" "database_records s b = Some q" "a \<noteq> b"
    and "amount \<noteq> 0" "amount \<le> balance r"
  obtains s' where "settle a b amount s = (Inr (respond True (debited amount r) SUCCESS), s')"
    and "database_records s' a = Some (debited amount r)"
    and "database_records s' b = Some (credited amount q)"
  using assms that by (simp add: settle_def not_less [symmetric])

lemma debited_simps [simp]:
  "last_request (debited amount r) = last_request r + 1"
  "balance (debited amount r) = balance r - amount"
  by (simp_all add: debited_def)

lemma status_respond [simp]:
  "status_code (respond ok r d) = d" "response_record (respond ok r d) = r"
  by (simp_all add: respond_def)

lemma remove_client_known:
  assumes "db_wf s" "db_idle s" "database_records s a = Some r"
  shows "remove_client a s =
    (Inr (respond True r SUCCESS),
     s\<lparr>client_locks := (client_locks s)(a := None),
       database_records := (database_records s)(a := None),
       total_balance := int_minus_ulong (total_balance s) (balance r)\<rparr>)"
  using assms by (simp add: remove_client_def Let_def map_erase_def lock_defs db_simps)

lemma remove_client_unknown:
  assumes "db_wf s" "db_idle s" "database_records s a = None"
  shows "remove_client a s = (Inr (respond False no_record NOT_FOUND), s)"
  using assms by (simp add: remove_client_def Let_def lock_defs db_simps)

section \<open>Money\<close>

lemma money_update:
  assumes "finite (dom (database_records s))" "database_records s a = Some r"
  shows "unat (balance r) + money (s\<lparr>database_records := (database_records s)(a \<mapsto> r')\<rparr>) =
    unat (balance r') + money s"
  using value_sum_update [OF assms, of "\<lambda>r. unat (balance r)" r'] by (simp add: money_def)

lemma unat_debit:
  "\<not> x < y \<Longrightarrow> unat (x - y) = unat x - unat y" for x y :: u64
  by (simp add: unat_sub not_less)

lemma unat_credit:
  "unat x + unat y < 2 ^ 64 \<Longrightarrow> unat (x + y) = unat x + unat y" for x y :: u64
  by (simp add: unat_word_ariths take_bit_eq_mod)

lemma money_two:
  assumes "db_wf s" "database_records s a = Some r" "database_records s b = Some q" "a \<noteq> b"
  shows "unat (balance r) + unat (balance q) \<le> money s"
  using value_sum_two [of "database_records s" a r b q "\<lambda>r. unat (balance r)"] assms
  by (simp add: money_def db_wf_def)

text \<open>Moving an amount between two records does not change the sum, if the sum fits a word.\<close>

lemma money_transfer:
  assumes wf: "db_wf s" and a: "database_records s a = Some r" and b: "database_records s b = Some q"
    and ne: "a \<noteq> b" and enough: "\<not> balance r < amount" and small: "money s < 2 ^ 64"
  shows "value_sum (\<lambda>r. unat (balance r))
      ((database_records s)(a \<mapsto> debited amount r, b \<mapsto> credited amount q)) = money s"
proof -
  let ?f = "\<lambda>r. unat (balance r)"
  let ?m = "(database_records s)(a \<mapsto> debited amount r)"
  have fin: "finite (dom (database_records s))" using wf by (simp add: db_wf_def)
  have le: "unat amount \<le> unat (balance r)" using enough by (simp add: not_less word_le_nat_alt)
  have "?f r + value_sum ?f ?m = ?f (debited amount r) + money s"
    using value_sum_update [OF fin a, of ?f "debited amount r"] by (simp add: money_def)
  moreover have "?f q + value_sum ?f (?m(b \<mapsto> credited amount q)) = ?f (credited amount q) + value_sum ?f ?m"
    using value_sum_update [of ?m b q ?f "credited amount q"] fin b ne by simp
  moreover have "?f (debited amount r) + unat amount = ?f r"
    using enough le by (simp add: debited_def unat_debit)
  moreover have "?f (credited amount q) = ?f q + unat amount"
    using money_two [OF wf a b ne] le small by (simp add: credited_def unat_credit)
  ultimately show ?thesis by simp
qed

text \<open>Whatever the balances, the sum modulo a power of two up to \<open>2\<^sup>6\<^sup>4\<close> does not change.\<close>

lemma of_nat_money: "(of_nat (money s) :: u32) = ucast (value_sum balance (database_records s))"
proof -
  have sum: "ucast (\<Sum>k\<in>A. f k :: u64) = (\<Sum>k\<in>A. ucast (f k) :: u32)" for A and f :: "in_addr \<Rightarrow> u64"
    by (induction A rule: infinite_finite_induct) (simp_all add: ucast_add_64)
  show ?thesis by (simp add: money_def value_sum_def sum)
qed

lemma word_sum_transfer:
  assumes "finite (dom m)" "m a = Some r" "m b = Some q" "a \<noteq> b"
  shows "value_sum balance (m(a \<mapsto> debited amount r, b \<mapsto> credited amount q)) = value_sum balance m"
proof -
  have "balance r + value_sum balance (m(a \<mapsto> debited amount r)) = balance (debited amount r) + value_sum balance m"
    using assms(1,2) by (rule value_sum_update)
  moreover have "balance q + value_sum balance (m(a \<mapsto> debited amount r, b \<mapsto> credited amount q)) =
      balance (credited amount q) + value_sum balance (m(a \<mapsto> debited amount r))"
    using value_sum_update [of "m(a \<mapsto> debited amount r)" b q balance "credited amount q"] assms by simp
  ultimately show ?thesis by (simp add: debited_def credited_def algebra_simps)
qed

lemma word_sum_charge:
  assumes "finite (dom m)" "m a = Some r"
  shows "value_sum balance (m(a \<mapsto> charged r)) = value_sum balance m"
  using value_sum_update [OF assms, of balance "charged r"] by (simp add: charged_def)

section \<open>Every operation keeps the invariant\<close>

datatype db_op = Register in_addr | Transact in_addr in_addr u64 | Remove in_addr

fun apply_op :: "db_op \<Rightarrow> db_manager \<Rightarrow> db_outcome" where
  "apply_op (Register a) s = register_client a s"
| "apply_op (Transact a b amount) s = make_transaction a b amount s"
| "apply_op (Remove a) s = remove_client a s"

abbreviation run_ops :: "db_op list \<Rightarrow> db_manager \<Rightarrow> db_manager" where
  "run_ops ops s \<equiv> fold (\<lambda>q s. snd (apply_op q s)) ops s"

lemma db_ok_register: "db_ok s \<Longrightarrow> db_ok (snd (register_client a s))"
proof (cases "database_records s a")
  case None
  assume ok: "db_ok s"
  then have wf: "db_wf s" and idle: "db_idle s" by (simp_all add: db_ok_def)
  have fin: "finite (dom (database_records s))" using wf by (simp add: db_wf_def)
  let ?s = "snd (register_client a s)"
  note eq = register_client_new [OF wf idle None]
  have "db_wf ?s" using wf by (auto simp: eq db_wf_def)
  moreover have "db_idle ?s" using idle by (auto simp: eq db_idle_def)
  moreover have "money ?s = 100000 + money s"
    using value_sum_insert [OF fin None, of "\<lambda>r. unat (balance r)"]
    by (simp add: eq money_def STARTING_BALANCE_def)
  then have "books_balance ?s"
    using ok by (simp add: db_ok_def eq books_balance_def int_plus_ulong_low STARTING_BALANCE_def)
  ultimately show ?thesis by (simp add: db_ok_def)
qed (simp add: register_client_known db_ok_def)

lemma db_ok_settle: "db_ok s \<Longrightarrow> db_ok (snd (settle a b amount s))"
proof -
  assume ok: "db_ok s"
  then have fin: "finite (dom (database_records s))" by (simp add: db_ok_def db_wf_def)
  show ?thesis
    using ok word_sum_charge [OF fin] word_sum_transfer [OF fin]
    by (auto simp: settle_def db_ok_def db_wf_def db_idle_def books_balance_def of_nat_money
        charged_def debited_def credited_def dom_def split: option.splits if_splits)
qed

lemma db_ok_transaction: "db_ok s \<Longrightarrow> db_ok (snd (make_transaction a b amount s))"
  using db_ok_settle by (simp add: make_transaction_settle db_ok_def)

lemma db_ok_remove: "db_ok s \<Longrightarrow> db_ok (snd (remove_client a s))"
proof (cases "database_records s a")
  case (Some r)
  assume ok: "db_ok s"
  then have wf: "db_wf s" and idle: "db_idle s" by (simp_all add: db_ok_def)
  have fin: "finite (dom (database_records s))" using wf by (simp add: db_wf_def)
  let ?s = "snd (remove_client a s)"
  note eq = remove_client_known [OF wf idle Some]
  have "db_wf ?s" using wf by (auto simp: eq db_wf_def)
  moreover have "db_idle ?s" using idle by (auto simp: eq db_idle_def)
  moreover have "books_balance ?s"
    using ok value_sum_delete [OF fin Some, of "\<lambda>r. unat (balance r)"]
    by (simp add: db_ok_def eq books_balance_def int_minus_ulong_low money_def)
  ultimately show ?thesis by (simp add: db_ok_def)
qed (simp add: remove_client_unknown db_ok_def)

lemma apply_op_returns: "db_ok s \<Longrightarrow> \<exists>r. fst (apply_op q s) = Inr r"
proof (cases q)
  case (Register a)
  then show "db_ok s \<Longrightarrow> ?thesis"
    by (cases "database_records s a")
      (simp_all add: db_ok_def register_client_new register_client_known)
next
  case (Transact a b amount)
  then show "db_ok s \<Longrightarrow> ?thesis"
    by (simp add: db_ok_def make_transaction_settle settle_def split: option.split)
next
  case (Remove a)
  then show "db_ok s \<Longrightarrow> ?thesis"
    by (cases "database_records s a")
      (simp_all add: db_ok_def remove_client_known remove_client_unknown)
qed

interpretation db_service: total_service apply_op db_ok
proof
  show "\<exists>r. fst (apply_op q s) = Inr r" if "db_ok s" for s q
    using that by (rule apply_op_returns)
  show "db_ok (snd (apply_op q s))" if "db_ok s" for s q
    using that by (cases q) (simp_all add: db_ok_register db_ok_transaction db_ok_remove)
qed

end
