(* ===== verification/Db_Ledger.thy ===== *)
theory Db_Ledger
  imports Db_Manager
begin

text \<open>
  What the account database promises: an abstract ledger that maps an address to a natural
  number, with opening, closing and transferring as partial updates, and the proof that the
  mutexes, machine words and counters of \<open>Db_Manager\<close> implement it; then the properties of
  the single operations.
\<close>

section \<open>The abstract ledger\<close>

type_synonym ledger = "in_addr \<rightharpoonup> nat"

definition ledger_open :: "in_addr \<Rightarrow> ledger \<Rightarrow> ledger" where
  "ledger_open a L = (if L a = None then L(a \<mapsto> 100000) else L)"

definition ledger_close :: "in_addr \<Rightarrow> ledger \<Rightarrow> ledger" where
  "ledger_close a L = L(a := None)"

definition ledger_transfer :: "in_addr \<Rightarrow> in_addr \<Rightarrow> nat \<Rightarrow> ledger \<Rightarrow> ledger" where
  "ledger_transfer a b n L =
     (case (L a, L b) of
        (Some x, Some y) \<Rightarrow> if a \<noteq> b \<and> n \<le> x then L(a \<mapsto> x - n, b \<mapsto> y + n) else L
      | _ \<Rightarrow> L)"

fun ledger_step :: "db_op \<Rightarrow> ledger \<Rightarrow> ledger" where
  "ledger_step (Register a) L = ledger_open a L"
| "ledger_step (Transact a b amount) L = ledger_transfer a b (unat amount) L"
| "ledger_step (Remove a) L = ledger_close a L"

definition ledger_of :: "db_manager \<Rightarrow> ledger" where
  "ledger_of s = (\<lambda>a. map_option (\<lambda>r. unat (balance r)) (database_records s a))"

lemma ledger_register:
  "db_ok s \<Longrightarrow> ledger_of (snd (register_client a s)) = ledger_open a (ledger_of s)"
  by (cases "database_records s a")
    (auto simp: db_ok_def register_client_new register_client_known ledger_of_def ledger_open_def
      STARTING_BALANCE_def)

lemma ledger_remove:
  "db_ok s \<Longrightarrow> ledger_of (snd (remove_client a s)) = ledger_close a (ledger_of s)"
  by (cases "database_records s a")
    (auto simp: db_ok_def remove_client_known remove_client_unknown ledger_of_def ledger_close_def)

lemma ledger_settle:
  assumes ok: "db_ok s" and small: "money s < 2 ^ 64"
  shows "ledger_of (snd (settle a b amount s)) = ledger_transfer a b (unat amount) (ledger_of s)"
proof (cases "database_records s a")
  case None
  then show ?thesis by (simp add: settle_def ledger_of_def ledger_transfer_def)
next
  case (Some r)
  note a = Some
  show ?thesis
  proof (cases "database_records s b")
    case None
    then show ?thesis using a by (auto simp: settle_def ledger_of_def ledger_transfer_def)
  next
    case (Some q)
    have sum: "a \<noteq> b \<Longrightarrow> unat (balance r) + unat (balance q) < 2 ^ 64"
      using money_two [of s a r b q] ok a Some small by (simp add: db_ok_def)
    show ?thesis
    proof (cases "amount = 0 \<or> a = b \<or> balance r < amount")
      case True
      then show ?thesis using a Some
        by (auto simp: settle_def ledger_of_def ledger_transfer_def charged_def word_less_nat_alt)
    next
      case False
      then have le: "unat amount \<le> unat (balance r)" by (simp add: word_le_nat_alt not_less)
      with sum False have "unat (balance q) + unat amount < 2 ^ 64" by simp
      then show ?thesis using a Some False le
        by (auto simp: settle_def ledger_of_def ledger_transfer_def debited_def credited_def
            unat_debit unat_credit)
    qed
  qed
qed

lemma money_settle:
  assumes "db_ok s" "money s < 2 ^ 64"
  shows "money (snd (settle a b amount s)) = money s"
proof -
  have wf: "db_wf s" using assms(1) by (simp add: db_ok_def)
  have charge: "value_sum (\<lambda>r. unat (balance r)) ((database_records s)(a \<mapsto> charged r)) = money s"
    if "database_records s a = Some r" for r
    using value_sum_update [of "database_records s" a r "\<lambda>r. unat (balance r)" "charged r"] that wf
    by (simp add: db_wf_def money_def charged_def)
  have transfer: "value_sum (\<lambda>r. unat (balance r))
      ((database_records s)(a \<mapsto> debited amount r, b \<mapsto> credited amount q)) = money s"
    if "database_records s a = Some r" "database_records s b = Some q" "a \<noteq> b" "\<not> balance r < amount"
    for r q
    using money_transfer [OF wf] that assms(2) by simp
  show ?thesis
    using charge transfer
    by (auto simp: settle_def money_def split: option.split)
qed

lemma money_register: "db_ok s \<Longrightarrow> money (snd (register_client a s)) \<le> money s + 100000"
  using value_sum_insert [of "database_records s" a "\<lambda>r. unat (balance r)"]
  by (cases "database_records s a")
    (simp_all add: db_ok_def db_wf_def register_client_new register_client_known money_def
      STARTING_BALANCE_def)

lemma money_remove: "db_ok s \<Longrightarrow> money (snd (remove_client a s)) \<le> money s"
  using value_sum_delete [of "database_records s" a _ "\<lambda>r. unat (balance r)"]
  by (cases "database_records s a")
    (simp_all add: db_ok_def db_wf_def remove_client_known remove_client_unknown money_def)

interpretation db_refines: bounded_refinement apply_op db_ok ledger_of ledger_step money 100000 "2 ^ 64"
proof
  fix q s
  assume ok: "db_ok s" and small: "money s < 2 ^ 64"
  show "ledger_of (snd (apply_op q s)) = ledger_step q (ledger_of s)"
    using ok small
    by (cases q) (simp_all add: ledger_register ledger_remove ledger_settle make_transaction_settle
        db_ok_def)
  show "money (snd (apply_op q s)) \<le> money s + 100000"
    using ok small money_register money_remove money_settle
    by (cases q) (auto simp: make_transaction_settle db_ok_def intro: le_trans [OF money_remove])
qed

text \<open>What the ledger says to an operation, and to a sequence of them.\<close>

fun ledger_verdict :: "db_op \<Rightarrow> ledger \<Rightarrow> description" where
  "ledger_verdict (Register a) L = (if L a = None then SUCCESS else DUPLICATE_IP)"
| "ledger_verdict (Transact a b amount) L =
     (case L a of
        None \<Rightarrow> UNKNOWN_SENDER
      | Some x \<Rightarrow>
          if amount = 0 then BALANCE_CHECK
          else if a = b then DUPLICATE_IP
          else if L b = None then UNKNOWN_RECEIVER
          else if x < unat amount then INSUFFICIENT_BALANCE
          else SUCCESS)"
| "ledger_verdict (Remove a) L = (if L a = None then NOT_FOUND else SUCCESS)"

fun ledger_verdicts :: "db_op list \<Rightarrow> ledger \<Rightarrow> description list" where
  "ledger_verdicts [] L = []"
| "ledger_verdicts (q # qs) L = ledger_verdict q L # ledger_verdicts qs (ledger_step q L)"

lemma apply_op_verdict:
  assumes "db_ok s"
  obtains r where "fst (apply_op q s) = Inr r" "status_code r = ledger_verdict q (ledger_of s)"
proof -
  have ok: "db_wf s" "db_idle s" using assms by (simp_all add: db_ok_def)
  have "\<exists>r. fst (apply_op q s) = Inr r \<and> status_code r = ledger_verdict q (ledger_of s)"
  proof (cases q)
    case (Register a)
    then show ?thesis using ok
      by (cases "database_records s a") (simp_all add: register_client_new register_client_known ledger_of_def)
  next
    case (Transact a b amount)
    then show ?thesis using ok
      by (auto simp: make_transaction_settle settle_def ledger_of_def word_less_nat_alt split: option.split)
  next
    case (Remove a)
    then show ?thesis using ok
      by (cases "database_records s a") (simp_all add: remove_client_known remove_client_unknown ledger_of_def)
  qed
  then show thesis using that by blast
qed

lemma ledger_of_initial: "ledger_of DbManager = Map.empty"
  by (simp add: ledger_of_def DbManager_def)

lemma money_initial: "money DbManager = 0"
  by (simp add: money_def DbManager_def)

lemma db_ok_run: "db_ok (run_ops ops DbManager)"
  by (rule db_service.valid_fold) (rule db_ok_initial)

text \<open>A small reachable database, for the examples: two clients with their starting balance.\<close>

definition two_clients :: db_manager where
  "two_clients = run_ops [Register 1, Register 2] DbManager"

lemma two_clients_ok: "db_ok two_clients"
  unfolding two_clients_def by (rule db_ok_run)

lemma two_clients_state:
  "database_records two_clients =
     [1 \<mapsto> \<lparr>ip = 1, balance = 100000, last_request = 0\<rparr>,
      2 \<mapsto> \<lparr>ip = 2, balance = 100000, last_request = 0\<rparr>] \<and>
   total_transferred two_clients = 0"
proof -
  have one: "db_wf (run_ops [Register 1] DbManager)" "db_idle (run_ops [Register 1] DbManager)"
    using db_ok_run [of "[Register 1]"] by (simp_all add: db_ok_def)
  have init: "db_wf DbManager" "db_idle DbManager" using db_ok_initial by (simp_all add: db_ok_def)
  have r1: "database_records (run_ops [Register 1] DbManager) =
      [1 \<mapsto> \<lparr>ip = 1, balance = 100000, last_request = 0\<rparr>]"
    "total_transferred (run_ops [Register 1] DbManager) = 0"
    using init
    by (simp_all add: register_client_new DbManager_def STARTING_BALANCE_def STARTING_REQUEST_def)
  then have "database_records (run_ops [Register 1] DbManager) 2 = None" by simp
  from register_client_new [OF one this] r1 show ?thesis
    by (simp add: two_clients_def STARTING_BALANCE_def STARTING_REQUEST_def)
qed

lemmas two_clients_records = two_clients_state [THEN conjunct1]

lemma two_clients_money: "money two_clients \<le> 200000"
  using db_refines.cost_fold [OF db_ok_initial, of "[Register 1, Register 2]"]
  by (simp add: two_clients_def money_initial)

section \<open>Properties\<close>

text \<open>
  C5. Refinement: after any sequence of registrations, transfers and removals (fewer than
  \<open>2\<^sup>6\<^sup>4 / 100000\<close> of them, so that no balance can wrap) the database holds exactly the balances
  the abstract ledger assigns, with unbounded numbers and no locks.
\<close>

theorem db_refines_ledger:
  assumes "100000 * length ops < 2 ^ 64"
  shows "ledger_of (run_ops ops DbManager) = fold ledger_step ops Map.empty"
  using db_refines.simulates_fold [OF db_ok_initial, of ops] assms
  by (simp add: ledger_of_initial money_initial)

theorem db_refines_ledger_witness:
  "ledger_of (run_ops [Register 1, Register 2, Transact 1 2 30, Remove 1] DbManager) =
     fold ledger_step [Register 1, Register 2, Transact 1 2 30, Remove 1] Map.empty"
  by (rule db_refines_ledger) simp

text \<open>
  C20. From the empty database, whatever operations run: the mutexes are all free again, every
  client has exactly one mutex, no operation throws or blocks on itself, and
  \<open>total_balance\<close> is the sum of the balances modulo \<open>2\<^sup>3\<^sup>2\<close>.
\<close>

theorem db_always_ok:
  "db_ok (run_ops ops DbManager) \<and> (\<exists>r. fst (apply_op q (run_ops ops DbManager)) = Inr r)"
  using db_ok_run db_service.returns_after [OF db_ok_initial] by blast

text \<open>
  A transaction does what the settlement rule says, on every branch: unknown sender,
  balance check, transfer to oneself, unknown receiver, insufficient balance, success. All
  the locking leaves no trace in the state.
\<close>

lemma transaction_settles:
  "db_ok s \<Longrightarrow> make_transaction a b amount s = settle a b amount s"
  by (simp add: db_ok_def make_transaction_settle)

text \<open>
  A transaction neither creates nor destroys money: the sum of all balances is the same
  before and after, whatever its outcome, as long as the sum fits 64 bits.
\<close>

lemma transaction_conserves_money:
  assumes "db_ok s" and "money s < 2 ^ 64"
  shows "money (snd (make_transaction a b amount s)) = money s"
  using assms money_settle by (simp add: make_transaction_settle db_ok_def)

text \<open>
  A transfer succeeds exactly when the sender and the receiver are two different
  registered clients and the amount is positive and covered by the sender's balance.
\<close>

lemma transaction_succeeds_iff:
  assumes "db_ok s"
  shows "(\<exists>r. fst (make_transaction a b amount s) = Inr r \<and> status_code r = SUCCESS) \<longleftrightarrow>
    a \<noteq> b \<and> amount \<noteq> 0 \<and> database_records s b \<noteq> None \<and>
    (\<exists>r. database_records s a = Some r \<and> amount \<le> balance r)"
  using assms
  by (auto simp: make_transaction_settle db_ok_def settle_def respond_def not_less
      split: option.splits)

text \<open>
  The supply of money is bounded by the registrations: after any sequence of operations
  the balances add up to at most 100000 for each registration among them.
\<close>

definition registrations :: "db_op list \<Rightarrow> nat" where
  "registrations ops = length (filter (\<lambda>q. case q of Register _ \<Rightarrow> True | _ \<Rightarrow> False) ops)"

lemma money_apply_op:
  "db_ok s \<Longrightarrow> money s < 2 ^ 64 \<Longrightarrow>
   money (snd (apply_op q s)) \<le> money s + 100000 * registrations [q]"
  using money_register money_remove money_settle
  by (cases q) (simp_all add: registrations_def make_transaction_settle db_ok_def)

lemma money_run:
  "db_ok s \<Longrightarrow> money s + 100000 * registrations ops < 2 ^ 64 \<Longrightarrow>
   money (run_ops ops s) \<le> money s + 100000 * registrations ops"
proof (induction ops arbitrary: s)
  case (Cons q ops)
  have split: "registrations (q # ops) = registrations [q] + registrations ops"
    by (simp add: registrations_def)
  have "money (snd (apply_op q s)) \<le> money s + 100000 * registrations [q]"
    using Cons.prems by (intro money_apply_op) simp_all
  moreover have "money (run_ops ops (snd (apply_op q s)))
      \<le> money (snd (apply_op q s)) + 100000 * registrations ops"
    using Cons.prems split calculation
    by (intro Cons.IH db_service.keeps) (simp_all add: add_mult_distrib2)
  ultimately show ?case by (simp add: split add_mult_distrib2)
qed simp

lemma supply_bounded:
  assumes "100000 * registrations ops < 2 ^ 64"
  shows "money (run_ops ops DbManager) \<le> 100000 * registrations ops"
  using money_run [OF db_ok_initial, of ops] assms by (simp add: money_initial)

text \<open>
  The counter of transactions grows by at most one with an operation, so no increment of it
  leaves \<open>int\<close> in fewer than \<open>2 ^ 31\<close> operations. Beyond that the increment is undefined in C++,
  where the model wraps.
\<close>

lemma num_transactions_step:
  assumes "db_ok s"
  shows "unat (num_transactions (snd (apply_op q s))) \<le> Suc (unat (num_transactions s))"
proof (cases q)
  case (Transact a b amount)
  have "unat (num_transactions s + 1) \<le> Suc (unat (num_transactions s))"
    by (simp add: unat_word_ariths)
  then show ?thesis
    using assms Transact
    by (auto simp: make_transaction_settle db_ok_def settle_def split: option.split)
next
  case (Register a)
  then show ?thesis
    using assms by (cases "database_records s a") (auto simp: db_ok_def register_client_new register_client_known)
next
  case (Remove a)
  then show ?thesis
    using assms by (cases "database_records s a") (auto simp: db_ok_def remove_client_known remove_client_unknown)
qed

lemma num_transactions_bounded:
  "db_ok s \<Longrightarrow> unat (num_transactions (run_ops ops s)) \<le> unat (num_transactions s) + length ops"
proof (induction ops arbitrary: s)
  case (Cons q ops)
  show ?case
    using num_transactions_step [OF Cons.prems, of q] Cons.IH [OF db_service.keeps [OF Cons.prems], of q] by simp
qed simp

end
