(* ===== verification/Cpp_Text.thy ===== *)
theory Cpp_Text
  imports Brix_Prelude
begin

text \<open>
  The text routines of the C++ and C standard libraries the sources parse and print with:
  whitespace tokens (\<open>istringstream >> token\<close>), decimal printing (\<open>std::to_string\<close>,
  \<open>operator<<\<close>, \<open>%u\<close>), \<open>std::stol\<close>, \<open>std::stoul\<close>, \<open>std::stoi\<close>, \<open>atoi\<close>, the extraction of
  an \<open>unsigned int\<close> from a stream, \<open>strtok\<close> and C strings. Everything computes, and the
  lemmas say that what is printed is read back.
\<close>

section \<open>Characters and C strings\<close>

definition isspace :: "char \<Rightarrow> bool" where
  "isspace c \<longleftrightarrow>
     c = CHR '' '' \<or> c = CHR 0x09 \<or> c = CHR 0x0A \<or> c = CHR 0x0B \<or> c = CHR 0x0C \<or> c = CHR 0x0D"

definition isdigit :: "char \<Rightarrow> bool" where
  "isdigit c \<longleftrightarrow> 48 \<le> (of_char c :: nat) \<and> (of_char c :: nat) \<le> 57"

definition digit_val :: "char \<Rightarrow> nat" where
  "digit_val c = of_char c - 48"

definition digit_char :: "nat \<Rightarrow> char" where
  "digit_char n = char_of (48 + n)"

text \<open>The text of a NUL-terminated buffer.\<close>

definition c_str :: "string \<Rightarrow> string" where
  "c_str buf = takeWhile (\<lambda>c. c \<noteq> CHR 0x00) buf"

lemma of_char_digit_char: "n < 10 \<Longrightarrow> of_char (digit_char n) = 48 + n"
  by (simp add: digit_char_def)

lemma isdigit_digit_char [simp]: "n < 10 \<Longrightarrow> isdigit (digit_char n)"
  by (simp add: isdigit_def of_char_digit_char)

lemma digit_val_digit_char [simp]: "n < 10 \<Longrightarrow> digit_val (digit_char n) = n"
  by (simp add: digit_val_def of_char_digit_char)

lemma isdigit_not_isspace: "isdigit c \<Longrightarrow> \<not> isspace c"
  by (auto simp: isdigit_def isspace_def)

lemma isdigit_not_sign [simp]: "isdigit c \<Longrightarrow> c \<noteq> CHR ''-'' \<and> c \<noteq> CHR ''+'' \<and> c \<noteq> CHR ''.''"
  by (auto simp: isdigit_def)

lemma isdigit_not_nul: "isdigit c \<Longrightarrow> c \<noteq> CHR 0x00"
  by (auto simp: isdigit_def)

lemma isspace_literals [simp]:
  "isspace (CHR '' '')" "\<not> isspace (CHR ''-'')" "\<not> isspace (CHR ''+'')"
  "\<not> isspace (CHR ''.'')" "\<not> isspace (CHR ''#'')" "\<not> isspace (CHR '';'')"
  by (simp_all add: isspace_def)

lemma isdigit_literals [simp]:
  "\<not> isdigit (CHR '' '')" "\<not> isdigit (CHR ''-'')" "\<not> isdigit (CHR ''.'')"
  by (simp_all add: isdigit_def)

section \<open>Printing\<close>

text \<open>\<open>std::to_string\<close> and \<open>operator<<\<close> on integers: decimal, no padding.\<close>

fun show_nat :: "nat \<Rightarrow> string" where
  "show_nat n =
     (if n < 10 then [digit_char n] else show_nat (n div 10) @ [digit_char (n mod 10)])"

declare show_nat.simps [simp del]

definition show_int :: "int \<Rightarrow> string" where
  "show_int i = (if i < 0 then CHR ''-'' # show_nat (nat (- i)) else show_nat (nat i))"

definition digits_val :: "string \<Rightarrow> nat" where
  "digits_val ds = foldl (\<lambda>a c. 10 * a + digit_val c) 0 ds"

lemma digits_val_snoc [simp]: "digits_val (ds @ [c]) = 10 * digits_val ds + digit_val c"
  by (simp add: digits_val_def)

lemma digits_val_Nil [simp]: "digits_val [] = 0"
  by (simp add: digits_val_def)

lemma show_nat_digits: "list_all isdigit (show_nat n)"
proof (induction n rule: show_nat.induct)
  case (1 n)
  then show ?case by (subst show_nat.simps) auto
qed

lemma show_nat_nonempty [simp]: "show_nat n \<noteq> []"
  by (subst show_nat.simps) simp

lemma digits_val_show_nat [simp]: "digits_val (show_nat n) = n"
proof (induction n rule: show_nat.induct)
  case (1 n)
  show ?case
  proof (cases "n < 10")
    case True
    then show ?thesis by (subst show_nat.simps) (simp add: digits_val_def)
  next
    case False
    with 1 show ?thesis by (subst show_nat.simps) simp
  qed
qed

text \<open>The first digit of a printed number is not a zero, unless the number is zero.\<close>

lemma show_nat_hd: "hd (show_nat n) = CHR ''0'' \<longleftrightarrow> n = 0"
proof (induction n rule: show_nat.induct)
  case (1 n)
  show ?case
  proof (cases "n < 10")
    case True
    have "digit_char n = CHR ''0'' \<longleftrightarrow> (of_char (digit_char n) :: nat) = of_char (CHR ''0'')"
      by (simp only: of_char_eq_iff)
    with True show ?thesis by (subst show_nat.simps) (simp add: of_char_digit_char)
  next
    case False
    with 1 show ?thesis by (subst show_nat.simps) simp
  qed
qed

lemma show_nat_zero: "show_nat 0 = ''0''"
proof -
  have "char_of (of_char (CHR ''0'') :: nat) = CHR ''0''" by (rule char_of_char)
  then show ?thesis by (simp add: show_nat.simps digit_char_def)
qed

lemma show_nat_one: "show_nat 1 = ''1''"
proof -
  have "char_of (of_char (CHR ''1'') :: nat) = CHR ''1''" by (rule char_of_char)
  then show ?thesis by (simp add: show_nat.simps digit_char_def)
qed

lemma show_nat_split: obtains c ds where "show_nat n = c # ds" "isdigit c" "list_all isdigit ds"
  using show_nat_digits [of n] show_nat_nonempty [of n]
  by (cases "show_nat n") auto

definition no_space :: "string \<Rightarrow> bool" where
  "no_space w \<longleftrightarrow> w \<noteq> [] \<and> list_all (\<lambda>c. \<not> isspace c) w"

lemma digits_no_space: "list_all isdigit ds \<Longrightarrow> list_all (\<lambda>c. \<not> isspace c) ds"
  by (auto simp: list_all_iff dest: isdigit_not_isspace)

lemma show_nat_no_space [text_simps]: "no_space (show_nat n)"
  by (simp add: no_space_def digits_no_space show_nat_digits)

lemma show_int_no_space [text_simps]: "no_space (show_int i)"
  using show_nat_no_space by (simp add: show_int_def no_space_def)

section \<open>Token streams\<close>

text \<open>
  One extraction \<open>iss >> token\<close>: skip whitespace, read up to the next whitespace; it fails
  (\<open>None\<close>) when only whitespace is left. The sources split a text with
  \<open>while (iss >> token) tokens.push_back(token)\<close>.
\<close>

definition iss_token :: "string \<Rightarrow> (string \<times> string) option" where
  "iss_token s =
     (let t = dropWhile isspace s
      in if t = [] then None
         else Some (takeWhile (\<lambda>c. \<not> isspace c) t, dropWhile (\<lambda>c. \<not> isspace c) t))"

lemma iss_token_shorter: "iss_token s = Some (w, r) \<Longrightarrow> length r < length s"
proof -
  assume "iss_token s = Some (w, r)"
  then obtain c t where t: "dropWhile isspace s = c # t" "r = dropWhile (\<lambda>c. \<not> isspace c) (c # t)"
    by (cases "dropWhile isspace s") (simp_all add: iss_token_def)
  have "\<not> isspace c" using t(1) by (metis hd_dropWhile list.discI list.sel(1))
  then have "r = dropWhile (\<lambda>c. \<not> isspace c) t" using t(2) by simp
  then have "length r \<le> length t" by (simp add: length_dropWhile_le)
  also have "length t < length s" using t(1) by (rule length_dropWhile_less)
  finally show ?thesis .
qed

function tokens :: "string \<Rightarrow> string list" where
  "tokens s = (case iss_token s of None \<Rightarrow> [] | Some (w, r) \<Rightarrow> w # tokens r)"
  by pat_completeness auto
termination
  by (relation "measure length") (auto dest: iss_token_shorter)

declare tokens.simps [simp del]

lemma iss_token_last [text_simps]: "no_space w \<Longrightarrow> iss_token w = Some (w, [])"
  by (cases w) (auto simp: no_space_def iss_token_def text_simps)

lemma iss_token_word [text_simps]:
  "no_space w \<Longrightarrow> iss_token (w @ CHR '' '' # s) = Some (w, CHR '' '' # s)"
  by (cases w) (auto simp: no_space_def iss_token_def text_simps)

lemma iss_token_space [text_simps]: "iss_token (CHR '' '' # s) = iss_token s"
  by (simp add: iss_token_def)

lemma iss_token_Nil [text_simps]: "iss_token [] = None"
  by (simp add: iss_token_def)

lemma tokens_Nil [text_simps]: "tokens [] = []"
  by (simp add: tokens.simps text_simps)

lemma tokens_space [text_simps]: "tokens (CHR '' '' # s) = tokens s"
  by (subst (1 2) tokens.simps) (simp add: text_simps)

lemma tokens_last [text_simps]: "no_space w \<Longrightarrow> tokens w = [w]"
  by (subst tokens.simps) (simp add: text_simps)

lemma tokens_word [text_simps]: "no_space w \<Longrightarrow> tokens (w @ CHR '' '' # s) = w # tokens s"
  by (subst tokens.simps) (simp add: text_simps)

text \<open>A longer text has at least as many tokens.\<close>

lemma tokens_append_length: "length (tokens u) \<le> length (tokens (u @ v))"
proof (induction u rule: tokens.induct)
  case (1 u)
  let ?t = "dropWhile isspace u"
  show ?case
  proof (cases "?t = []")
    case True
    then show ?thesis by (simp add: tokens.simps [of u] iss_token_def)
  next
    case False
    then have t: "dropWhile isspace (u @ v) = ?t @ v" by (auto simp: dropWhile_eq_Nil_conv dropWhile_append)
    let ?r = "dropWhile (\<lambda>c. \<not> isspace c) ?t"
    have iss: "iss_token u = Some (takeWhile (\<lambda>c. \<not> isspace c) ?t, ?r)"
      using False unfolding iss_token_def Let_def by argo
    have left: "tokens u = takeWhile (\<lambda>c. \<not> isspace c) ?t # tokens ?r"
      by (subst tokens.simps) (simp only: iss option.case prod.case)
    have "iss_token (u @ v) = Some (takeWhile (\<lambda>c. \<not> isspace c) (?t @ v), dropWhile (\<lambda>c. \<not> isspace c) (?t @ v))"
      using False unfolding iss_token_def Let_def t by simp
    then have right: "tokens (u @ v) = takeWhile (\<lambda>c. \<not> isspace c) (?t @ v) # tokens (dropWhile (\<lambda>c. \<not> isspace c) (?t @ v))"
      by (subst tokens.simps) (simp only: option.case prod.case)
    show ?thesis
    proof (cases "?r = []")
      case True
      then show ?thesis unfolding left right True by (simp add: tokens_Nil)
    next
      case rest: False
      then have "dropWhile (\<lambda>c. \<not> isspace c) (?t @ v) = ?r @ v"
        by (auto simp: dropWhile_eq_Nil_conv dropWhile_append)
      then show ?thesis unfolding left right using 1 [OF iss refl] by simp
    qed
  qed
qed

lemma tokens_take_length: "length (tokens (take n s)) \<le> length (tokens s)"
  using tokens_append_length [of "take n s" "drop n s"] by simp

text \<open>Words joined by single blanks: the shape of every message the program prints.\<close>

fun unwords :: "string list \<Rightarrow> string" where
  "unwords [] = []"
| "unwords [w] = w"
| "unwords (w # v # ws) = w @ '' '' @ unwords (v # ws)"

lemma tokens_unwords [text_simps]: "list_all no_space ws \<Longrightarrow> tokens (unwords ws) = ws"
  by (induction ws rule: unwords.induct) (simp_all add: text_simps)

lemma tokens_unwords_append:
  "list_all no_space ws \<Longrightarrow> ws \<noteq> [] \<Longrightarrow> tokens (unwords ws @ CHR '' '' # s) = ws @ tokens s"
  by (induction ws rule: unwords.induct) (simp_all add: text_simps)

lemma no_space_literals [text_simps]:
  "no_space ''REQ''" "no_space ''ACK''" "no_space ''KIL''" "no_space ''END''" "no_space ''LOC''"
  "no_space ''ELE''" "no_space ''ANS''" "no_space ''CRD''" "no_space ''#''" "no_space '';''"
  by (simp_all add: no_space_def isspace_def)

section \<open>Reading numbers\<close>

text \<open>
  The common front end of \<open>strtol\<close> and \<open>strtoul\<close> in base ten: skip whitespace, an optional
  sign, then the longest run of digits; what follows is ignored by \<open>stol\<close> and its kin.
  \<open>None\<close> when there is no digit.
\<close>

definition scan_number :: "string \<Rightarrow> (bool \<times> nat \<times> string) option" where
  "scan_number s =
     (let t = dropWhile isspace s;
          neg = (t \<noteq> [] \<and> hd t = CHR ''-'');
          u = (if t \<noteq> [] \<and> (hd t = CHR ''-'' \<or> hd t = CHR ''+'') then tl t else t);
          ds = takeWhile isdigit u
      in if ds = [] then None else Some (neg, digits_val ds, dropWhile isdigit u))"

definition signed_value :: "bool \<Rightarrow> nat \<Rightarrow> int" where
  "signed_value neg m = (if neg then - int m else int m)"

definition stol :: "string \<Rightarrow> cpp_error + i64" where
  "stol s = (case scan_number s of
       None \<Rightarrow> Inl Invalid_argument
     | Some (neg, m, _) \<Rightarrow>
         (let v = signed_value neg m
          in if v < - (2 ^ 63) \<or> 2 ^ 63 \<le> v then Inl Out_of_range else Inr (word_of_int v)))"

text \<open>\<open>strtoul\<close> negates the magnitude modulo \<open>2\<^sup>6\<^sup>4\<close>; only the magnitude can be out of range.\<close>

definition stoul :: "string \<Rightarrow> cpp_error + u64" where
  "stoul s = (case scan_number s of
       None \<Rightarrow> Inl Invalid_argument
     | Some (neg, m, _) \<Rightarrow>
         if 2 ^ 64 \<le> m then Inl Out_of_range else Inr (word_of_int (signed_value neg m)))"

definition stoi :: "string \<Rightarrow> cpp_error + i32" where
  "stoi s = (case scan_number s of
       None \<Rightarrow> Inl Invalid_argument
     | Some (neg, m, _) \<Rightarrow>
         (let v = signed_value neg m
          in if v < - (2 ^ 31) \<or> 2 ^ 31 \<le> v then Inl Out_of_range else Inr (word_of_int v)))"

text \<open>
  \<open>atoi\<close> is \<open>(int) strtol(s, NULL, 10)\<close>: no digits give 0, a value outside \<open>long\<close> is clamped,
  and the conversion to \<open>int\<close> keeps the low 32 bits.
\<close>

definition atoi :: "string \<Rightarrow> i32" where
  "atoi s = (case scan_number s of
       None \<Rightarrow> 0
     | Some (neg, m, _) \<Rightarrow> word_of_int (max (- (2 ^ 63)) (min (2 ^ 63 - 1) (signed_value neg m))))"

text \<open>
  \<open>iss >> x\<close> for an \<open>unsigned int x\<close>: fails without a digit and when the magnitude exceeds
  32 bits; it reads no further than the last digit.
\<close>

definition iss_uint :: "string \<Rightarrow> (u32 \<times> string) option" where
  "iss_uint s = (case scan_number s of
       None \<Rightarrow> None
     | Some (neg, m, r) \<Rightarrow>
         if 2 ^ 32 \<le> m then None else Some (word_of_int (signed_value neg m), r))"

lemma scan_number_show_nat [text_simps]: "scan_number (show_nat n) = Some (False, n, [])"
proof -
  obtain c ds where s: "show_nat n = c # ds" "isdigit c" "list_all isdigit ds"
    by (rule show_nat_split)
  have "dropWhile isspace (show_nat n) = show_nat n"
    using s by (simp add: isdigit_not_isspace)
  moreover have "hd (show_nat n) \<noteq> CHR ''-'' \<and> hd (show_nat n) \<noteq> CHR ''+''"
    using s by simp
  ultimately show ?thesis
    by (simp add: scan_number_def Let_def takeWhile_all dropWhile_all show_nat_digits)
qed

lemma scan_number_show_nat_stop [text_simps]:
  assumes "\<not> isdigit x"
  shows "scan_number (show_nat n @ x # r) = Some (False, n, x # r)"
proof -
  obtain c ds where s: "show_nat n = c # ds" "isdigit c" "list_all isdigit ds"
    by (rule show_nat_split)
  have "dropWhile isspace (show_nat n @ x # r) = show_nat n @ x # r"
    using s by (simp add: isdigit_not_isspace)
  moreover have "hd (show_nat n @ x # r) \<noteq> CHR ''-'' \<and> hd (show_nat n @ x # r) \<noteq> CHR ''+''"
    using s by simp
  ultimately show ?thesis
    using assms by (simp add: scan_number_def Let_def takeWhile_stop dropWhile_stop show_nat_digits)
qed

lemma scan_number_space [text_simps]: "scan_number (CHR '' '' # s) = scan_number s"
  by (simp add: scan_number_def)

lemma scan_number_minus [text_simps]:
  "scan_number (CHR ''-'' # show_nat n) = Some (True, n, [])"
  by (simp add: scan_number_def Let_def takeWhile_all dropWhile_all show_nat_digits)

lemma scan_number_show_int [text_simps]:
  "scan_number (show_int i) = Some (i < 0, nat \<bar>i\<bar>, [])"
  by (simp add: show_int_def text_simps)

lemma signed_value_abs [simp]: "signed_value (i < 0) (nat \<bar>i\<bar>) = i"
  by (simp add: signed_value_def)

lemma stol_show_int [text_simps]: "stol (show_int (sint w)) = Inr w"
  using sint_range_64 [of w] by (simp add: stol_def text_simps Let_def)

lemma stoul_show_nat [text_simps]: "stoul (show_nat (unat w)) = Inr w"
  using unat_less_64 [of w] by (simp add: stoul_def text_simps signed_value_def)

lemma stoi_show_int [text_simps]: "stoi (show_int (sint w)) = Inr w"
  using sint_range_32 [of w] by (simp add: stoi_def text_simps Let_def)

text \<open>\<open>stoi\<close> reads an \<open>unsigned int\<close> back only when it fits the signed range.\<close>

lemma stoi_show_nat [text_simps]:
  "stoi (show_nat (unat w)) = (if unat w < 2 ^ 31 then Inr w else Inl Out_of_range)"
proof -
  have "(2 ^ 31 \<le> int (unat w)) \<longleftrightarrow> \<not> unat w < 2 ^ 31"
    using of_nat_le_iff [where 'a = int, of "2 ^ 31" "unat w"] by (simp add: not_less)
  then show ?thesis by (simp add: stoi_def text_simps signed_value_def Let_def)
qed

lemma iss_uint_show_nat [text_simps]:
  "\<not> isdigit x \<Longrightarrow> iss_uint (show_nat (unat w) @ x # r) = Some (w, x # r)"
  using unat_less_32 [of w] by (simp add: iss_uint_def text_simps signed_value_def)

lemma iss_uint_space [text_simps]: "iss_uint (CHR '' '' # s) = iss_uint s"
  by (simp add: iss_uint_def text_simps)

section \<open>strtok\<close>

text \<open>
  One call of \<open>strtok(p, " ")\<close> on the text left by the call before: skip leading blanks,
  cut at the next blank. Only the blank separates, other whitespace does not.
\<close>

definition strtok_blank :: "string \<Rightarrow> (string \<times> string) option" where
  "strtok_blank s =
     (let t = dropWhile (\<lambda>c. c = CHR '' '') s
      in if t = [] then None
         else Some (takeWhile (\<lambda>c. c \<noteq> CHR '' '') t, tl (dropWhile (\<lambda>c. c \<noteq> CHR '' '') t)))"

definition no_blank :: "string \<Rightarrow> bool" where
  "no_blank w \<longleftrightarrow> w \<noteq> [] \<and> list_all (\<lambda>c. c \<noteq> CHR '' '') w"

lemma no_space_no_blank [text_simps]: "no_space w \<Longrightarrow> no_blank w"
  by (auto simp: no_space_def no_blank_def list_all_iff)

lemma strtok_blank_word [text_simps]:
  "no_blank w \<Longrightarrow> strtok_blank (w @ CHR '' '' # s) = Some (w, s)"
  by (cases w) (auto simp: no_blank_def strtok_blank_def text_simps)

lemma strtok_blank_last [text_simps]: "no_blank w \<Longrightarrow> strtok_blank w = Some (w, [])"
  by (cases w) (auto simp: no_blank_def strtok_blank_def text_simps)

section \<open>Sizes and NULs\<close>

lemma length_show_nat: "n < 10 ^ Suc k \<Longrightarrow> length (show_nat n) \<le> Suc k"
proof (induction k arbitrary: n)
  case 0
  then show ?case by (subst show_nat.simps) simp
next
  case (Suc k)
  show ?case
  proof (cases "n < 10")
    case True
    then show ?thesis by (subst show_nat.simps) simp
  next
    case False
    have "n div 10 < 10 ^ Suc k" using Suc.prems by (simp add: less_mult_imp_div_less)
    then show ?thesis using Suc.IH False by (subst show_nat.simps) simp
  qed
qed

lemma length_show_nat_pos: "0 < length (show_nat n)"
  by simp

lemma length_show_u32: "length (show_nat (unat w)) \<le> 10" for w :: u32
  using length_show_nat [of "unat w" 9] unat_less_32 [of w] by simp

lemma length_show_u64: "length (show_nat (unat w)) \<le> 20" for w :: u64
  using length_show_nat [of "unat w" 19] unat_less_64 [of w] by simp

lemma length_show_i32: "length (show_int (sint w)) \<le> 11" for w :: i32
  using sint_range_32 [of w] length_show_nat [of "nat (sint w)" 9] length_show_nat [of "nat (- sint w)" 9]
  by (auto simp: show_int_def nat_less_iff)

lemma length_show_i64: "length (show_int (sint w)) \<le> 20" for w :: i64
proof -
  have "nat (sint w) < 10 ^ Suc 18" "nat (- sint w) < 10 ^ Suc 18"
    using sint_range_64 [of w] by simp_all
  then show ?thesis
    using length_show_nat [of "nat (sint w)" 18] length_show_nat [of "nat (- sint w)" 18]
    by (auto simp: show_int_def)
qed

lemma length_show_int_pos: "0 < length (show_int i)"
  by (simp add: show_int_def)

text \<open>No message contains a NUL, which would end the C string.\<close>

definition no_nul :: "string \<Rightarrow> bool" where
  "no_nul s \<longleftrightarrow> list_all (\<lambda>c. c \<noteq> CHR 0x00) s"

lemma no_nul_simps [simp]:
  "no_nul []" "no_nul (c # s) \<longleftrightarrow> c \<noteq> CHR 0x00 \<and> no_nul s" "no_nul (s @ t) \<longleftrightarrow> no_nul s \<and> no_nul t"
  by (auto simp: no_nul_def)

lemma no_nul_show [simp]: "no_nul (show_nat n)" "no_nul (show_int i)"
proof -
  have nat: "no_nul (show_nat m)" for m
    using show_nat_digits [of m] by (auto simp: no_nul_def list_all_iff dest: isdigit_not_nul)
  then show "no_nul (show_nat n)" "no_nul (show_int i)"
    by (simp_all add: show_int_def)
qed

end
