(* ===== verification/Inet_Addr.thy ===== *)
theory Inet_Addr
  imports Cpp_Text
begin

text \<open>
  IPv4 addresses as the sources handle them. An \<open>in_addr_t\<close> holds the four octets in memory
  (network) order; on the little-endian machines the program is built for, its least
  significant byte is the first octet of the dotted form. The section models the C library
  calls the sources make: \<open>inet_ntop\<close> (also \<open>inet_ntoa\<close>), \<open>inet_addr\<close>, \<open>inet_pton\<close> and
  \<open>ntohl\<close>, with the forms POSIX documents for \<open>inet_addr\<close> (one to four parts, decimal,
  octal or hexadecimal) and the strict dotted quad of \<open>inet_pton\<close>.
\<close>

section \<open>Octets\<close>

fun bytes_value :: "nat list \<Rightarrow> nat" where
  "bytes_value [] = 0"
| "bytes_value (b # bs) = b + 256 * bytes_value bs"

fun be_bytes :: "nat \<Rightarrow> nat \<Rightarrow> nat list" where
  "be_bytes 0 v = []"
| "be_bytes (Suc k) v = be_bytes k (v div 256) @ [v mod 256]"

definition octets :: "in_addr \<Rightarrow> nat list" where
  "octets a = [unat a mod 256, unat a div 256 mod 256, unat a div 65536 mod 256, unat a div 16777216]"

definition addr_of_octets :: "nat list \<Rightarrow> in_addr" where
  "addr_of_octets bs = of_nat (bytes_value bs)"

text \<open>\<open>ntohl\<close>: the octets read as a big-endian number.\<close>

definition ntohl :: "in_addr \<Rightarrow> u32" where
  "ntohl a = of_nat (bytes_value (rev (octets a)))"

lemma octets_bound: "b \<in> set (octets a) \<Longrightarrow> b < 256"
  using unat_less_32 [of a] by (auto simp: octets_def less_mult_imp_div_less)

lemma bytes_value_less: "list_all (\<lambda>b. b < 256) bs \<Longrightarrow> bytes_value bs < 256 ^ length bs"
  by (induction bs) auto

lemma bytes_value_inj:
  "length bs = length cs \<Longrightarrow> list_all (\<lambda>b. b < 256) bs \<Longrightarrow> list_all (\<lambda>b. b < 256) cs \<Longrightarrow>
   bytes_value bs = bytes_value cs \<Longrightarrow> bs = cs"
proof (induction bs cs rule: list_induct2)
  case (Cons b bs c cs)
  have "(b + 256 * bytes_value bs) mod 256 = (c + 256 * bytes_value cs) mod 256"
    using Cons.prems by simp
  then have "b = c" using Cons.prems by simp
  with Cons show ?case by simp
qed simp

lemma bytes_value_octets [inet_simps]: "bytes_value (octets a) = unat a"
proof -
  have "n = n mod 256 + 256 * (n div 256 mod 256 + 256 * (n div 65536 mod 256 + 256 * (n div 16777216)))"
    for n :: nat
    using mod_mult_div_eq [of n 256] mod_mult_div_eq [of "n div 256" 256]
      mod_mult_div_eq [of "n div 65536" 256]
    by (simp add: div_mult2_eq [symmetric])
  then show ?thesis by (simp add: octets_def)
qed

lemma addr_of_octets_octets [inet_simps]: "addr_of_octets (octets a) = a"
  by (simp add: addr_of_octets_def inet_simps)

lemma octets_inj: "octets a = octets b \<longleftrightarrow> a = b"
  by (metis addr_of_octets_octets)

lemma ntohl_inj: "ntohl a = ntohl b \<longleftrightarrow> a = b"
proof
  assume eq: "ntohl a = ntohl b"
  have small: "list_all (\<lambda>b. b < 256) (rev (octets x))" for x
    using octets_bound [of _ x] by (simp add: list_all_iff)
  have "bytes_value (rev (octets x)) < 2 ^ 32" for x
    using bytes_value_less [OF small [of x]] by (simp add: octets_def)
  then have "unat (ntohl x) = bytes_value (rev (octets x))" for x
    by (simp add: ntohl_def unat_of_nat_32)
  then have "bytes_value (rev (octets a)) = bytes_value (rev (octets b))"
    using eq by metis
  then have "rev (octets a) = rev (octets b)"
    using small by (intro bytes_value_inj) (simp_all add: octets_def)
  then show "a = b" by (simp add: octets_inj)
qed simp

section \<open>Printing: inet_ntop\<close>

definition inet_ntop :: "in_addr \<Rightarrow> string" where
  "inet_ntop a =
     show_nat (unat a mod 256) @ ''.'' @ show_nat (unat a div 256 mod 256) @ ''.'' @
     show_nat (unat a div 65536 mod 256) @ ''.'' @ show_nat (unat a div 16777216)"

lemma inet_ntop_no_space [text_simps]: "no_space (inet_ntop a)"
  using show_nat_no_space by (simp add: inet_ntop_def no_space_def)

section \<open>Reading: inet_addr\<close>

definition INADDR_NONE :: in_addr where
  "INADDR_NONE = 0xffffffff"

text \<open>A number of the C language: \<open>0x\<close> hexadecimal, \<open>0\<close> octal, otherwise decimal.\<close>

definition xdigit_val :: "char \<Rightarrow> nat option" where
  "xdigit_val c =
     (let n = (of_char c :: nat)
      in if 48 \<le> n \<and> n \<le> 57 then Some (n - 48)
         else if 97 \<le> n \<and> n \<le> 102 then Some (n - 87)
         else if 65 \<le> n \<and> n \<le> 70 then Some (n - 55) else None)"

fun scan_base :: "nat \<Rightarrow> nat \<Rightarrow> string \<Rightarrow> nat \<times> string" where
  "scan_base b acc [] = (acc, [])"
| "scan_base b acc (c # cs) =
     (case xdigit_val c of
        Some d \<Rightarrow> if d < b then scan_base b (b * acc + d) cs else (acc, c # cs)
      | None \<Rightarrow> (acc, c # cs))"

definition scan_c_number :: "string \<Rightarrow> nat \<times> string" where
  "scan_c_number s =
     (if s \<noteq> [] \<and> hd s = CHR ''0''
      then (case tl s of
              x # d # r \<Rightarrow>
                if (x = CHR ''x'' \<or> x = CHR ''X'') \<and> xdigit_val d \<noteq> None
                then scan_base 16 0 (d # r) else scan_base 8 0 s
            | _ \<Rightarrow> scan_base 8 0 s)
      else scan_base 10 0 s)"

text \<open>
  The parts: every part but the last is a byte and at most three dots are accepted; the
  result is the bytes, the last part and the text after it.
\<close>

fun inet_scan :: "nat \<Rightarrow> string \<Rightarrow> (nat list \<times> nat \<times> string) option" where
  "inet_scan 0 s =
     (if s = [] \<or> \<not> isdigit (hd s) then None
      else let (v, r) = scan_c_number s
           in if 0xffffffff < v \<or> r \<noteq> [] \<and> hd r = CHR ''.'' then None else Some ([], v, r))"
| "inet_scan (Suc dots) s =
     (if s = [] \<or> \<not> isdigit (hd s) then None
      else let (v, r) = scan_c_number s
           in if 0xffffffff < v then None
              else if r \<noteq> [] \<and> hd r = CHR ''.''
              then if 255 < v then None
                   else map_option (\<lambda>(bs, l, e). (v # bs, l, e)) (inet_scan dots (tl r))
              else Some ([], v, r))"

definition inet_addr :: "string \<Rightarrow> in_addr" where
  "inet_addr s =
     (case inet_scan 3 s of
        None \<Rightarrow> INADDR_NONE
      | Some (bs, v, r) \<Rightarrow>
          if r \<noteq> [] \<and> \<not> isspace (hd r) \<or> 256 ^ (4 - length bs) \<le> v then INADDR_NONE
          else addr_of_octets (bs @ be_bytes (4 - length bs) v))"

section \<open>Reading: inet_pton\<close>

text \<open>The loop over the characters; \<open>bs\<close> are the finished octets, \<open>cur\<close> the one being read.\<close>

fun pton_loop :: "nat list \<Rightarrow> nat \<Rightarrow> bool \<Rightarrow> string \<Rightarrow> nat list option" where
  "pton_loop bs cur saw [] =
     (if length bs + (if saw then 1 else 0) < 4 then None else Some (bs @ [cur]))"
| "pton_loop bs cur saw (c # cs) =
     (if isdigit c
      then if saw \<and> cur = 0 then None
           else let new = cur * 10 + digit_val c
                in if 255 < new then None
                   else if \<not> saw \<and> 4 < length bs + 1 then None
                   else pton_loop bs new True cs
      else if c = CHR ''.'' \<and> saw
      then if length bs + 1 = 4 then None else pton_loop (bs @ [cur]) 0 False cs
      else None)"

definition inet_pton :: "string \<Rightarrow> in_addr option" where
  "inet_pton s = map_option addr_of_octets (pton_loop [] 0 False s)"

section \<open>What is printed is read back\<close>

lemma xdigit_val_digit: "n < 10 \<Longrightarrow> xdigit_val (digit_char n) = Some n"
  by (simp add: xdigit_val_def of_char_digit_char)

lemma scan_base_show_nat: "scan_base 10 0 (show_nat n @ r) = scan_base 10 n r"
proof (induction n arbitrary: r rule: show_nat.induct)
  case (1 n)
  show ?case
  proof (cases "n < 10")
    case True
    then show ?thesis by (subst show_nat.simps) (simp add: xdigit_val_digit)
  next
    case False
    then show ?thesis
      using 1 by (subst show_nat.simps) (simp add: xdigit_val_digit)
  qed
qed

definition dot_or_end :: "string \<Rightarrow> bool" where
  "dot_or_end r \<longleftrightarrow> r = [] \<or> hd r = CHR ''.''"

lemma dot_or_end_simps [simp]: "dot_or_end []" "dot_or_end (CHR ''.'' # r)"
  by (simp_all add: dot_or_end_def)

lemma xdigit_val_dot: "xdigit_val (CHR ''.'') = None"
  by (simp add: xdigit_val_def)

lemma scan_base_stop: "dot_or_end r \<Longrightarrow> scan_base b n r = (n, r)"
  by (cases r) (simp_all add: dot_or_end_def xdigit_val_dot)

lemma scan_c_number_zero: "dot_or_end r \<Longrightarrow> scan_c_number (CHR ''0'' # r) = (0, r)"
proof -
  assume r: "dot_or_end r"
  have "xdigit_val (CHR ''0'') = Some 0" by (simp add: xdigit_val_def)
  then have "scan_base 8 0 (CHR ''0'' # r) = (0, r)" using r by (simp add: scan_base_stop)
  then show ?thesis
    using r by (auto simp: scan_c_number_def dot_or_end_def split: list.splits)
qed

lemma scan_c_number_show_nat [inet_simps]:
  "dot_or_end r \<Longrightarrow> scan_c_number (show_nat n @ r) = (n, r)"
proof (cases "n = 0")
  case True
  then show "dot_or_end r \<Longrightarrow> ?thesis" by (simp add: show_nat_zero scan_c_number_zero)
next
  case False
  then have "hd (show_nat n @ r) \<noteq> CHR ''0''" by (simp add: show_nat_hd)
  then have "scan_c_number (show_nat n @ r) = scan_base 10 0 (show_nat n @ r)"
    by (simp add: scan_c_number_def)
  then show "dot_or_end r \<Longrightarrow> ?thesis" by (simp add: scan_base_show_nat scan_base_stop)
qed

lemma isdigit_hd_show_nat [inet_simps]: "isdigit (hd (show_nat n @ r))"
  by (rule show_nat_split [of n]) simp

lemma inet_scan_dot [inet_simps]:
  "n < 256 \<Longrightarrow> inet_scan (Suc k) (show_nat n @ CHR ''.'' # r) =
     map_option (\<lambda>(bs, l, e). (n # bs, l, e)) (inet_scan k r)"
  using isdigit_hd_show_nat [of n "CHR ''.'' # r"] by (simp add: inet_simps)

lemma inet_scan_last [inet_simps]: "n < 256 \<Longrightarrow> inet_scan k (show_nat n) = Some ([], n, [])"
  using isdigit_hd_show_nat [of n "[]"] scan_c_number_show_nat [of "[]" n]
  by (cases k) simp_all

lemma octet_bounds:
  "unat a mod 256 < 256" "unat a div 256 mod 256 < 256" "unat a div 65536 mod 256 < 256"
  "unat a div 16777216 < 256" for a :: in_addr
  using unat_less_32 [of a] by (simp_all add: less_mult_imp_div_less)

lemma inet_addr_inet_ntop [inet_simps]: "inet_addr (inet_ntop a) = a"
proof -
  have "inet_scan 3 (inet_ntop a) =
      Some ([unat a mod 256, unat a div 256 mod 256, unat a div 65536 mod 256],
            unat a div 16777216, [])"
    using octet_bounds [of a]
    by (simp add: inet_ntop_def inet_simps numeral_3_eq_3 del: inet_scan.simps)
  then have "inet_addr (inet_ntop a) = addr_of_octets (octets a)"
    using octet_bounds [of a] by (simp add: inet_addr_def octets_def)
  then show ?thesis by (simp add: inet_simps)
qed

lemma length_inet_ntop: "7 \<le> length (inet_ntop a)" "length (inet_ntop a) \<le> 15"
proof -
  have up: "length (show_nat n) \<le> 3" if "n < 256" for n
    using length_show_nat [of n 2] that by simp
  show "length (inet_ntop a) \<le> 15"
    using octet_bounds [of a, THEN up] by (simp add: inet_ntop_def)
  have low: "1 \<le> length (show_nat n)" for n
    using length_show_nat_pos [of n] by linarith
  show "7 \<le> length (inet_ntop a)"
    using low [of "unat a mod 256"] low [of "unat a div 256 mod 256"]
      low [of "unat a div 65536 mod 256"] low [of "unat a div 16777216"]
    by (simp add: inet_ntop_def)
qed

lemma no_nul_inet_ntop [simp]: "no_nul (inet_ntop a)"
  by (simp add: inet_ntop_def)

lemma pton_loop_show_nat [inet_simps]:
  "n < 256 \<Longrightarrow> length bs < 4 \<Longrightarrow> pton_loop bs 0 False (show_nat n @ r) = pton_loop bs n True r"
proof (induction n arbitrary: r rule: show_nat.induct)
  case (1 n)
  show ?case
  proof (cases "n < 10")
    case True
    with 1 show ?thesis by (subst show_nat.simps) simp
  next
    case False
    then have "0 < n div 10" by (simp add: div_greater_zero_iff)
    with 1 False show ?thesis by (subst show_nat.simps) simp
  qed
qed

lemma inet_pton_inet_ntop [inet_simps]: "inet_pton (inet_ntop a) = Some a"
proof -
  have "pton_loop [] 0 False (inet_ntop a) = Some (octets a)"
    using octet_bounds [of a] pton_loop_show_nat [of "unat a div 16777216" _ "[]"]
    by (simp add: inet_ntop_def inet_simps octets_def)
  then show ?thesis by (simp add: inet_pton_def inet_simps)
qed

text \<open>A text that is no address gives the broadcast address, as does its dotted form.\<close>

lemma inet_addr_invalid: "inet_addr ''banana'' = INADDR_NONE"
  by (simp add: inet_addr_def numeral_3_eq_3 isdigit_def)

end
