(* ===== verification/Packets.thy ===== *)
theory Packets
  imports Inet_Addr
begin

text \<open>
  The client messages of \<open>common/src/packets\<close>: the packet structs of \<open>packets.h\<close>, their
  printed forms (\<open>packets.cpp\<close>) and the parsers of \<open>String_Packet\<close>
  (\<open>string_packets.cpp\<close>), with \<open>addr_to_string\<close> of \<open>socket_utils.cpp\<close>. A parser returns the
  packet or the exception it throws. The lemmas show that requests and replies survive the
  wire, as interpretations of the codec interface.
\<close>

section \<open>packets.h\<close>

datatype packet_type = REQ | ACK | ERR | KIL

datatype packet_status = VALID | DUPLICATE | OUT_OF_ORDER | NO_CLUE

record packet =
  packet_type :: packet_type
  seq_num :: i64

record req_packet = packet +
  receiver_ip :: in_addr
  transfer_amount :: u64

record ack_packet = packet +
  result :: string
  new_balance :: u64
  ack_sender_ip :: in_addr
  ack_receiver_ip :: in_addr
  ack_transfer_amount :: u64

type_synonym kil_packet = packet

definition REQ_Packet :: "i64 \<Rightarrow> in_addr \<Rightarrow> u64 \<Rightarrow> req_packet" where
  "REQ_Packet seq ip_addr amount =
     \<lparr>packet_type = REQ, seq_num = seq, receiver_ip = ip_addr, transfer_amount = amount\<rparr>"

definition ACK_Packet :: "i64 \<Rightarrow> string \<Rightarrow> u64 \<Rightarrow> in_addr \<Rightarrow> in_addr \<Rightarrow> u64 \<Rightarrow> ack_packet" where
  "ACK_Packet seq res bal sender receiver amount =
     \<lparr>packet_type = ACK, seq_num = seq, result = res, new_balance = bal,
      ack_sender_ip = sender, ack_receiver_ip = receiver, ack_transfer_amount = amount\<rparr>"

definition KIL_Packet :: kil_packet where
  "KIL_Packet = \<lparr>packet_type = KIL, seq_num = -1\<rparr>"

section \<open>packets.cpp\<close>

text \<open>\<open>inet_ntop\<close> cannot fail here: the buffer holds every IPv4 text.\<close>

definition addr_to_string :: "in_addr \<Rightarrow> string" where
  "addr_to_string addr = inet_ntop addr"

definition REQ_Packet_to_string :: "req_packet \<Rightarrow> string" where
  "REQ_Packet_to_string p =
     ''REQ'' @ '' '' @ show_int (sint (seq_num p)) @ '' '' @ inet_ntop (receiver_ip p) @ '' '' @
     show_nat (unat (transfer_amount p)) @ '' END''"

definition ACK_Packet_to_string :: "ack_packet \<Rightarrow> string" where
  "ACK_Packet_to_string p =
     ''ACK'' @ '' '' @ show_int (sint (seq_num p)) @ '' '' @ result p @ '' '' @
     show_nat (unat (new_balance p)) @ '' '' @ addr_to_string (ack_sender_ip p) @ '' '' @
     addr_to_string (ack_receiver_ip p) @ '' '' @ show_nat (unat (ack_transfer_amount p)) @ '' '' @
     ''END''"

definition KIL_Packet_to_string :: "kil_packet \<Rightarrow> string" where
  "KIL_Packet_to_string p = ''ACK'' @ '' '' @ ''END''"

fun status_to_string :: "packet_status \<Rightarrow> string" where
  "status_to_string VALID = ''VALID''"
| "status_to_string DUPLICATE = ''DUPLICATE''"
| "status_to_string OUT_OF_ORDER = ''OUT_OF_ORDER''"
| "status_to_string NO_CLUE = ''NO_CLUE''"

section \<open>string_packets.cpp\<close>

definition to_REQ_Packet :: "string \<Rightarrow> cpp_error + req_packet" where
  "to_REQ_Packet s =
     (let ts = tokens s
      in if length ts \<noteq> 5 \<or> ts ! 0 \<noteq> ''REQ'' \<or> ts ! 4 \<noteq> ''END'' then Inl Invalid_argument
         else case stol (ts ! 1) of Inl e \<Rightarrow> Inl e | Inr seq \<Rightarrow>
              (let receiver = inet_addr (ts ! 2)
               in case stoul (ts ! 3) of Inl e \<Rightarrow> Inl e | Inr amount \<Rightarrow>
                  Inr (REQ_Packet seq receiver amount)))"

definition to_ACK_Packet :: "string \<Rightarrow> cpp_error + ack_packet" where
  "to_ACK_Packet s =
     (let ts = tokens s
      in if length ts \<noteq> 8 \<or> ts ! 0 \<noteq> ''ACK'' \<or> ts ! 7 \<noteq> ''END'' then Inl Invalid_argument
         else case stol (ts ! 1) of Inl e \<Rightarrow> Inl e | Inr seq \<Rightarrow>
              (let res = ts ! 2
               in case stoul (ts ! 3) of Inl e \<Rightarrow> Inl e | Inr bal \<Rightarrow>
                  (let sender = inet_addr (ts ! 4); receiver = inet_addr (ts ! 5)
                   in case stoul (ts ! 6) of Inl e \<Rightarrow> Inl e | Inr amount \<Rightarrow>
                      Inr (ACK_Packet seq res bal sender receiver amount))))"

definition to_KIL_Packet :: "string \<Rightarrow> cpp_error + kil_packet" where
  "to_KIL_Packet s =
     (let ts = tokens s
      in if length ts \<noteq> 2 \<or> ts ! 0 \<noteq> ''KIL'' \<or> ts ! 1 \<noteq> ''END'' then Inl Invalid_argument
         else Inr KIL_Packet)"

definition string_packet_type :: "string \<Rightarrow> packet_type" where
  "string_packet_type s =
     (if take 3 s = ''REQ'' then REQ
      else if take 3 s = ''ACK'' then ACK
      else if take 3 s = ''ERR'' then ERR
      else if take 3 s = ''KIL'' then KIL
      else ERR)"

section \<open>The wire\<close>

lemma REQ_Packet_to_string_unwords:
  "REQ_Packet_to_string p =
     unwords [''REQ'', show_int (sint (seq_num p)), inet_ntop (receiver_ip p),
              show_nat (unat (transfer_amount p)), ''END'']"
  by (simp add: REQ_Packet_to_string_def)

lemma ACK_Packet_to_string_unwords:
  "ACK_Packet_to_string p =
     unwords [''ACK'', show_int (sint (seq_num p)), result p, show_nat (unat (new_balance p)),
              inet_ntop (ack_sender_ip p), inet_ntop (ack_receiver_ip p),
              show_nat (unat (ack_transfer_amount p)), ''END'']"
  by (simp add: ACK_Packet_to_string_def addr_to_string_def)

lemma tokens_REQ [text_simps]:
  "tokens (REQ_Packet_to_string p) =
     [''REQ'', show_int (sint (seq_num p)), inet_ntop (receiver_ip p),
      show_nat (unat (transfer_amount p)), ''END'']"
  unfolding REQ_Packet_to_string_unwords by (rule tokens_unwords) (simp add: text_simps)

lemma tokens_ACK [text_simps]:
  "no_space (result p) \<Longrightarrow> tokens (ACK_Packet_to_string p) =
     [''ACK'', show_int (sint (seq_num p)), result p, show_nat (unat (new_balance p)),
      inet_ntop (ack_sender_ip p), inet_ntop (ack_receiver_ip p),
      show_nat (unat (ack_transfer_amount p)), ''END'']"
  unfolding ACK_Packet_to_string_unwords by (rule tokens_unwords) (simp add: text_simps)

definition req_encodable :: "req_packet \<Rightarrow> bool" where
  "req_encodable p \<longleftrightarrow> packet_type p = REQ"

definition ack_encodable :: "ack_packet \<Rightarrow> bool" where
  "ack_encodable p \<longleftrightarrow> packet_type p = ACK \<and> no_space (result p)"

interpretation req_wire: codec REQ_Packet_to_string to_REQ_Packet req_encodable
  by unfold_locales
    (simp add: to_REQ_Packet_def text_simps inet_simps REQ_Packet_def req_encodable_def)

interpretation ack_wire: codec ACK_Packet_to_string to_ACK_Packet ack_encodable
  by unfold_locales
    (simp add: to_ACK_Packet_def text_simps inet_simps ACK_Packet_def ack_encodable_def)

lemma string_packet_type_REQ [text_simps]: "string_packet_type (REQ_Packet_to_string p) = REQ"
  by (simp add: string_packet_type_def REQ_Packet_to_string_def)

lemma string_packet_type_ACK [text_simps]: "string_packet_type (ACK_Packet_to_string p) = ACK"
  by (simp add: string_packet_type_def ACK_Packet_to_string_def)

lemma tokens_KIL_END [text_simps]: "tokens ''KIL END'' = [''KIL'', ''END'']"
  using tokens_unwords [of "[''KIL'', ''END'']"] by (simp add: text_simps)

lemma tokens_ACK_END [text_simps]: "tokens ''ACK END'' = [''ACK'', ''END'']"
  using tokens_unwords [of "[''ACK'', ''END'']"] by (simp add: text_simps)

lemma to_KIL_Packet_KIL_END [text_simps]: "to_KIL_Packet ''KIL END'' = Inr KIL_Packet"
  by (simp add: to_KIL_Packet_def text_simps)

section \<open>Properties\<close>

text \<open>
  A request survives the wire: whatever sequence number, receiver and amount the client
  puts in a REQ packet, the server's parser reads the same packet from its printed form.
\<close>

lemma req_packet_roundtrip:
  "to_REQ_Packet (REQ_Packet_to_string (REQ_Packet seq receiver amount)) =
     Inr (REQ_Packet seq receiver amount)"
  by (rule req_wire.decode_encode) (simp add: req_encodable_def REQ_Packet_def)

text \<open>
  A reply survives the wire whenever its result is a single word, as the result texts
  the server sends are.
\<close>

lemma ack_packet_roundtrip:
  "no_space res \<Longrightarrow>
   to_ACK_Packet (ACK_Packet_to_string (ACK_Packet seq res bal sender receiver amount)) =
     Inr (ACK_Packet seq res bal sender receiver amount)"
  by (rule ack_wire.decode_encode) (simp add: ack_encodable_def ACK_Packet_def)

text \<open>
  The printed form of a KIL packet is the text \<open>ACK END\<close>: its type reads as ACK and the
  KIL parser rejects it, while the text \<open>KIL END\<close> of the comment above it is accepted.
\<close>

lemma kil_packet_printed_as_ack:
  "KIL_Packet_to_string KIL_Packet = ''ACK END'' \<and>
   string_packet_type (KIL_Packet_to_string KIL_Packet) = ACK \<and>
   to_KIL_Packet (KIL_Packet_to_string KIL_Packet) = Inl Invalid_argument \<and>
   to_KIL_Packet ''KIL END'' = Inr KIL_Packet"
  by (simp add: KIL_Packet_to_string_def string_packet_type_def to_KIL_Packet_def text_simps)

end
