(* ===== verification/Db_Snapshot.thy ===== *)
theory Db_Snapshot
  imports Db_Ledger Packets
begin

text \<open>
  Snapshots of the database: \<open>get_db_snapshot\<close>, the text form \<open>db_snapshot::to_string\<close> and
  \<open>db_snapshot::from_string\<close>, and \<open>load_snapshot\<close>, all of \<open>db_manager.cpp\<close>. The records
  live in an \<open>unordered_map\<close>, whose iteration order the language leaves open: the printed
  form takes the list of entries in that order, and the lemmas hold for every order. The
  round trip is exact as long as the numbers that \<open>from_string\<close> reads with \<open>stoi\<close> fit an
  \<open>int\<close>, and fails with \<open>out_of_range\<close> otherwise.
\<close>

section \<open>The code\<close>

record db_snapshot =
  metadata :: db_metadata
  records :: "in_addr \<rightharpoonup> client_record"

type_synonym entries = "(in_addr \<times> client_record) list"

text \<open>The entries of a table in some iteration order.\<close>

definition enumerates :: "entries \<Rightarrow> (in_addr \<rightharpoonup> client_record) \<Rightarrow> bool" where
  "enumerates es m \<longleftrightarrow> distinct (map fst es) \<and> map_of es = m"

definition get_db_snapshot :: "db_manager \<Rightarrow> db_snapshot" where
  "get_db_snapshot s = \<lparr>metadata = get_db_metadata s, records = database_records s\<rparr>"

definition record_to_string :: "client_record \<Rightarrow> string" where
  "record_to_string r =
     addr_to_string (ip r) @ '' '' @ show_nat (unat (balance r)) @ '' '' @
     show_nat (unat (last_request r)) @ '' ; ''"

definition db_snapshot_to_string :: "entries \<Rightarrow> db_snapshot \<Rightarrow> string" where
  "db_snapshot_to_string es snap =
     show_int (sint (num_transactions (metadata snap))) @ '' '' @
     show_nat (unat (total_transferred (metadata snap))) @ '' '' @
     show_int (sint (total_balance (metadata snap))) @ '' '' @ ''# '' @
     concat (map (\<lambda>(_, r). record_to_string r) es)"

text \<open>
  The loop over the records: four tokens each, the fourth is not looked at; \<open>insert\<close> keeps
  an entry that is already there; a missing token is read past the end of the vector.
\<close>

fun parse_records ::
  "string list \<Rightarrow> (in_addr \<rightharpoonup> client_record) \<Rightarrow> cpp_error + (in_addr \<rightharpoonup> client_record)" where
  "parse_records [] m = Inr m"
| "parse_records [a] m = Inl Undefined_behaviour"
| "parse_records [a, b] m =
     (case stoul b of Inl e \<Rightarrow> Inl e | Inr _ \<Rightarrow> Inl Undefined_behaviour)"
| "parse_records (a # b # l # ts) m =
     (let client_ip = inet_addr a
      in case stoul b of Inl e \<Rightarrow> Inl e | Inr bal \<Rightarrow>
        (case stoi l of Inl e \<Rightarrow> Inl e | Inr req \<Rightarrow>
          (let r = \<lparr>ip = client_ip, balance = bal, last_request = req\<rparr>;
               m' = (if m client_ip = None then m(client_ip \<mapsto> r) else m)
           in case ts of [] \<Rightarrow> Inr m' | _ # rest \<Rightarrow> parse_records rest m')))"

text \<open>Reading a token by index: past the end the vector access is undefined.\<close>

definition token_at :: "string list \<Rightarrow> nat \<Rightarrow> (string \<Rightarrow> cpp_error + 'a) \<Rightarrow> cpp_error + 'a" where
  "token_at ts i f = (if i < length ts then f (ts ! i) else Inl Undefined_behaviour)"

definition db_snapshot_from_string :: "string \<Rightarrow> cpp_error + db_snapshot" where
  "db_snapshot_from_string s =
     (let ts = tokens s
      in case token_at ts 0 stoi of Inl e \<Rightarrow> Inl e | Inr n \<Rightarrow>
        (case token_at ts 1 stoi of Inl e \<Rightarrow> Inl e | Inr t \<Rightarrow>
          (case token_at ts 2 stoi of Inl e \<Rightarrow> Inl e | Inr b \<Rightarrow>
            (case parse_records (drop 4 ts) Map.empty of Inl e \<Rightarrow> Inl e | Inr m \<Rightarrow>
              Inr \<lparr>metadata = \<lparr>num_transactions = n, total_transferred = t, total_balance = b\<rparr>,
                   records = m\<rparr>))))"

text \<open>\<open>load_snapshot\<close>: the old mutexes are freed, every record gets a fresh one.\<close>

definition load_snapshot :: "db_snapshot \<Rightarrow> db_manager \<Rightarrow> db_manager" where
  "load_snapshot snap s =
     s\<lparr>client_locks := (\<lambda>a. map_option (\<lambda>_. False) (records snap a)),
       database_records := records snap,
       num_transactions := num_transactions (metadata snap),
       total_balance := total_balance (metadata snap),
       total_transferred := total_transferred (metadata snap)\<rparr>"

section \<open>The round trip\<close>

definition record_tokens :: "client_record \<Rightarrow> string list" where
  "record_tokens r = [inet_ntop (ip r), show_nat (unat (balance r)), show_nat (unat (last_request r)), '';'']"

lemma tokens_record [text_simps]: "tokens (record_to_string r @ s) = record_tokens r @ tokens s"
proof -
  have "record_to_string r @ s = unwords (record_tokens r) @ CHR '' '' # s"
    by (simp add: record_to_string_def record_tokens_def addr_to_string_def)
  then show ?thesis
    using tokens_unwords_append [of "record_tokens r" s] by (simp add: record_tokens_def text_simps)
qed

lemma tokens_records:
  "tokens (concat (map (\<lambda>(_, r). record_to_string r) es)) = concat (map (\<lambda>(_, r). record_tokens r) es)"
  by (induction es) (auto simp: text_simps)

lemma tokens_snapshot [text_simps]:
  "tokens (db_snapshot_to_string es snap) =
     [show_int (sint (num_transactions (metadata snap))),
      show_nat (unat (total_transferred (metadata snap))),
      show_int (sint (total_balance (metadata snap))), ''#''] @
     concat (map (\<lambda>(_, r). record_tokens r) es)"
proof -
  let ?ws = "[show_int (sint (num_transactions (metadata snap))),
      show_nat (unat (total_transferred (metadata snap))),
      show_int (sint (total_balance (metadata snap))), ''#'']"
  let ?rs = "concat (map (\<lambda>(_, r). record_to_string r) es)"
  have "db_snapshot_to_string es snap = unwords ?ws @ CHR '' '' # ?rs"
    by (simp add: db_snapshot_to_string_def)
  moreover have "list_all no_space ?ws" by (simp add: text_simps)
  ultimately show ?thesis using tokens_unwords_append [of ?ws ?rs] tokens_records [of es] by simp
qed

lemma snapshot_text_append:
  "db_snapshot_to_string (xs @ ys) snap =
     db_snapshot_to_string xs snap @ concat (map (\<lambda>(_, r). record_to_string r) ys)"
  by (simp add: db_snapshot_to_string_def)

lemma tokens_records_append:
  "tokens (concat (map (\<lambda>(_, r). record_to_string r) es) @ s) =
     concat (map (\<lambda>(_, r). record_tokens r) es) @ tokens s"
  by (induction es) (auto simp: tokens_record)

lemma tokens_snapshot_append:
  "tokens (db_snapshot_to_string es snap @ s) = tokens (db_snapshot_to_string es snap) @ tokens s"
proof -
  let ?ws = "[show_int (sint (num_transactions (metadata snap))),
      show_nat (unat (total_transferred (metadata snap))),
      show_int (sint (total_balance (metadata snap))), ''#'']"
  let ?rs = "concat (map (\<lambda>(_, r). record_to_string r) es)"
  have split: "db_snapshot_to_string es snap @ s = unwords ?ws @ CHR '' '' # (?rs @ s)"
    by (simp add: db_snapshot_to_string_def)
  have "list_all no_space ?ws" by (simp add: text_simps)
  then have "tokens (unwords ?ws @ CHR '' '' # (?rs @ s)) = ?ws @ tokens (?rs @ s)"
    by (rule tokens_unwords_append) simp
  then show ?thesis unfolding split tokens_snapshot tokens_records_append by (simp only: append_assoc)
qed

lemma length_tokens_snapshot: "length (tokens (db_snapshot_to_string es snap)) = 4 + 4 * length es"
  by (induction es) (auto simp: tokens_snapshot record_tokens_def)

definition request_fits :: "client_record \<Rightarrow> bool" where
  "request_fits r \<longleftrightarrow> unat (last_request r) < 2 ^ 31"

lemma client_record_eq [simp]:
  "\<lparr>ip = ip r, balance = balance r, last_request = last_request r\<rparr> = r" for r :: client_record
  by simp

lemma parse_record_printed [text_simps]:
  "parse_records (record_tokens r @ ts) m =
     (if request_fits r then parse_records ts (if m (ip r) = None then m(ip r \<mapsto> r) else m)
      else Inl Out_of_range)"
  by (simp add: record_tokens_def request_fits_def text_simps inet_simps Let_def)

lemma parse_records_printed:
  "distinct (map fst es) \<Longrightarrow> \<forall>(a, r)\<in>set es. ip r = a \<and> m a = None \<Longrightarrow>
   parse_records (concat (map (\<lambda>(_, r). record_tokens r) es)) m =
     (if \<forall>(a, r)\<in>set es. request_fits r then Inr (m ++ map_of es) else Inl Out_of_range)"
proof (induction es arbitrary: m)
  case (Cons e es)
  obtain a r where e: "e = (a, r)" by force
  have r: "ip r = a" "m a = None" using Cons.prems(2) e by auto
  show ?case
  proof (cases "request_fits r")
    case True
    have "\<forall>(a', r')\<in>set es. ip r' = a' \<and> (m(a \<mapsto> r)) a' = None"
      using Cons.prems e by (fastforce simp: image_iff)
    then have IH: "parse_records (concat (map (\<lambda>(_, r). record_tokens r) es)) (m(a \<mapsto> r)) =
        (if \<forall>(a, r)\<in>set es. request_fits r then Inr (m(a \<mapsto> r) ++ map_of es) else Inl Out_of_range)"
      using Cons.prems(1) by (intro Cons.IH) simp_all
    have "a \<notin> dom (map_of es)" using Cons.prems(1) e by (simp add: dom_map_of_conv_image_fst)
    then have "m ++ map_of ((a, r) # es) = m(a \<mapsto> r) ++ map_of es"
      by (auto simp: fun_eq_iff map_add_def domIff split: option.split)
    then show ?thesis using True e IH r by (simp add: text_simps del: map_of.simps)
  next
    case False
    then show ?thesis using e by (simp add: text_simps)
  qed
qed simp

lemma metadata_eq: "\<lparr>num_transactions = num_transactions md, total_transferred = total_transferred md,
    total_balance = total_balance md\<rparr> = md" for md :: db_metadata
  by simp

text \<open>What \<open>stoi\<close> can read back: the unsigned numbers below \<open>2\<^sup>3\<^sup>1\<close>.\<close>

definition snapshot_fits :: "db_snapshot \<Rightarrow> bool" where
  "snapshot_fits snap \<longleftrightarrow> unat (total_transferred (metadata snap)) < 2 ^ 31 \<and>
     (\<forall>r\<in>ran (records snap). request_fits r)"

definition snapshot_filed :: "db_snapshot \<Rightarrow> bool" where
  "snapshot_filed snap \<longleftrightarrow> (\<forall>a r. records snap a = Some r \<longrightarrow> ip r = a)"

lemma enumerates_ran: "enumerates es m \<Longrightarrow> (\<forall>(a, r)\<in>set es. P r) \<longleftrightarrow> (\<forall>r\<in>ran m. P r)"
  unfolding enumerates_def ran_def
  by (fastforce dest: map_of_SomeD intro: map_of_is_SomeI)

lemma snapshot_read_back:
  assumes "enumerates es (records snap)" "snapshot_filed snap"
  shows "db_snapshot_from_string (db_snapshot_to_string es snap) =
    (if snapshot_fits snap then Inr snap else Inl Out_of_range)"
proof -
  have es: "distinct (map fst es)" "map_of es = records snap"
    using assms(1) by (simp_all add: enumerates_def)
  have "\<forall>(a, r)\<in>set es. ip r = a \<and> Map.empty a = None"
    using assms(2) es by (metis (mono_tags, lifting) case_prodI2 map_of_is_SomeI snapshot_filed_def)
  note parsed = parse_records_printed [OF es(1) this]
  have fits: "(\<forall>(a, r)\<in>set es. request_fits r) \<longleftrightarrow> (\<forall>r\<in>ran (records snap). request_fits r)"
    by (rule enumerates_ran [OF assms(1)])
  show ?thesis
    by (simp add: db_snapshot_from_string_def text_simps token_at_def parsed fits es(2)
        snapshot_fits_def)
qed

section \<open>Loading a snapshot\<close>

lemma load_own_snapshot:
  "db_wf s \<Longrightarrow> db_idle s \<Longrightarrow> load_snapshot (get_db_snapshot s) s = s"
proof -
  assume "db_wf s" "db_idle s"
  then have "(\<lambda>a. map_option (\<lambda>_. False) (database_records s a)) = client_locks s"
    by (auto simp: fun_eq_iff client_locks_idle)
  then show ?thesis by (simp add: load_snapshot_def get_db_snapshot_def get_db_metadata_def)
qed

lemma load_snapshot_ok:
  assumes "db_ok p" "db_idle s"
  shows "db_ok (load_snapshot (get_db_snapshot p) s)"
proof -
  let ?t = "load_snapshot (get_db_snapshot p) s"
  have "database_records ?t = database_records p" "total_balance ?t = total_balance p"
    by (simp_all add: load_snapshot_def get_db_snapshot_def get_db_metadata_def)
  then have "books_balance ?t" using assms(1) by (simp add: db_ok_def books_balance_def money_def)
  moreover have "db_idle ?t" using assms(2) by (simp add: db_idle_def load_snapshot_def)
  moreover have "db_wf ?t"
    using assms(1) by (auto simp: db_ok_def db_wf_def load_snapshot_def get_db_snapshot_def)
  ultimately show ?thesis by (simp add: db_ok_def)
qed

lemma snapshot_filed_get: "db_wf s \<Longrightarrow> snapshot_filed (get_db_snapshot s)"
  by (simp add: snapshot_filed_def get_db_snapshot_def db_wf_def)

text \<open>Every entry takes three tokens at least, and a fourth one before the next.\<close>

lemma parse_records_card:
  "parse_records ts m = Inr m' \<Longrightarrow> card (dom m') \<le> card (dom m) + (length ts + 1) div 4"
proof (induction ts m arbitrary: m' rule: parse_records.induct)
  case (4 a b l ts m)
  obtain bal req where parsed: "stoul b = Inr bal" "stoi l = Inr req"
    using "4.prems" by (auto simp: Let_def split: sum.splits)
  let ?r = "\<lparr>ip = inet_addr a, balance = bal, last_request = req\<rparr>"
  let ?m = "if m (inet_addr a) = None then m(inet_addr a \<mapsto> ?r) else m"
  have one: "card (dom ?m) \<le> Suc (card (dom m))" by (simp add: card_insert_if)
  show ?case
  proof (cases ts)
    case Nil
    then show ?thesis using "4.prems" parsed one by (simp add: Let_def)
  next
    case (Cons sep rest)
    then have "parse_records rest ?m = Inr m'" using "4.prems" parsed by (simp add: Let_def)
    then have "card (dom m') \<le> card (dom ?m) + (length rest + 1) div 4"
      using "4.IH" [OF refl parsed(1) parsed(2) refl refl Cons] by blast
    then show ?thesis using one Cons by simp
  qed
qed (auto split: sum.splits)

section \<open>Properties\<close>

text \<open>
  C38. A snapshot is read back exactly from its text, in whatever order the table was
  iterated, when the transferred total and every request counter are below \<open>2\<^sup>3\<^sup>1\<close>; when one
  of them is not, reading it throws \<open>out_of_range\<close>, since \<open>from_string\<close> reads these unsigned
  numbers with \<open>stoi\<close>.
\<close>

theorem snapshot_roundtrip:
  assumes "db_ok s" and "enumerates es (database_records s)"
  shows "db_snapshot_from_string (db_snapshot_to_string es (get_db_snapshot s)) =
    (if snapshot_fits (get_db_snapshot s) then Inr (get_db_snapshot s) else Inl Out_of_range)"
proof (rule snapshot_read_back)
  show "enumerates es (records (get_db_snapshot s))"
    using assms(2) by (simp add: get_db_snapshot_def)
  show "snapshot_filed (get_db_snapshot s)"
    using assms(1) by (simp add: db_ok_def snapshot_filed_get)
qed

theorem snapshot_roundtrip_witness:
  "db_snapshot_from_string (db_snapshot_to_string
      [(1, \<lparr>ip = 1, balance = 100000, last_request = 0\<rparr>)]
      (get_db_snapshot (run_ops [Register 1] DbManager))) =
    (if snapshot_fits (get_db_snapshot (run_ops [Register 1] DbManager))
     then Inr (get_db_snapshot (run_ops [Register 1] DbManager)) else Inl Out_of_range)"
proof (rule snapshot_roundtrip)
  show "db_ok (run_ops [Register 1] DbManager)" by (rule db_ok_run)
  have "db_wf DbManager" "db_idle DbManager" using db_ok_initial by (simp_all add: db_ok_def)
  then show "enumerates [(1, \<lparr>ip = 1, balance = 100000, last_request = 0\<rparr>)]
      (database_records (run_ops [Register 1] DbManager))"
    by (simp add: register_client_new enumerates_def DbManager_def STARTING_BALANCE_def
        STARTING_REQUEST_def)
qed

text \<open>
  Loading the primary's snapshot makes a replica hold the primary's accounts and
  counters, with one free mutex per client, whatever the replica held before.
\<close>

lemma load_replicates:
  assumes "db_ok p" and "db_idle s"
  shows "get_db_snapshot (load_snapshot (get_db_snapshot p) s) = get_db_snapshot p \<and>
    ledger_of (load_snapshot (get_db_snapshot p) s) = ledger_of p \<and>
    db_ok (load_snapshot (get_db_snapshot p) s)"
  using load_snapshot_ok [OF assms]
  by (simp add: load_snapshot_def get_db_snapshot_def get_db_metadata_def ledger_of_def)

end
