(* ===== verification/Socket_Utils.thy ===== *)
theory Socket_Utils
  imports Packets
begin

text \<open>
  The parts of \<open>common/src/data_transfer/socket_utils.cpp\<close> that compute something: socket
  addresses (\<open>create_sockaddr\<close>), the split of a timeout into seconds and microseconds
  (\<open>set_timeout\<close>), and what a receive call hands to the program. The kernel calls
  themselves (\<open>socket\<close>, \<open>bind\<close>, \<open>setsockopt\<close>) appear as their outcome.
\<close>

section \<open>Socket addresses\<close>

record sockaddr_in =
  sin_port :: "16 word"
  sin_addr :: in_addr

text \<open>\<open>htons\<close> on a little-endian machine swaps the two bytes.\<close>

definition htons :: "16 word \<Rightarrow> 16 word" where
  "htons w = of_nat (256 * (unat w mod 256) + unat w div 256)"

text \<open>The \<open>int\<close> port is converted to 16 bits by the call.\<close>

definition create_sockaddr :: "string \<Rightarrow> i32 \<Rightarrow> sockaddr_in" where
  "create_sockaddr ip_text port = \<lparr>sin_port = htons (ucast port), sin_addr = inet_addr ip_text\<rparr>"

lemma htons_htons: "htons (htons w) = w"
proof -
  have less: "unat w < 65536" using unsigned_less [of w, where 'a = nat] by simp
  then have bound: "256 * (unat w mod 256) + unat w div 256 < 65536"
    using less_mult_imp_div_less [of "unat w" 256 256] mod_less_divisor [of 256 "unat w"] by simp
  then have "unat (htons w) = 256 * (unat w mod 256) + unat w div 256"
    unfolding htons_def by (intro unat_of_nat_16) simp
  moreover have "(256 * (unat w mod 256) + unat w div 256) mod 256 = unat w div 256"
    using less by (simp add: less_mult_imp_div_less)
  moreover have "(256 * (unat w mod 256) + unat w div 256) div 256 = unat w mod 256"
    using less by (simp add: less_mult_imp_div_less)
  ultimately show ?thesis by (simp add: htons_def [of "htons w"])
qed

section \<open>Timeouts\<close>

record timeval =
  tv_sec :: int
  tv_usec :: int

text \<open>C division truncates towards zero.\<close>

definition c_div :: "int \<Rightarrow> int \<Rightarrow> int" where
  "c_div a b = sgn a * sgn b * (\<bar>a\<bar> div \<bar>b\<bar>)"

definition c_mod :: "int \<Rightarrow> int \<Rightarrow> int" where
  "c_mod a b = a - c_div a b * b"

definition timeout_timeval :: "int \<Rightarrow> timeval" where
  "timeout_timeval timeout_ms =
     \<lparr>tv_sec = c_div timeout_ms 1000, tv_usec = c_mod timeout_ms 1000 * 1000\<rparr>"

text \<open>
  \<open>set_timeout\<close>: \<open>accepts\<close> says whether \<open>setsockopt\<close> takes the option. The result is the
  return code, whether the socket was closed, and the option that was set.
\<close>

definition set_timeout :: "(timeval \<Rightarrow> bool) \<Rightarrow> int \<Rightarrow> int \<times> bool \<times> timeval option" where
  "set_timeout accepts timeout_ms =
     (let tv = timeout_timeval timeout_ms
      in if \<not> accepts tv then (-1, True, None) else (0, False, Some tv))"

section \<open>Receiving\<close>

text \<open>
  The outcome of one \<open>recvfrom\<close>: a timeout or error (it returns -1), or a datagram with the
  address of its sender. The call stores at most \<open>limit\<close> bytes, the rest of the datagram is
  lost; the program then terminates the buffer and uses it as a C string.
\<close>

datatype received = Nothing_received | Datagram sockaddr_in string

definition buffer_text :: "nat \<Rightarrow> string \<Rightarrow> string" where
  "buffer_text limit payload = c_str (take limit payload)"

lemma c_str_no_nul [text_simps]: "list_all (\<lambda>c. c \<noteq> CHR 0x00) s \<Longrightarrow> c_str s = s"
  by (simp add: c_str_def takeWhile_all)

lemma buffer_text_fits [text_simps]:
  "length s \<le> limit \<Longrightarrow> list_all (\<lambda>c. c \<noteq> CHR 0x00) s \<Longrightarrow> buffer_text limit s = s"
  by (simp add: buffer_text_def c_str_no_nul)

lemma length_buffer_text: "length (buffer_text limit s) \<le> limit"
  using length_takeWhile_le [of "\<lambda>c. c \<noteq> CHR 0x00" "take limit s"]
  by (simp add: buffer_text_def c_str_def)

lemma buffer_text_id [text_simps]: "no_nul s \<Longrightarrow> length s \<le> n \<Longrightarrow> buffer_text n s = s"
  by (simp add: no_nul_def buffer_text_fits)

section \<open>Properties\<close>

text \<open>
  A timeout in milliseconds is split without loss: seconds and microseconds add up to
  it, and the microseconds stay below a million, as the kernel demands.
\<close>

lemma timeout_split:
  assumes "0 \<le> timeout_ms"
  shows "tv_sec (timeout_timeval timeout_ms) * 1000000 + tv_usec (timeout_timeval timeout_ms) =
      timeout_ms * 1000 \<and>
    0 \<le> tv_usec (timeout_timeval timeout_ms) \<and> tv_usec (timeout_timeval timeout_ms) < 1000000"
proof -
  have "c_div timeout_ms 1000 = timeout_ms div 1000"
    using assms by (cases "timeout_ms = 0") (simp_all add: c_div_def)
  moreover have "c_mod timeout_ms 1000 = timeout_ms mod 1000"
    using calculation by (simp add: c_mod_def minus_div_mult_eq_mod)
  moreover have "timeout_ms div 1000 * 1000000 + timeout_ms mod 1000 * 1000 = timeout_ms * 1000"
    using div_mult_mod_eq [of timeout_ms 1000] by linarith
  ultimately show ?thesis by (simp add: timeout_timeval_def)
qed

end
