(* ===== verification/Request_Handlers.thy ===== *)
theory Request_Handlers
  imports Db_Snapshot Socket_Utils
begin

text \<open>
  The threads that serve one client packet: \<open>REQ_packet_handler.cpp\<close> and
  \<open>KIL_packet_handler.cpp\<close>. A handler maps the database to the datagrams it sends, in order
  (the reply to the client and the broadcast of the new database to the replicas), and the
  new database; an exception that leaves it ends the process. What it logs is in \<open>Console\<close>.
\<close>

section \<open>What a handler sends\<close>

datatype server_output = Reply sockaddr_in string | Broadcast_update db_snapshot

type_synonym handler_outcome = "(cpp_error + server_output list) \<times> db_manager"

section \<open>REQ_packet_handler.cpp\<close>

text \<open>The sequence numbers are compared as \<open>int\<close>: the packet's \<open>long\<close> loses its high half.\<close>

definition check_packet_status :: "req_packet \<Rightarrow> client_record \<Rightarrow> packet_status" where
  "check_packet_status p client =
     (let received_seq_num = (ucast (seq_num p) :: i32);
          expected_seq_num = (last_request client + 1 :: i32)
      in if received_seq_num = expected_seq_num then VALID
         else if sint received_seq_num < sint expected_seq_num then DUPLICATE
         else OUT_OF_ORDER)"

fun transaction_text :: "description \<Rightarrow> string" where
  "transaction_text SUCCESS = ''SUCCESS''"
| "transaction_text BALANCE_CHECK = ''BALANCE_CHECK''"
| "transaction_text INSUFFICIENT_BALANCE = ''INSUFFICIENT_BALANCE''"
| "transaction_text UNKNOWN_RECEIVER = ''RECEIVER_NOT_REGISTERED''"
| "transaction_text DUPLICATE_IP = ''BAD_REQUEST''"
| "transaction_text UNKNOWN_SENDER = ''SENDER_NOT_REGISTERED''"
| "transaction_text NOT_FOUND = ''SERVER_ERROR''"

text \<open>The \<open>switch\<close> of \<open>process_db_transaction\<close>: the reply for each status code.\<close>

definition transaction_reply :: "in_addr \<Rightarrow> req_packet \<Rightarrow> db_record_response \<Rightarrow> ack_packet" where
  "transaction_reply sender_ip p res =
     (if status_code res = UNKNOWN_SENDER \<or> status_code res = NOT_FOUND
      then ACK_Packet 0 (transaction_text (status_code res)) 0 sender_ip (receiver_ip p)
             (transfer_amount p)
      else ACK_Packet (ucast (last_request (response_record res)))
             (transaction_text (status_code res)) (balance (response_record res)) sender_ip
             (receiver_ip p) (transfer_amount p))"

definition process_db_transaction ::
  "in_addr \<Rightarrow> req_packet \<Rightarrow> db_manager \<Rightarrow> (cpp_error + ack_packet) \<times> db_manager" where
  "process_db_transaction sender_ip p s =
     (case make_transaction sender_ip (receiver_ip p) (transfer_amount p) s of
        (Inl e, s') \<Rightarrow> (Inl e, s')
      | (Inr res, s') \<Rightarrow> (Inr (transaction_reply sender_ip p res), s'))"

definition process_req_packet :: "sockaddr_in \<Rightarrow> req_packet \<Rightarrow> db_manager \<Rightarrow> handler_outcome" where
  "process_req_packet sender_addr p s =
     (let client = response_record (get_client_info (sin_addr sender_addr) s);
          sender_ip = sin_addr sender_addr;
          refuse = (\<lambda>res. Inr (ACK_Packet (ucast (last_request client)) res (balance client)
                                sender_ip (receiver_ip p) (transfer_amount p)));
          (reply, s') =
            (case check_packet_status p client of
               VALID \<Rightarrow> process_db_transaction sender_ip p s
             | DUPLICATE \<Rightarrow> (refuse ''DUPLICATE'', s)
             | OUT_OF_ORDER \<Rightarrow> (refuse ''OUT_OF_ORDER'', s)
             | NO_CLUE \<Rightarrow> (refuse ''SERVER_ERRROR'', s))
      in case reply of
           Inl e \<Rightarrow> (Inl e, s')
         | Inr ack \<Rightarrow>
             (Inr ((if result ack = ''SUCCESS'' then [Broadcast_update (get_db_snapshot s')] else []) @
                   [Reply sender_addr (ACK_Packet_to_string ack)]), s'))"

section \<open>KIL_packet_handler.cpp\<close>

definition kill_reply :: "in_addr \<Rightarrow> kil_packet \<Rightarrow> db_record_response \<Rightarrow> ack_packet" where
  "kill_reply sender_ip p res =
     (case status_code res of
        SUCCESS \<Rightarrow> ACK_Packet (seq_num p) ''KILL'' (balance (response_record res)) sender_ip 0
                     (balance (response_record res))
      | NOT_FOUND \<Rightarrow> ACK_Packet (seq_num p) ''SENDER_NOT_REGISTERED'' 0 sender_ip 0 0
      | _ \<Rightarrow> ACK_Packet (seq_num p) ''SERVER_ERROR'' 0 sender_ip 0 0)"

definition process_kill_packet :: "sockaddr_in \<Rightarrow> kil_packet \<Rightarrow> db_manager \<Rightarrow> handler_outcome" where
  "process_kill_packet sender_addr p s =
     (let sender_ip = sin_addr sender_addr;
          (res, s') = remove_client sender_ip s
      in case res of
           Inl e \<Rightarrow> (Inl e, s')
         | Inr res \<Rightarrow>
             (Inr ([Reply sender_addr (ACK_Packet_to_string (kill_reply sender_ip p res))] @
                   (if status_code res = SUCCESS then [Broadcast_update (get_db_snapshot s')] else [])),
              s'))"

section \<open>Lemmas\<close>

lemma ucast_32_64_32: "(ucast (ucast (w :: u32) :: i64) :: u32) = w"
  by (simp add: ucast_up_ucast_id is_up)

lemma check_valid_iff:
  "check_packet_status p client = VALID \<longleftrightarrow> ucast (seq_num p) = last_request client + 1"
  by (simp add: check_packet_status_def Let_def)

lemma check_never_no_clue: "check_packet_status p client \<noteq> NO_CLUE"
  by (simp add: check_packet_status_def Let_def)

lemma process_db_transaction_ok:
  "db_ok s \<Longrightarrow> db_ok (snd (process_db_transaction a p s)) \<and>
     (\<exists>ack. fst (process_db_transaction a p s) = Inr ack)"
  using apply_op_returns [of s "Transact a (receiver_ip p) (transfer_amount p)"]
    db_ok_transaction [of s a "receiver_ip p" "transfer_amount p"]
  by (auto simp: process_db_transaction_def Let_def split: prod.splits sum.splits)

lemma process_req_unfold:
  "process_req_packet addr p s =
     (let client = response_record (get_client_info (sin_addr addr) s)
      in case check_packet_status p client of
           VALID \<Rightarrow>
             (case process_db_transaction (sin_addr addr) p s of
                (Inl e, s') \<Rightarrow> (Inl e, s')
              | (Inr ack, s') \<Rightarrow>
                  (Inr ((if result ack = ''SUCCESS'' then [Broadcast_update (get_db_snapshot s')] else []) @
                        [Reply addr (ACK_Packet_to_string ack)]), s'))
         | st \<Rightarrow> (Inr [Reply addr (ACK_Packet_to_string
                    (ACK_Packet (ucast (last_request client)) (status_to_string st) (balance client)
                      (sin_addr addr) (receiver_ip p) (transfer_amount p)))], s))"
  using check_never_no_clue [of p "response_record (get_client_info (sin_addr addr) s)"]
  by (cases "check_packet_status p (response_record (get_client_info (sin_addr addr) s))")
    (simp_all add: process_req_packet_def Let_def ACK_Packet_def split: prod.split sum.split)

lemma process_req_refused:
  assumes "check_packet_status p (response_record (get_client_info (sin_addr addr) s)) \<noteq> VALID"
  shows "snd (process_req_packet addr p s) = s"
  using assms by (auto simp: process_req_unfold Let_def split: packet_status.split)

lemma process_req_valid:
  assumes "check_packet_status p (response_record (get_client_info (sin_addr addr) s)) = VALID"
  shows "snd (process_req_packet addr p s) =
    snd (make_transaction (sin_addr addr) (receiver_ip p) (transfer_amount p) s)"
  using assms
  by (auto simp: process_req_unfold process_db_transaction_def Let_def split: prod.split sum.split)

lemma process_req_ok: "db_ok s \<Longrightarrow> db_ok (snd (process_req_packet addr p s))"
  by (cases "check_packet_status p (response_record (get_client_info (sin_addr addr) s)) = VALID")
    (simp_all add: process_req_valid process_req_refused db_ok_transaction)

lemma process_req_returns: "db_ok s \<Longrightarrow> \<exists>out. fst (process_req_packet addr p s) = Inr out"
  using process_db_transaction_ok [of s "sin_addr addr" p]
  by (auto simp: process_req_unfold Let_def split: packet_status.split prod.split sum.split)

lemma process_kill_ok: "db_ok s \<Longrightarrow> db_ok (snd (process_kill_packet addr p s))"
  using db_ok_remove [of s "sin_addr addr"]
  by (auto simp: process_kill_packet_def Let_def split: prod.splits sum.splits)

lemma process_kill_returns: "db_ok s \<Longrightarrow> \<exists>out. fst (process_kill_packet addr p s) = Inr out"
  using apply_op_returns [of s "Remove (sin_addr addr)"]
  by (auto simp: process_kill_packet_def Let_def split: prod.splits sum.splits)

text \<open>Both handlers as one service on the database.\<close>

datatype client_message = Req_message sockaddr_in req_packet | Kil_message sockaddr_in kil_packet

fun handle_message :: "client_message \<Rightarrow> db_manager \<Rightarrow> handler_outcome" where
  "handle_message (Req_message addr p) s = process_req_packet addr p s"
| "handle_message (Kil_message addr p) s = process_kill_packet addr p s"

interpretation handler_service: total_service handle_message db_ok
proof
  fix q s
  assume "db_ok s"
  then show "\<exists>out. fst (handle_message q s) = Inr out" "db_ok (snd (handle_message q s))"
    by (cases q; simp add: process_req_returns process_kill_returns process_req_ok process_kill_ok)+
qed

text \<open>The record the server has for the sender after a settlement, and the reply it sends.\<close>

lemma settle_sender_record:
  assumes "database_records s a = Some r" "fst (settle a b amount s) = Inr res"
  shows "status_code res \<noteq> UNKNOWN_SENDER \<and> status_code res \<noteq> NOT_FOUND \<and>
    database_records (snd (settle a b amount s)) a = Some (response_record res)"
  using assms
  by (auto simp: settle_def respond_def split: if_splits option.splits)

lemma settle_advances:
  assumes "database_records s a = Some r"
  shows "(snd (settle a b amount s) = s) \<or>
    (\<exists>r'. database_records (snd (settle a b amount s)) a = Some r' \<and> last_request r' = last_request r + 1)"
  using assms
  by (auto simp: settle_def charged_def debited_def split: if_splits option.splits)

lemma settle_unknown: "database_records s a = None \<Longrightarrow> snd (settle a b amount s) = s"
  by (simp add: settle_def)

lemma next_request_differs: "(w :: u32) + 1 \<noteq> w + 1 + 1"
  by simp

lemma process_req_idempotent:
  assumes ok: "db_ok s"
  shows "snd (process_req_packet addr p (snd (process_req_packet addr p s))) =
    snd (process_req_packet addr p s)"
proof (cases "snd (process_req_packet addr p s) = s")
  case False
  let ?a = "sin_addr addr"
  let ?t = "snd (process_req_packet addr p s)"
  have valid: "check_packet_status p (response_record (get_client_info ?a s)) = VALID"
    using False process_req_refused by blast
  then have t: "?t = snd (settle ?a (receiver_ip p) (transfer_amount p) s)"
    using ok by (simp add: process_req_valid make_transaction_settle db_ok_def)
  obtain r where r: "database_records s ?a = Some r"
    using False t settle_unknown by (cases "database_records s ?a") auto
  then obtain r' where r': "database_records ?t ?a = Some r'" "last_request r' = last_request r + 1"
    using False t settle_advances by metis
  have "ucast (seq_num p) = last_request r + 1"
    using valid r by (simp add: check_valid_iff get_client_info_def respond_def)
  then have "check_packet_status p (response_record (get_client_info ?a ?t)) \<noteq> VALID"
    using r' by (simp add: check_valid_iff get_client_info_def respond_def)
  then show ?thesis by (rule process_req_refused)
qed simp

lemma no_space_results [text_simps]:
  "no_space (transaction_text d)" "no_space (status_to_string st)" "no_space ''KILL''"
  "no_space ''SENDER_NOT_REGISTERED''" "no_space ''SERVER_ERROR''"
  by (cases d; cases st; simp add: no_space_def isspace_def)+

lemma transaction_text_success: "transaction_text d = ''SUCCESS'' \<longleftrightarrow> d = SUCCESS"
  by (cases d) simp_all

lemma result_transaction_reply [simp]:
  "result (transaction_reply a p res) = transaction_text (status_code res)"
  by (simp add: transaction_reply_def ACK_Packet_def)

lemma ack_encodable_replies [text_simps]:
  "ack_encodable (transaction_reply a p res)" "ack_encodable (kill_reply a k res)"
  "ack_encodable (ACK_Packet seq (status_to_string st) bal a b amount)"
  by (auto simp: ack_encodable_def transaction_reply_def kill_reply_def ACK_Packet_def text_simps
      split: description.split)

text \<open>The request handler in closed form, on the states the server keeps.\<close>

definition refusal :: "in_addr \<Rightarrow> req_packet \<Rightarrow> client_record \<Rightarrow> ack_packet" where
  "refusal a p r = ACK_Packet (ucast (last_request r)) (status_to_string (check_packet_status p r))
     (balance r) a (receiver_ip p) (transfer_amount p)"

definition known_record :: "in_addr \<Rightarrow> db_manager \<Rightarrow> client_record" where
  "known_record a s = response_record (get_client_info a s)"

lemma known_record_simps [simp]:
  "database_records s a = Some r \<Longrightarrow> known_record a s = r"
  "database_records s a = None \<Longrightarrow> known_record a s = no_record"
  by (simp_all add: known_record_def get_client_info_def respond_def)

lemma process_req_refusal:
  assumes "check_packet_status p (known_record (sin_addr addr) s) \<noteq> VALID"
  shows "process_req_packet addr p s =
    (Inr [Reply addr (ACK_Packet_to_string (refusal (sin_addr addr) p (known_record (sin_addr addr) s)))], s)"
  using assms
  by (auto simp: process_req_unfold known_record_def refusal_def Let_def split: packet_status.split)

lemma process_req_settles:
  assumes "db_ok s" "check_packet_status p (known_record (sin_addr addr) s) = VALID"
    and "settle (sin_addr addr) (receiver_ip p) (transfer_amount p) s = (Inr res, s')"
  shows "process_req_packet addr p s =
    (Inr ((if status_code res = SUCCESS then [Broadcast_update (get_db_snapshot s')] else []) @
          [Reply addr (ACK_Packet_to_string (transaction_reply (sin_addr addr) p res))]), s')"
  using assms
  by (simp add: process_req_unfold process_db_transaction_def known_record_def Let_def
      make_transaction_settle db_ok_def transaction_text_success)

lemma settle_returns: obtains res s' where "settle a b amount s = (Inr res, s')"
proof -
  have "\<exists>r. fst (settle a b amount s) = Inr r" by (simp add: settle_def split: option.split)
  then show thesis using that by (metis prod.collapse)
qed

text \<open>Balances change only together with a broadcast.\<close>

lemma settle_ledger_change:
  "settle a b amount s = (Inr res, s') \<Longrightarrow> ledger_of s' \<noteq> ledger_of s \<Longrightarrow> status_code res = SUCCESS"
  by (auto simp: settle_def respond_def ledger_of_def charged_def fun_eq_iff
      split: option.splits if_splits)

lemma process_req_broadcasts:
  assumes "db_ok s" "process_req_packet addr p s = (Inr out, s')" "ledger_of s' \<noteq> ledger_of s"
  shows "Broadcast_update (get_db_snapshot s') \<in> set out"
proof (cases "check_packet_status p (known_record (sin_addr addr) s) = VALID")
  case True
  obtain res t where t: "settle (sin_addr addr) (receiver_ip p) (transfer_amount p) s = (Inr res, t)"
    by (rule settle_returns)
  with assms True have "s' = t" by (simp add: process_req_settles)
  then show ?thesis
    using settle_ledger_change [OF t] assms process_req_settles [OF assms(1) True t] by auto
qed (use assms in \<open>simp add: process_req_refusal\<close>)

lemma process_kill_broadcasts:
  assumes "db_ok s" "process_kill_packet addr p s = (Inr out, s')" "ledger_of s' \<noteq> ledger_of s"
  shows "Broadcast_update (get_db_snapshot s') \<in> set out"
  using assms
  by (cases "database_records s (sin_addr addr)")
    (auto simp: process_kill_packet_def Let_def db_ok_def remove_client_known remove_client_unknown
      respond_def)

section \<open>Properties\<close>

text \<open>
  C21. At most once: serving the same request packet a second time right after the first
  leaves the database as the first left it, whatever the packet says and whatever came out
  the first time.
\<close>

theorem request_served_at_most_once:
  assumes "db_ok s"
  shows "snd (process_req_packet addr p (snd (process_req_packet addr p s))) =
    snd (process_req_packet addr p s)"
  using assms by (rule process_req_idempotent)

theorem request_served_at_most_once_witness:
  "snd (process_req_packet \<lparr>sin_port = 0, sin_addr = 1\<rparr> (REQ_Packet 1 2 30)
      (snd (process_req_packet \<lparr>sin_port = 0, sin_addr = 1\<rparr> (REQ_Packet 1 2 30)
        two_clients))) =
   snd (process_req_packet \<lparr>sin_port = 0, sin_addr = 1\<rparr> (REQ_Packet 1 2 30)
      two_clients)"
  by (rule request_served_at_most_once) (rule two_clients_ok)

text \<open>
  The server survives its clients: whatever REQ and KIL packets its handlers serve, in
  whatever order, no handler throws, every mutex is free afterwards and the books balance.
\<close>

lemma handlers_total:
  assumes "db_ok s"
  shows "db_ok (fold (\<lambda>m s. snd (handle_message m s)) ms s) \<and>
    (\<exists>out. fst (handle_message m (fold (\<lambda>m s. snd (handle_message m s)) ms s)) = Inr out)"
  using assms handler_service.valid_fold handler_service.returns_after by blast

text \<open>
  C26. The reply resynchronises the client: a registered sender's request gets exactly one
  reply, the client's parser reads it, and the sequence number after the one it carries is
  the one the server will accept next, on every branch of the handler.
\<close>

theorem reply_resynchronises:
  assumes "db_ok s" and "database_records s (sin_addr addr) \<noteq> None"
  shows "\<exists>out ack r. fst (process_req_packet addr p s) = Inr out \<and>
    [t. Reply a t \<leftarrow> out, a = addr] = [ACK_Packet_to_string ack] \<and>
    to_ACK_Packet (ACK_Packet_to_string ack) = Inr ack \<and>
    database_records (snd (process_req_packet addr p s)) (sin_addr addr) = Some r \<and>
    check_packet_status (REQ_Packet (seq_num ack + 1) b amount) r = VALID"
proof -
  let ?a = "sin_addr addr"
  obtain r where r: "database_records s ?a = Some r" using assms(2) by blast
  have next_seq: "check_packet_status (REQ_Packet (ucast (last_request q) + 1) b amount) q = VALID" for q
    by (simp add: check_valid_iff REQ_Packet_def ucast_add_64 ucast_32_64_32)
  show ?thesis
  proof (cases "check_packet_status p (known_record ?a s) = VALID")
    case True
    obtain res s' where t: "settle ?a (receiver_ip p) (transfer_amount p) s = (Inr res, s')"
      by (rule settle_returns)
    have res: "database_records s' ?a = Some (response_record res)"
      "status_code res \<noteq> UNKNOWN_SENDER" "status_code res \<noteq> NOT_FOUND"
      using settle_sender_record [OF r, of "receiver_ip p" "transfer_amount p" res] t by simp_all
    then have "seq_num (transaction_reply ?a p res) = ucast (last_request (response_record res))"
      by (simp add: transaction_reply_def ACK_Packet_def)
    then show ?thesis
      using process_req_settles [OF assms(1) True t] res next_seq [of "response_record res"]
      by (intro exI [of _ "(if status_code res = SUCCESS then [Broadcast_update (get_db_snapshot s')] else []) @
          [Reply addr (ACK_Packet_to_string (transaction_reply ?a p res))]"]
          exI [of _ "transaction_reply ?a p res"] exI [of _ "response_record res"])
        (simp add: ack_wire.decode_encode text_simps)
  next
    case False
    have "seq_num (refusal ?a p r) = ucast (last_request r)"
      by (simp add: refusal_def ACK_Packet_def)
    then show ?thesis
      using process_req_refusal [OF False] r next_seq [of r]
      by (intro exI [of _ "[Reply addr (ACK_Packet_to_string (refusal ?a p r))]"]
          exI [of _ "refusal ?a p r"] exI [of _ r])
        (simp add: ack_wire.decode_encode text_simps refusal_def)
  qed
qed

theorem reply_resynchronises_witness:
  "\<exists>out ack r. fst (process_req_packet \<lparr>sin_port = 0, sin_addr = 1\<rparr> (REQ_Packet 9 2 30)
      two_clients) = Inr out \<and>
    [t. Reply a t \<leftarrow> out, a = \<lparr>sin_port = 0, sin_addr = 1\<rparr>] = [ACK_Packet_to_string ack] \<and>
    to_ACK_Packet (ACK_Packet_to_string ack) = Inr ack \<and>
    database_records (snd (process_req_packet \<lparr>sin_port = 0, sin_addr = 1\<rparr> (REQ_Packet 9 2 30)
      two_clients)) 1 = Some r \<and>
    check_packet_status (REQ_Packet (seq_num ack + 1) 2 30) r = VALID"
  using reply_resynchronises [OF two_clients_ok, of
      "\<lparr>sin_port = 0, sin_addr = 1\<rparr>" "REQ_Packet 9 2 30" 2 30]
  by (simp add: two_clients_records)

text \<open>
  Replicas cannot miss money: whenever serving a packet changes any balance or the set of
  clients, the handler broadcasts the resulting database.
\<close>

lemma balance_change_is_broadcast:
  assumes "db_ok s" and "handle_message m s = (Inr out, s')" and "ledger_of s' \<noteq> ledger_of s"
  shows "Broadcast_update (get_db_snapshot s') \<in> set out"
  using assms process_req_broadcasts process_kill_broadcasts by (cases m) auto

text \<open>
  A request that fails for lack of balance still advances the sender's request counter,
  and this change is not broadcast: the only output is the reply, while the database the
  replicas should hold is no longer the one they were sent.
\<close>

lemma insufficient_balance_not_replicated:
  assumes "db_ok s" and "database_records s (sin_addr addr) = Some r"
    and "database_records s b \<noteq> None" and "b \<noteq> sin_addr addr"
    and "ucast seq = last_request r + 1" and "balance r < amount"
  shows "fst (process_req_packet addr (REQ_Packet seq b amount) s) =
      Inr [Reply addr (ACK_Packet_to_string
        (ACK_Packet (ucast (last_request r + 1)) ''INSUFFICIENT_BALANCE'' (balance r)
           (sin_addr addr) b amount))] \<and>
    get_db_snapshot (snd (process_req_packet addr (REQ_Packet seq b amount) s)) \<noteq> get_db_snapshot s"
proof -
  let ?p = "REQ_Packet seq b amount"
  have p: "receiver_ip ?p = b" "transfer_amount ?p = amount" by (simp_all add: REQ_Packet_def)
  have valid: "check_packet_status ?p (known_record (sin_addr addr) s) = VALID"
    using assms(2,5) by (simp add: check_valid_iff REQ_Packet_def)
  have "amount \<noteq> 0" using assms(6) by auto
  then have settled: "settle (sin_addr addr) (receiver_ip ?p) (transfer_amount ?p) s =
      (Inr (respond False (charged r) INSUFFICIENT_BALANCE),
       s\<lparr>database_records := (database_records s)(sin_addr addr \<mapsto> charged r)\<rparr>)"
    using assms p by (auto simp: settle_def)
  have "(database_records s)(sin_addr addr \<mapsto> charged r) \<noteq> database_records s"
    using assms(2) by (metis charged_def client_record.select_convs(3) client_record.surjective
        client_record.update_convs(3) fun_upd_same option.inject add_cancel_right_right one_neq_zero)
  then show ?thesis
    using process_req_settles [OF assms(1) valid settled] p
    by (simp add: transaction_reply_def respond_def charged_def get_db_snapshot_def)
qed

text \<open>
  A sender the server does not know changes nothing and is never told SUCCESS: sequence
  number 1 (modulo \<open>2\<^sup>3\<^sup>2\<close>) is answered SENDER_NOT_REGISTERED, any other one DUPLICATE or
  OUT_OF_ORDER, as if the client's counter were 0.
\<close>

lemma unknown_sender_refused:
  assumes "db_ok s" and "database_records s (sin_addr addr) = None"
  shows "process_req_packet addr p s =
    (Inr [Reply addr (ACK_Packet_to_string (ACK_Packet 0
       (if (ucast (seq_num p) :: i32) = 1 then ''SENDER_NOT_REGISTERED''
        else if sint (ucast (seq_num p) :: i32) < 1 then ''DUPLICATE'' else ''OUT_OF_ORDER'')
       0 (sin_addr addr) (receiver_ip p) (transfer_amount p)))], s)"
proof (cases "check_packet_status p (known_record (sin_addr addr) s) = VALID")
  case True
  then have "(ucast (seq_num p) :: i32) = 1"
    using assms(2) by (simp add: check_valid_iff no_record_def)
  moreover have "settle (sin_addr addr) (receiver_ip p) (transfer_amount p) s =
      (Inr (respond False no_record UNKNOWN_SENDER), s)"
    using assms(2) by (simp add: settle_def)
  ultimately show ?thesis
    using process_req_settles [OF assms(1) True]
    by (simp add: transaction_reply_def respond_def)
next
  case False
  then show ?thesis
    using process_req_refusal [OF False] assms(2)
    by (auto simp: refusal_def no_record_def check_packet_status_def Let_def)
qed

text \<open>
  A KIL packet closes the sender's account: the reply carries the balance that is
  removed, the account and its mutex are gone, every other account is untouched, and a
  second KIL is answered SENDER_NOT_REGISTERED and changes nothing.
\<close>

lemma kill_closes_account:
  assumes "db_ok s" and "database_records s (sin_addr addr) = Some r"
  shows "\<exists>s'. process_kill_packet addr KIL_Packet s =
      (Inr [Reply addr (ACK_Packet_to_string
              (ACK_Packet (-1) ''KILL'' (balance r) (sin_addr addr) 0 (balance r))),
            Broadcast_update (get_db_snapshot s')], s') \<and>
    database_records s' = (database_records s)(sin_addr addr := None) \<and>
    client_locks s' (sin_addr addr) = None \<and>
    process_kill_packet addr KIL_Packet s' =
      (Inr [Reply addr (ACK_Packet_to_string
              (ACK_Packet (-1) ''SENDER_NOT_REGISTERED'' 0 (sin_addr addr) 0 0))], s')"
proof -
  have ok: "db_wf s" "db_idle s" using assms(1) by (simp_all add: db_ok_def)
  let ?s' = "snd (remove_client (sin_addr addr) s)"
  note eq = remove_client_known [OF ok assms(2)]
  have ok': "db_wf ?s'" "db_idle ?s'"
    using db_ok_remove [OF assms(1), of "sin_addr addr"] by (simp_all add: db_ok_def)
  have "database_records ?s' (sin_addr addr) = None" by (simp add: eq)
  note gone = remove_client_unknown [OF ok' this]
  show ?thesis
    using eq gone
    by (intro exI [of _ ?s'])
      (simp add: process_kill_packet_def kill_reply_def respond_def KIL_Packet_def Let_def)
qed

end
