(* ===== verification/Db_Locking.thy ===== *)
theory Db_Locking
  imports Request_Handlers
begin

text \<open>
  The database operations of \<open>db_manager.cpp\<close> under concurrency. Each operation is a thread
  with a program counter; a step runs up to and including the next mutex acquisition or the
  next access to shared data that the code does not make under the same mutex, and is not
  enabled while the mutex it needs is held. A release never blocks, so it belongs to the
  step before it. A world is the list of threads with the shared database; any enabled
  thread may step. The memory of the two maps and of the erased records is not modelled:
  the steps show what the mutexes do, not the data races on the maps themselves.
\<close>

section \<open>Threads\<close>

text \<open>
  \<open>Handle\<close> is the part of the request handler in front of the transaction: it reads the
  sender's record and checks the packet, without a mutex. The counters of a transaction
  from A to B: before \<open>lock_database\<close>, before \<open>lock_client(A)\<close>, the early returns, before
  \<open>lock_client(B)\<close>, between the look-ups and the balance check, before the debit, before the
  credit, before \<open>lock_metadata\<close>, before the counters, before \<open>*sender\<close> is copied out. The
  record of a response is read where the code reads it, after the mutexes are released: a
  transaction and a registration copy it through a pointer or an iterator, so a removal in
  between makes the read undefined; the early returns look it up again with \<open>at\<close>, which throws.
\<close>

datatype txn_pc =
    Txn_start | Txn_sender | Txn_read bool description | Txn_receiver | Txn_check | Txn_debit
  | Txn_credit | Txn_metadata | Txn_count | Txn_reply bool description

datatype reg_pc = Reg_start | Reg_client bool | Reg_insert | Reg_database | Reg_total | Reg_reply

datatype rem_pc = Rem_start | Rem_client | Rem_erase | Rem_database | Rem_unlock | Rem_total_lock | Rem_total

datatype thread =
    Handle in_addr req_packet
  | Txn txn_pc in_addr in_addr u64
  | Reg reg_pc in_addr
  | Rem rem_pc in_addr client_record
  | Refused packet_status
  | Finished "cpp_error + db_record_response"

section \<open>Steps\<close>

definition acquire_database :: "db_manager \<Rightarrow> db_manager option" where
  "acquire_database s = (if database_access_lock s then None else Some (lock_database s))"

definition acquire_metadata :: "db_manager \<Rightarrow> db_manager option" where
  "acquire_metadata s = (if database_metadata_lock s then None else Some (lock_metadata s))"

text \<open>\<open>lock_client\<close>: blocked, unknown, or held from now on.\<close>

datatype lock_attempt = Blocked | Unknown | Locked db_manager

definition acquire_client :: "in_addr \<Rightarrow> db_manager \<Rightarrow> lock_attempt" where
  "acquire_client a s =
     (case client_locks s a of
        None \<Rightarrow> Unknown
      | Some held \<Rightarrow>
          if held then Blocked else Locked (s\<lparr>client_locks := (client_locks s)(a \<mapsto> True)\<rparr>))"

definition with_record ::
  "in_addr \<Rightarrow> (client_record \<Rightarrow> client_record) \<Rightarrow> db_manager \<Rightarrow> db_manager" where
  "with_record a f s = s\<lparr>database_records := (database_records s)(a := map_option f (database_records s a))\<rparr>"

definition release_both :: "in_addr \<Rightarrow> in_addr \<Rightarrow> db_manager \<Rightarrow> db_manager" where
  "release_both a b s = unlock_client b (unlock_client a s)"

fun txn_step ::
  "txn_pc \<Rightarrow> in_addr \<Rightarrow> in_addr \<Rightarrow> u64 \<Rightarrow> db_manager \<Rightarrow> (thread \<times> db_manager) option" where
  "txn_step Txn_start a b amount s =
     (case acquire_database s of None \<Rightarrow> None | Some s \<Rightarrow> Some (Txn Txn_sender a b amount, s))"
| "txn_step Txn_sender a b amount s =
     (case acquire_client a s of
        Blocked \<Rightarrow> None
      | Unknown \<Rightarrow> Some (Finished (Inr (respond False no_record UNKNOWN_SENDER)), unlock_database s)
      | Locked s \<Rightarrow>
          if amount = 0
          then Some (Txn (Txn_read True BALANCE_CHECK) a b amount, unlock_database (unlock_client a s))
          else if a = b
          then Some (Txn (Txn_read False DUPLICATE_IP) a b amount, unlock_database (unlock_client a s))
          else Some (Txn Txn_receiver a b amount, s))"
| "txn_step (Txn_read ok d) a b amount s =
     (case database_records s a of
        None \<Rightarrow> Some (Finished (Inl Out_of_range), s)
      | Some r \<Rightarrow> Some (Finished (Inr (respond ok r d)), s))"
| "txn_step Txn_receiver a b amount s =
     (case acquire_client b s of
        Blocked \<Rightarrow> None
      | Unknown \<Rightarrow>
          Some (Finished (Inr (respond False (response_record (get_client_info a s)) UNKNOWN_RECEIVER)),
                unlock_database (unlock_client a s))
      | Locked s \<Rightarrow> Some (Txn Txn_check a b amount, unlock_database s))"
| "txn_step Txn_check a b amount s =
     (case (database_records s a, database_records s b) of
        (None, _) \<Rightarrow>
          Some (Finished (Inr (respond False no_record UNKNOWN_SENDER)), release_both a b s)
      | (Some sender, None) \<Rightarrow>
          Some (Txn (Txn_reply False UNKNOWN_RECEIVER) a b amount, release_both a b s)
      | (Some sender, Some _) \<Rightarrow>
          (let s = with_record a charged s
           in if balance sender < amount
              then Some (Txn (Txn_reply False INSUFFICIENT_BALANCE) a b amount, release_both a b s)
              else Some (Txn Txn_debit a b amount, s)))"
| "txn_step Txn_debit a b amount s =
     Some (Txn Txn_credit a b amount,
           with_record a (\<lambda>r. r\<lparr>balance := balance r - amount\<rparr>) s)"
| "txn_step Txn_credit a b amount s =
     Some (Txn Txn_metadata a b amount, release_both a b (with_record b (credited amount) s))"
| "txn_step Txn_metadata a b amount s =
     (case acquire_metadata s of None \<Rightarrow> None | Some s \<Rightarrow> Some (Txn Txn_count a b amount, s))"
| "txn_step Txn_count a b amount s =
     Some (Txn (Txn_reply True SUCCESS) a b amount,
           unlock_metadata (s\<lparr>total_transferred := uint_plus_ulong (total_transferred s) amount,
                              num_transactions := num_transactions s + 1\<rparr>))"
| "txn_step (Txn_reply ok d) a b amount s =
     (case database_records s a of
        None \<Rightarrow> Some (Finished (Inl Undefined_behaviour), s)
      | Some r \<Rightarrow> Some (Finished (Inr (respond ok r d)), s))"

fun reg_step :: "reg_pc \<Rightarrow> in_addr \<Rightarrow> db_manager \<Rightarrow> (thread \<times> db_manager) option" where
  "reg_step Reg_start a s =
     (case acquire_database s of None \<Rightarrow> None | Some s \<Rightarrow>
        (let inserted = (client_locks s a = None)
         in Some (Reg (Reg_client inserted) a,
                  if inserted then s\<lparr>client_locks := (client_locks s)(a \<mapsto> False)\<rparr> else s)))"
| "reg_step (Reg_client inserted) a s =
     (case acquire_client a s of
        Blocked \<Rightarrow> None
      | Unknown \<Rightarrow> Some (Finished (Inl Out_of_range), s)
      | Locked s \<Rightarrow>
          if inserted then Some (Reg Reg_insert a, unlock_database s)
          else Some (Finished (Inr (respond False no_record DUPLICATE_IP)),
                     unlock_client a (unlock_database s)))"
| "reg_step Reg_insert a s =
     (if database_records s a \<noteq> None then Some (Finished (Inl Undefined_behaviour), s)
      else Some (Reg Reg_database a,
        unlock_client a (s\<lparr>database_records := (database_records s)
          (a \<mapsto> \<lparr>ip = a, balance = STARTING_BALANCE, last_request = STARTING_REQUEST\<rparr>)\<rparr>)))"
| "reg_step Reg_database a s =
     (case acquire_database s of None \<Rightarrow> None | Some s \<Rightarrow> Some (Reg Reg_total a, s))"
| "reg_step Reg_total a s =
     Some (Reg Reg_reply a,
           unlock_database (s\<lparr>total_balance := int_plus_ulong (total_balance s) STARTING_BALANCE\<rparr>))"
| "reg_step Reg_reply a s =
     (case database_records s a of
        None \<Rightarrow> Some (Finished (Inl Undefined_behaviour), s)
      | Some r \<Rightarrow> Some (Finished (Inr (respond True r SUCCESS)), s))"

text \<open>
  \<open>remove_client\<close> takes the database mutex a second time while it holds the client's.
\<close>

fun rem_step ::
  "rem_pc \<Rightarrow> in_addr \<Rightarrow> client_record \<Rightarrow> db_manager \<Rightarrow> (thread \<times> db_manager) option" where
  "rem_step Rem_start a c s =
     (case acquire_database s of None \<Rightarrow> None | Some s \<Rightarrow> Some (Rem Rem_client a c, s))"
| "rem_step Rem_client a c s =
     (case acquire_client a s of
        Blocked \<Rightarrow> None
      | Unknown \<Rightarrow> Some (Finished (Inr (respond False no_record NOT_FOUND)), unlock_database s)
      | Locked s \<Rightarrow> Some (Rem Rem_erase a c, unlock_database s))"
| "rem_step Rem_erase a c s =
     (case database_records s a of
        None \<Rightarrow> Some (Finished (Inr (respond False no_record NOT_FOUND)), unlock_client a s)
      | Some r \<Rightarrow> Some (Rem Rem_database a r, s\<lparr>database_records := (database_records s)(a := None)\<rparr>))"
| "rem_step Rem_database a c s =
     (case acquire_database s of None \<Rightarrow> None | Some s \<Rightarrow> Some (Rem Rem_unlock a c, s))"
| "rem_step Rem_unlock a c s =
     (let s = unlock_client a s
      in if client_locks s a = None then Some (Finished (Inl Out_of_range), s)
         else Some (Rem Rem_total_lock a c,
                unlock_database (s\<lparr>client_locks := (client_locks s)(a := None)\<rparr>)))"
| "rem_step Rem_total_lock a c s =
     (case acquire_database s of None \<Rightarrow> None | Some s \<Rightarrow> Some (Rem Rem_total a c, s))"
| "rem_step Rem_total a c s =
     Some (Finished (Inr (respond True c SUCCESS)),
           unlock_database (s\<lparr>total_balance := int_minus_ulong (total_balance s) (balance c)\<rparr>))"

fun thread_step :: "thread \<Rightarrow> db_manager \<Rightarrow> (thread \<times> db_manager) option" where
  "thread_step (Handle a p) s =
     (let status = check_packet_status p (known_record a s)
      in Some (if status = VALID then Txn Txn_start a (receiver_ip p) (transfer_amount p)
               else Refused status, s))"
| "thread_step (Txn pc a b amount) s = txn_step pc a b amount s"
| "thread_step (Reg pc a) s = reg_step pc a s"
| "thread_step (Rem pc a c) s = rem_step pc a c s"
| "thread_step (Refused status) s = None"
| "thread_step (Finished r) s = None"

type_synonym world = "thread list \<times> db_manager"

inductive world_step :: "world \<Rightarrow> world \<Rightarrow> bool" where
  step: "i < length ts \<Longrightarrow> thread_step (ts ! i) s = Some (t, s') \<Longrightarrow> world_step (ts, s) (ts[i := t], s')"

inductive_cases world_step_elim: "world_step (ts, s) w"

fun ended :: "thread \<Rightarrow> bool" where
  "ended (Refused _) = True"
| "ended (Finished _) = True"
| "ended _ = False"

section \<open>A thread on its own\<close>

fun run_alone :: "nat \<Rightarrow> thread \<Rightarrow> db_manager \<Rightarrow> thread \<times> db_manager" where
  "run_alone 0 t s = (t, s)"
| "run_alone (Suc n) t s =
     (case thread_step t s of None \<Rightarrow> (t, s) | Some (t', s') \<Rightarrow> run_alone n t' s')"

lemma run_alone_world:
  "i < length ts \<Longrightarrow>
   world_step\<^sup>*\<^sup>* (ts, s) (ts[i := fst (run_alone n (ts ! i) s)], snd (run_alone n (ts ! i) s))"
proof (induction n arbitrary: ts s)
  case (Suc n)
  show ?case
  proof (cases "thread_step (ts ! i) s")
    case (Some p)
    obtain t' s' where p: "p = (t', s')" by force
    have "world_step (ts, s) (ts[i := t'], s')"
      using Suc.prems Some p by (intro step) auto
    then show ?thesis
      using Suc.IH [of "ts[i := t']" s'] Suc.prems Some p
      by (simp add: converse_rtranclp_into_rtranclp)
  qed simp
qed simp

lemmas step_defs =
  acquire_database_def acquire_metadata_def acquire_client_def lock_defs release_both_def
  with_record_def

lemma register_alone:
  assumes "db_ok s"
  shows "run_alone 6 (Reg Reg_start a) s =
    (Finished (fst (register_client a s)), snd (register_client a s))"
proof (cases "database_records s a")
  case None
  then show ?thesis using assms
    by (simp add: eval_nat_numeral db_ok_def register_client_new step_defs db_simps)
next
  case (Some r)
  then show ?thesis using assms locks_restored [of s a]
    by (simp add: eval_nat_numeral db_ok_def register_client_known step_defs db_simps)
qed

lemma remove_alone:
  assumes "db_ok s"
  shows "run_alone 7 (Rem Rem_start a c) s =
    (Finished (fst (remove_client a s)), snd (remove_client a s))"
proof (cases "database_records s a")
  case None
  then show ?thesis using assms
    by (simp add: eval_nat_numeral db_ok_def remove_client_unknown step_defs db_simps)
next
  case (Some r)
  then show ?thesis using assms
    by (simp add: eval_nat_numeral db_ok_def remove_client_known step_defs db_simps)
qed

lemma transaction_alone:
  assumes "db_ok s"
  shows "run_alone 9 (Txn Txn_start a b amount) s =
    (Finished (fst (make_transaction a b amount s)), snd (make_transaction a b amount s))"
proof -
  have ok: "db_wf s" "db_idle s" using assms by (simp_all add: db_ok_def)
  show ?thesis
  proof (cases "database_records s a")
    case None
    then show ?thesis using ok
      by (simp add: eval_nat_numeral make_transaction_settle settle_def step_defs db_simps)
  next
    case (Some r)
    note a = Some
    have la: "(client_locks s)(a \<mapsto> False) = client_locks s"
      using a ok locks_restored by simp
    show ?thesis
    proof (cases "amount = 0 \<or> a = b \<or> database_records s b = None")
      case True
      then show ?thesis using a la ok
        by (auto simp: eval_nat_numeral make_transaction_settle settle_def get_client_info_def
            respond_def step_defs db_simps)
    next
      case False
      then obtain q where q: "database_records s b = Some q" "a \<noteq> b" "amount \<noteq> 0" by auto
      have l2: "(client_locks s)(b \<mapsto> True, a \<mapsto> False, b \<mapsto> False) = client_locks s"
        using locks_restored_two [OF ok] a q by simp
      show ?thesis using a q l2 ok
        by (simp add: eval_nat_numeral make_transaction_settle settle_def charged_def debited_def
            credited_def Let_def step_defs db_simps fun_upd_twist)
    qed
  qed
qed

text \<open>A thread that runs alone is deterministic, and stays where it has ended.\<close>

lemma run_alone_stuck: "thread_step t s = None \<Longrightarrow> run_alone n t s = (t, s)"
  by (cases n) simp_all

lemma run_alone_add:
  "run_alone (n + m) t s = (case run_alone n t s of (u, s') \<Rightarrow> run_alone m u s')"
  by (induction n arbitrary: t s) (auto simp: run_alone_stuck split: option.split)

lemma ended_stuck: "ended t \<Longrightarrow> thread_step t s = None"
  by (cases t) simp_all

lemma run_alone_ended:
  assumes "run_alone n t s = (u, s')" "ended u"
  shows "run_alone (n + k) t s = (u, s')"
  using assms by (simp add: run_alone_add run_alone_stuck ended_stuck)

lemma run_alone_ends_once:
  assumes "run_alone n t s = (u, s')" "ended u" "run_alone m t s = (v, s'')" "ended v"
  shows "u = v \<and> s' = s''"
  using run_alone_ended [OF assms(1,2), of m] run_alone_ended [OF assms(3,4), of n]
  by (simp add: add.commute)

lemma run_alone_parties:
  "run_alone n (Txn pc a b m) s = (t, s') \<Longrightarrow> (\<exists>pc'. t = Txn pc' a b m) \<or> ended t"
proof (induction n arbitrary: pc s)
  case (Suc n)
  show ?case
  proof (cases "txn_step pc a b m s")
    case (Some p)
    then obtain u s1 where p: "p = (u, s1)" by force
    have "(\<exists>pc'. u = Txn pc' a b m) \<or> ended u"
      using Some p by (cases pc) (auto simp: Let_def split: if_splits option.splits lock_attempt.splits)
    then show ?thesis
      using Suc Some p run_alone_stuck [OF ended_stuck, of u n s1] by auto
  qed (use Suc.prems in auto)
qed auto

text \<open>A transaction that is about to read its record for the response.\<close>

fun reads_record :: "thread \<Rightarrow> bool" where
  "reads_record (Txn (Txn_read ok d) a b m) = True"
| "reads_record (Txn (Txn_reply ok d) a b m) = True"
| "reads_record t = False"

lemma reads_recordE:
  assumes "reads_record (Txn pc a b m)"
  obtains ok d e where "thread_step (Txn pc a b m) s = Some (case database_records s a of
      None \<Rightarrow> Finished (Inl e) | Some r \<Rightarrow> Finished (Inr (respond ok r d)), s)"
proof (cases pc)
  case (Txn_read ok d)
  then show ?thesis using that [of Out_of_range ok d] by (simp split: option.split)
next
  case (Txn_reply ok d)
  then show ?thesis using that [of Undefined_behaviour ok d] by (simp split: option.split)
qed (use assms in simp_all)

lemma reading_point:
  assumes "db_ok s" "run_alone n (Handle a p) s = (t, s')" "reads_record t"
  obtains pc r where "t = Txn pc a (receiver_ip p) (transfer_amount p)"
    and "s' = snd (make_transaction a (receiver_ip p) (transfer_amount p) s)"
    and "database_records s' a = Some r"
proof -
  let ?b = "receiver_ip p" and ?m = "transfer_amount p"
  obtain k where n: "n = Suc k" using assms(2,3) by (cases n) auto
  have valid: "check_packet_status p (known_record a s) = VALID"
  proof (rule ccontr)
    assume "\<not> ?thesis"
    then have "t = Refused (check_packet_status p (known_record a s))"
      using assms(2) n by (auto simp: Let_def run_alone_stuck)
    then show False using assms(3) by simp
  qed
  then have run: "run_alone k (Txn Txn_start a ?b ?m) s = (t, s')" using assms(2) n by simp
  then obtain pc where pc: "t = Txn pc a ?b ?m"
    using run_alone_parties assms(3) by (metis ended.elims(2) reads_record.simps)
  obtain ok d e where step: "thread_step t s' = Some (case database_records s' a of
      None \<Rightarrow> Finished (Inl e) | Some r \<Rightarrow> Finished (Inr (respond ok r d)), s')"
    using reads_recordE assms(3) pc by metis
  let ?u = "case database_records s' a of None \<Rightarrow> Finished (Inl e) | Some r \<Rightarrow> Finished (Inr (respond ok r d))"
  have "run_alone (k + 1) (Txn Txn_start a ?b ?m) s = (?u, s')"
    unfolding run_alone_add run using step by simp
  moreover have "ended ?u" by (simp split: option.split)
  ultimately have same: "?u = Finished (fst (make_transaction a ?b ?m s)) \<and> s' = snd (make_transaction a ?b ?m s)"
    using run_alone_ends_once transaction_alone [OF assms(1), of a ?b ?m] by (metis ended.simps(2))
  obtain res where "fst (make_transaction a ?b ?m s) = Inr res"
    using db_service.returns [OF assms(1), of "Transact a ?b ?m"] by auto
  then obtain r where "database_records s' a = Some r" using same by (cases "database_records s' a") auto
  then show thesis using that pc same by blast
qed

text \<open>
  The last thing a transaction does, once its mutexes are released, is to read the sender's
  record for its response; up to there its effect is complete.
\<close>

lemma transaction_reads_last:
  assumes "db_ok s" "database_records s a = Some r" "amount = 0 \<or> database_records s b \<noteq> None"
  shows "\<exists>n ok d. run_alone n (Txn Txn_start a b amount) s =
    (Txn (if amount = 0 \<or> a = b then Txn_read ok d else Txn_reply ok d) a b amount,
     snd (make_transaction a b amount s))"
proof -
  have ok: "db_wf s" "db_idle s" using assms(1) by (simp_all add: db_ok_def)
  have la: "(client_locks s)(a \<mapsto> False) = client_locks s"
    using assms(2) ok locks_restored by simp
  consider "amount = 0" | "amount \<noteq> 0" "a = b" | "amount \<noteq> 0" "a \<noteq> b" by blast
  then show ?thesis
  proof cases
    case 1
    have "run_alone 2 (Txn Txn_start a b amount) s = (Txn (Txn_read True BALANCE_CHECK) a b amount, s)"
      using 1 assms(2) la ok by (simp add: eval_nat_numeral step_defs db_simps)
    then show ?thesis using 1 assms(2) ok by (auto simp: make_transaction_settle settle_def)
  next
    case 2
    have "run_alone 2 (Txn Txn_start a b amount) s = (Txn (Txn_read False DUPLICATE_IP) a b amount, s)"
      using 2 assms(2) la ok by (simp add: eval_nat_numeral step_defs db_simps)
    then show ?thesis using 2 assms(2) ok by (auto simp: make_transaction_settle settle_def)
  next
    case 3
    then obtain q where q: "database_records s b = Some q" using assms(3) by auto
    have l2: "(client_locks s)(b \<mapsto> True, a \<mapsto> False, b \<mapsto> False) = client_locks s"
      using locks_restored_two [OF ok] assms(2) q 3 by simp
    show ?thesis
    proof (cases "balance r < amount")
      case True
      then have "run_alone 4 (Txn Txn_start a b amount) s =
          (Txn (Txn_reply False INSUFFICIENT_BALANCE) a b amount, snd (make_transaction a b amount s))"
        using 3 assms(2) q l2 ok
        by (simp add: eval_nat_numeral make_transaction_settle settle_def charged_def Let_def step_defs db_simps
            fun_upd_twist)
      then show ?thesis using 3 by auto
    next
      case False
      then have "run_alone 8 (Txn Txn_start a b amount) s =
          (Txn (Txn_reply True SUCCESS) a b amount, snd (make_transaction a b amount s))"
        using 3 assms(2) q l2 ok
        by (simp add: eval_nat_numeral make_transaction_settle settle_def charged_def debited_def
            credited_def Let_def step_defs db_simps fun_upd_twist)
      then show ?thesis using 3 by auto
    qed
  qed
qed

end
