(* ===== verification/Db_Interleavings.thy ===== *)
theory Db_Interleavings
  imports Db_Locking
begin

text \<open>
  What holds in every interleaving of the threads of \<open>Db_Locking\<close>: which mutexes a thread
  holds at each program counter, the invariant of a world without removals (each mutex has
  at most one holder, every program counter finds the records it relies on) as an
  interpretation of the invariant interface, the conservation of money and progress; and
  what goes wrong with removals and with two handlers of one packet.
\<close>

section \<open>Which mutexes a thread holds\<close>

fun holds_database :: "thread \<Rightarrow> bool" where
  "holds_database (Txn Txn_sender a b m) = True"
| "holds_database (Txn Txn_receiver a b m) = True"
| "holds_database (Reg (Reg_client i) a) = True"
| "holds_database (Reg Reg_total a) = True"
| "holds_database (Rem Rem_client a c) = True"
| "holds_database (Rem Rem_unlock a c) = True"
| "holds_database (Rem Rem_total a c) = True"
| "holds_database t = False"

fun holds_metadata :: "thread \<Rightarrow> bool" where
  "holds_metadata (Txn Txn_count a b m) = True"
| "holds_metadata t = False"

fun holds_client :: "in_addr \<Rightarrow> thread \<Rightarrow> bool" where
  "holds_client x (Txn Txn_receiver a b m) = (x = a)"
| "holds_client x (Txn Txn_check a b m) = (x = a \<or> x = b)"
| "holds_client x (Txn Txn_debit a b m) = (x = a \<or> x = b)"
| "holds_client x (Txn Txn_credit a b m) = (x = a \<or> x = b)"
| "holds_client x (Reg Reg_insert a) = (x = a)"
| "holds_client x (Rem Rem_erase a c) = (x = a)"
| "holds_client x (Rem Rem_database a c) = (x = a)"
| "holds_client x (Rem Rem_unlock a c) = (x = a)"
| "holds_client x t = False"

text \<open>
  What each program counter relies on, in a world without removals: the records behind the
  mutexes it holds, two different parties and a covered amount before the debit, a fresh
  mutex for a client that is being registered. A removal or an exception fits nothing.
\<close>

fun fits :: "thread \<Rightarrow> db_manager \<Rightarrow> bool" where
  "fits (Txn pc a b m) s =
     (case pc of
        Txn_start \<Rightarrow> True
      | Txn_sender \<Rightarrow> True
      | Txn_read _ _ \<Rightarrow> database_records s a \<noteq> None
      | Txn_receiver \<Rightarrow> m \<noteq> 0 \<and> a \<noteq> b \<and> database_records s a \<noteq> None
      | Txn_check \<Rightarrow> m \<noteq> 0 \<and> a \<noteq> b \<and> database_records s a \<noteq> None \<and> database_records s b \<noteq> None
      | Txn_debit \<Rightarrow> a \<noteq> b \<and> (\<exists>r. database_records s a = Some r \<and> m \<le> balance r) \<and>
                     database_records s b \<noteq> None
      | Txn_credit \<Rightarrow> a \<noteq> b \<and> database_records s a \<noteq> None \<and> database_records s b \<noteq> None
      | _ \<Rightarrow> database_records s a \<noteq> None)"
| "fits (Reg pc a) s =
     (case pc of
        Reg_client inserted \<Rightarrow> client_locks s a \<noteq> None \<and>
          (inserted \<longrightarrow> client_locks s a = Some False \<and> database_records s a = None)
      | Reg_insert \<Rightarrow> database_records s a = None
      | Reg_start \<Rightarrow> True
      | _ \<Rightarrow> database_records s a \<noteq> None)"
| "fits (Rem pc a c) s = False"
| "fits (Finished r) s = (\<exists>x. r = Inr x)"
| "fits t s = True"

text \<open>A thread that has filed a mutex for a client and not yet its record.\<close>

fun entering :: "in_addr \<Rightarrow> thread \<Rightarrow> bool" where
  "entering x (Reg (Reg_client inserted) a) = (inserted \<and> x = a)"
| "entering x (Reg Reg_insert a) = (x = a)"
| "entering x t = False"

definition how_many :: "(thread \<Rightarrow> bool) \<Rightarrow> thread list \<Rightarrow> nat" where
  "how_many P ts = length (filter P ts)"

lemma how_many_update:
  "i < length ts \<Longrightarrow> how_many P (ts[i := t]) + of_bool (P (ts ! i)) = how_many P ts + of_bool (P t)"
proof (induction ts arbitrary: i)
  case (Cons x ts)
  then show ?case by (cases i) (auto simp: how_many_def)
qed simp

lemma how_many_member: "i < length ts \<Longrightarrow> P (ts ! i) \<Longrightarrow> 0 < how_many P ts"
  by (auto simp: how_many_def filter_empty_conv)

lemma how_many_two:
  assumes "i < j" "j < length ts" "P (ts ! i)" "P (ts ! j)"
  shows "2 \<le> how_many P ts"
proof -
  have "0 < how_many P (take j ts)"
    using assms by (intro how_many_member [of i]) simp_all
  moreover have "0 < how_many P (drop j ts)"
    using assms by (intro how_many_member [of 0]) simp_all
  moreover have "how_many P ts = how_many P (take j ts) + how_many P (drop j ts)"
    by (simp add: how_many_def flip: length_append filter_append)
  ultimately show ?thesis by simp
qed

lemma how_many_zero: "how_many P ts = 0 \<longleftrightarrow> (\<forall>t\<in>set ts. \<not> P t)"
  by (simp add: how_many_def filter_empty_conv)

definition locks_match :: "thread list \<Rightarrow> db_manager \<Rightarrow> bool" where
  "locks_match ts s \<longleftrightarrow>
     how_many holds_database ts = of_bool (database_access_lock s) \<and>
     how_many holds_metadata ts = of_bool (database_metadata_lock s) \<and>
     (\<forall>a. how_many (holds_client a) ts = of_bool (client_locks s a = Some True))"

definition world_ok :: "world \<Rightarrow> bool" where
  "world_ok w \<longleftrightarrow>
     (case w of (ts, s) \<Rightarrow>
        locks_match ts s \<and> (\<forall>t\<in>set ts. fits t s) \<and> finite (dom (database_records s)) \<and>
        (\<forall>a. database_records s a \<noteq> None \<longrightarrow> client_locks s a \<noteq> None) \<and>
        (\<forall>a. client_locks s a \<noteq> None \<longrightarrow> database_records s a = None \<longrightarrow> (\<exists>t\<in>set ts. entering a t)))"

text \<open>How the lock operations change each mutex, and nothing else.\<close>

lemma unlock_client_simps [simp]:
  "client_locks (unlock_client a s) = (client_locks s)(a := map_option (\<lambda>_. False) (client_locks s a))"
  "database_access_lock (unlock_client a s) = database_access_lock s"
  "database_metadata_lock (unlock_client a s) = database_metadata_lock s"
  "database_records (unlock_client a s) = database_records s"
  by (auto simp: unlock_client_def split: option.split)

lemma unlock_simps [simp]:
  "database_access_lock (unlock_database s) = False"
  "database_metadata_lock (unlock_database s) = database_metadata_lock s"
  "client_locks (unlock_database s) = client_locks s"
  "database_records (unlock_database s) = database_records s"
  "database_access_lock (unlock_metadata s) = database_access_lock s"
  "database_metadata_lock (unlock_metadata s) = False"
  "client_locks (unlock_metadata s) = client_locks s"
  "database_records (unlock_metadata s) = database_records s"
  by (simp_all add: unlock_database_def unlock_metadata_def)

lemma with_record_simps [simp]:
  "database_access_lock (with_record a f s) = database_access_lock s"
  "database_metadata_lock (with_record a f s) = database_metadata_lock s"
  "client_locks (with_record a f s) = client_locks s"
  "database_records (with_record a f s) = (database_records s)(a := map_option f (database_records s a))"
  by (simp_all add: with_record_def)

lemma acquire_database_Some [simp]:
  "acquire_database s = Some s' \<longleftrightarrow> \<not> database_access_lock s \<and> s' = s\<lparr>database_access_lock := True\<rparr>"
  by (auto simp: acquire_database_def lock_database_def)

lemma acquire_metadata_Some [simp]:
  "acquire_metadata s = Some s' \<longleftrightarrow> \<not> database_metadata_lock s \<and> s' = s\<lparr>database_metadata_lock := True\<rparr>"
  by (auto simp: acquire_metadata_def lock_metadata_def)

lemma acquire_client_simps [simp]:
  "acquire_client a s = Locked s' \<longleftrightarrow>
     client_locks s a = Some False \<and> s' = s\<lparr>client_locks := (client_locks s)(a \<mapsto> True)\<rparr>"
  "acquire_client a s = Unknown \<longleftrightarrow> client_locks s a = None"
  "acquire_client a s = Blocked \<longleftrightarrow> client_locks s a = Some True"
  by (auto simp: acquire_client_def split: option.split)

text \<open>
  A step leaves a mutex as it is, or takes it or gives it back in accordance with what the
  thread holds.
\<close>

definition moved :: "bool \<Rightarrow> bool \<Rightarrow> bool \<Rightarrow> bool \<Rightarrow> bool" where
  "moved l l' h h' \<longleftrightarrow> (l' = l \<and> h' = h) \<or> (l' \<noteq> l \<and> l' = h' \<and> l = h)"

lemma moved_count:
  "moved l l' h h' \<Longrightarrow> n + of_bool h = of_bool l + of_bool h' \<Longrightarrow> n = (of_bool l' :: nat)"
  by (auto simp: moved_def)

lemmas thread_splits = if_splits option.splits lock_attempt.splits prod.splits

lemma database_moved:
  assumes "thread_step t s = Some (t', s')" "fits t s" "holds_database t \<longrightarrow> database_access_lock s"
  shows "moved (database_access_lock s) (database_access_lock s') (holds_database t) (holds_database t')"
proof (cases t)
  case (Txn pc a b m)
  then show ?thesis using assms
    by (cases pc) (auto simp: moved_def Let_def release_both_def split: thread_splits)
next
  case (Reg pc a)
  then show ?thesis using assms
    by (cases pc) (auto simp: moved_def Let_def split: thread_splits)
next
  case (Rem pc a c)
  then show ?thesis using assms
    by (cases pc) (auto simp: moved_def Let_def split: thread_splits)
qed (use assms in \<open>auto simp: moved_def Let_def split: thread_splits\<close>)

lemma metadata_moved:
  assumes "thread_step t s = Some (t', s')" "fits t s" "holds_metadata t \<longrightarrow> database_metadata_lock s"
  shows "moved (database_metadata_lock s) (database_metadata_lock s') (holds_metadata t) (holds_metadata t')"
proof (cases t)
  case (Txn pc a b m)
  then show ?thesis using assms
    by (cases pc) (auto simp: moved_def Let_def release_both_def split: thread_splits)
next
  case (Reg pc a)
  then show ?thesis using assms
    by (cases pc) (auto simp: moved_def Let_def split: thread_splits)
next
  case (Rem pc a c)
  then show ?thesis using assms
    by (cases pc) (auto simp: moved_def Let_def split: thread_splits)
qed (use assms in \<open>auto simp: moved_def Let_def split: thread_splits\<close>)

lemma client_moved:
  assumes "thread_step t s = Some (t', s')" "fits t s"
    and "\<And>c. holds_client c t \<Longrightarrow> client_locks s c = Some True"
  shows "moved (client_locks s c = Some True) (client_locks s' c = Some True)
    (holds_client c t) (holds_client c t')"
proof (cases t)
  case (Txn pc a b m)
  then show ?thesis using assms(1,2) assms(3) [of a] assms(3) [of b]
    by (cases pc) (auto simp: moved_def Let_def release_both_def split: thread_splits)
next
  case (Reg pc a)
  then show ?thesis using assms(1,2) assms(3) [of a]
    by (cases pc) (auto simp: moved_def Let_def split: thread_splits)
next
  case (Rem pc a r)
  then show ?thesis using assms(1,2) assms(3) [of a]
    by (cases pc) (auto simp: moved_def Let_def split: thread_splits)
qed (use assms in \<open>auto simp: moved_def Let_def split: thread_splits\<close>)

text \<open>What a step can do to the two maps, seen from a client whose mutex it does not hold.\<close>

lemma records_frame:
  assumes "thread_step t s = Some (t', s')" "fits t s" "\<not> holds_client c t"
  shows "database_records s' c = database_records s c"
proof (cases t)
  case (Txn pc a b m)
  then show ?thesis using assms
    by (cases pc) (auto simp: Let_def release_both_def split: thread_splits)
next
  case (Reg pc a)
  then show ?thesis using assms by (cases pc) (auto simp: Let_def split: thread_splits)
qed (use assms in \<open>auto simp: Let_def split: thread_splits\<close>)

lemma records_grow:
  assumes "thread_step t s = Some (t', s')" "fits t s" "database_records s c \<noteq> None"
  shows "database_records s' c \<noteq> None"
proof (cases t)
  case (Txn pc a b m)
  then show ?thesis using assms
    by (cases pc) (auto simp: Let_def release_both_def split: thread_splits)
next
  case (Reg pc a)
  then show ?thesis using assms by (cases pc) (auto simp: Let_def split: thread_splits)
qed (use assms in \<open>auto simp: Let_def split: thread_splits\<close>)

lemma mutexes_grow:
  assumes "thread_step t s = Some (t', s')" "fits t s" "client_locks s c \<noteq> None"
  shows "client_locks s' c \<noteq> None \<and>
    (\<not> holds_database t \<and> client_locks s c = Some False \<longrightarrow> client_locks s' c = Some False)"
proof (cases t)
  case (Txn pc a b m)
  then show ?thesis using assms
    by (cases pc) (auto simp: Let_def release_both_def split: thread_splits)
next
  case (Reg pc a)
  then show ?thesis using assms by (cases pc) (auto simp: Let_def split: thread_splits)
qed (use assms in \<open>auto simp: Let_def split: thread_splits\<close>)

lemma fits_stable:
  assumes step: "thread_step t s = Some (t', s')" "fits t s" and u: "fits u s"
    and clients: "\<And>c. holds_client c t \<Longrightarrow> client_locks s c = Some True \<and> \<not> holds_client c u"
    and database: "\<not> (holds_database t \<and> holds_database u)"
  shows "fits u s'"
proof (cases u)
  case (Txn pc a b m)
  note grow = records_grow [OF step]
  have same: "holds_client c u \<Longrightarrow> database_records s' c = database_records s c" for c
    using clients records_frame [OF step] by blast
  show ?thesis using u grow [of a] grow [of b] same [of a] same [of b] Txn
    by (cases pc) auto
next
  case (Reg pc a)
  show ?thesis
  proof (cases pc)
    case (Reg_client inserted)
    have "inserted \<Longrightarrow> \<not> holds_client a t" using u Reg Reg_client clients [of a] by auto
    then show ?thesis
      using u Reg Reg_client mutexes_grow [OF step, of a] records_frame [OF step, of a] database
      by auto
  next
    case Reg_insert
    then have "\<not> holds_client a t" using Reg clients [of a] by auto
    then show ?thesis using u Reg Reg_insert records_frame [OF step, of a] by simp
  qed (use u Reg records_grow [OF step, of a] in auto)
qed (use u in simp_all)

lemma fits_step:
  assumes "thread_step t s = Some (t', s')" "fits t s"
    and "\<And>c. holds_database t \<Longrightarrow> client_locks s c = Some False \<Longrightarrow>
      database_records s c \<noteq> None \<or> entering c t"
    and "\<And>c. database_records s c \<noteq> None \<Longrightarrow> client_locks s c \<noteq> None"
  shows "fits t' s'"
proof (cases t)
  case (Txn pc a b m)
  then show ?thesis using assms(1,2) assms(3) [of a] assms(3) [of b]
    by (cases pc) (auto simp: Let_def release_both_def not_less charged_def split: thread_splits)
next
  case (Reg pc a)
  have "client_locks s a = None \<Longrightarrow> database_records s a = None"
    using assms(4) [of a] by blast
  then show ?thesis using assms(1,2) Reg
    by (cases pc) (auto simp: Let_def split: thread_splits)
qed (use assms in \<open>auto simp: Let_def split: thread_splits\<close>)

lemma entering_step:
  assumes "thread_step t s = Some (t', s')" "fits t s"
    and "client_locks s' c \<noteq> None" "database_records s' c = None"
    and "client_locks s c = None \<or> entering c t"
  shows "entering c t'"
proof (cases t)
  case (Txn pc a b m)
  then show ?thesis using assms
    by (cases pc) (auto simp: Let_def release_both_def split: thread_splits if_splits)
next
  case (Reg pc a)
  then show ?thesis using assms by (cases pc) (auto simp: Let_def split: thread_splits)
qed (use assms in \<open>auto simp: Let_def split: thread_splits\<close>)

section \<open>The invariant of a world\<close>

lemma holder_locked:
  assumes "locks_match ts s" "i < length ts"
  shows "holds_database (ts ! i) \<Longrightarrow> database_access_lock s"
    and "holds_metadata (ts ! i) \<Longrightarrow> database_metadata_lock s"
    and "holds_client a (ts ! i) \<Longrightarrow> client_locks s a = Some True"
  using assms how_many_member [OF assms(2)] by (fastforce simp: locks_match_def split: if_splits)+

text \<open>Mutual exclusion: two threads never hold the same mutex.\<close>

lemma one_holder:
  assumes "how_many P ts = of_bool l" "i < length ts" "j < length ts" "i \<noteq> j"
  shows "\<not> (P (ts ! i) \<and> P (ts ! j))"
  using assms how_many_two [of i j ts P] how_many_two [of j i ts P]
  by (cases "i < j") (auto simp: of_bool_def split: if_splits)

lemma locks_match_step:
  assumes "locks_match ts s" "i < length ts" "thread_step (ts ! i) s = Some (t, s')" "fits (ts ! i) s"
  shows "locks_match (ts[i := t]) s'"
proof -
  note held = holder_locked [OF assms(1,2)]
  have "how_many holds_database (ts[i := t]) = of_bool (database_access_lock s')"
    using how_many_update [OF assms(2), of holds_database t] assms(1)
    by (intro moved_count [OF database_moved [OF assms(3,4)]]) (auto simp: locks_match_def dest: held)
  moreover have "how_many holds_metadata (ts[i := t]) = of_bool (database_metadata_lock s')"
    using how_many_update [OF assms(2), of holds_metadata t] assms(1)
    by (intro moved_count [OF metadata_moved [OF assms(3,4)]]) (auto simp: locks_match_def dest: held)
  moreover have "how_many (holds_client a) (ts[i := t]) = of_bool (client_locks s' a = Some True)" for a
    using how_many_update [OF assms(2), of "holds_client a" t] assms(1)
    by (intro moved_count [OF client_moved [OF assms(3,4)]]) (auto simp: locks_match_def dest: held)
  ultimately show ?thesis by (simp add: locks_match_def)
qed

lemma records_finite_step:
  assumes "thread_step t s = Some (t', s')" "fits t s" "finite (dom (database_records s))"
  shows "finite (dom (database_records s'))"
proof (cases t)
  case (Txn pc a b m)
  have "dom (database_records s') \<subseteq> dom (database_records s)"
    using Txn assms(1,2) by (cases pc) (auto simp: Let_def release_both_def split: thread_splits if_splits)
  then show ?thesis using assms(3) finite_subset by blast
next
  case (Reg pc a)
  have "dom (database_records s') \<subseteq> insert a (dom (database_records s))"
    using Reg assms(1,2) by (cases pc) (auto simp: Let_def split: thread_splits if_splits)
  then show ?thesis using assms(3) finite_subset by blast
qed (use assms in \<open>auto simp: Let_def split: thread_splits\<close>)

lemma records_have_mutex_step:
  assumes "thread_step t s = Some (t', s')" "fits t s"
    and "\<And>c. holds_client c t \<Longrightarrow> client_locks s c = Some True"
    and "\<And>c. database_records s c \<noteq> None \<Longrightarrow> client_locks s c \<noteq> None"
    and "database_records s' c \<noteq> None"
  shows "client_locks s' c \<noteq> None"
proof -
  have "client_locks s c \<noteq> None"
    using assms(3-5) records_frame [OF assms(1,2), of c] by (cases "holds_client c t") auto
  then show ?thesis using mutexes_grow [OF assms(1,2)] by blast
qed

lemma entering_exists:
  assumes "world_ok (ts, s)" "client_locks s c \<noteq> None" "database_records s c = None"
  obtains j where "j < length ts" "entering c (ts ! j)"
proof -
  have "\<exists>t\<in>set ts. entering c t" using assms unfolding world_ok_def by blast
  then show thesis using that by (auto simp: in_set_conv_nth)
qed

lemma free_mutex_has_record:
  assumes ok: "world_ok (ts, s)" and i: "i < length ts" and held: "holds_database (ts ! i)"
    and free: "client_locks s c = Some False" and none: "database_records s c = None"
  shows "entering c (ts ! i)"
proof -
  have match: "locks_match ts s" using ok by (simp add: world_ok_def)
  obtain j where j: "j < length ts" "entering c (ts ! j)"
    using entering_exists [OF ok _ none] free by blast
  have "holds_database (ts ! j) \<or> holds_client c (ts ! j)"
    using j(2) by (cases "(c, ts ! j)" rule: entering.cases) auto
  then have "holds_database (ts ! j)"
    using holder_locked(3) [OF match j(1)] free by auto
  then have "i = j"
    using one_holder [OF _ i j(1)] match held unfolding locks_match_def by blast
  then show ?thesis using j by simp
qed

lemma world_ok_step:
  assumes ok: "world_ok (ts, s)" and i: "i < length ts"
    and step: "thread_step (ts ! i) s = Some (t, s')"
  shows "world_ok (ts[i := t], s')"
proof -
  have match: "locks_match ts s" and fit: "fits (ts ! i) s" and all: "\<forall>u\<in>set ts. fits u s"
    and filed: "\<And>c. database_records s c \<noteq> None \<Longrightarrow> client_locks s c \<noteq> None"
    using ok i by (auto simp: world_ok_def)
  note held = holder_locked [OF match i]
  have fits_t: "fits t s'"
    using free_mutex_has_record [OF ok i] filed by (intro fits_step [OF step fit]) blast+
  have fits_other: "fits (ts ! j) s'" if "j < length ts" "j \<noteq> i" for j
  proof (rule fits_stable [OF step fit])
    note apart = one_holder [OF _ i that(1) that(2) [symmetric]]
    show "fits (ts ! j) s" using all that by simp
    show "\<not> (holds_database (ts ! i) \<and> holds_database (ts ! j))"
      using match unfolding locks_match_def by (intro apart) blast
    fix c assume c: "holds_client c (ts ! i)"
    have "\<not> (holds_client c (ts ! i) \<and> holds_client c (ts ! j))"
      using match unfolding locks_match_def by (intro apart) blast
    then show "client_locks s c = Some True \<and> \<not> holds_client c (ts ! j)"
      using c held(3) by blast
  qed
  have "\<forall>u\<in>set (ts[i := t]). fits u s'"
    using fits_t fits_other i by (auto simp: in_set_conv_nth nth_list_update)
  moreover have "\<exists>u\<in>set (ts[i := t]). entering c u"
    if c: "client_locks s' c \<noteq> None" "database_records s' c = None" for c
  proof (cases "client_locks s c = None \<or> entering c (ts ! i)")
    case True
    then have "entering c t" using c by (intro entering_step [OF step fit])
    then show ?thesis using i set_update_memI by metis
  next
    case False
    have "database_records s c = None" using c(2) records_grow [OF step fit, of c] by blast
    then obtain j where "j < length ts" "entering c (ts ! j)"
      using entering_exists [OF ok] False by blast
    then show ?thesis using False i
      by (metis length_list_update nth_list_update_neq nth_mem)
  qed
  ultimately show ?thesis
    using locks_match_step [OF match i step fit] records_finite_step [OF step fit]
      records_have_mutex_step [OF step fit held(3) filed] ok
    by (auto simp: world_ok_def)
qed

text \<open>Worlds at the start: fresh requests, transactions and registrations on an idle database.\<close>

fun fresh :: "thread \<Rightarrow> bool" where
  "fresh (Handle a p) = True"
| "fresh (Txn Txn_start a b m) = True"
| "fresh (Reg Reg_start a) = True"
| "fresh t = False"

definition world_start :: "world \<Rightarrow> bool" where
  "world_start w \<longleftrightarrow> (case w of (ts, s) \<Rightarrow> db_ok s \<and> list_all fresh ts)"

lemma fresh_holds_nothing:
  "fresh t \<Longrightarrow> \<not> holds_database t \<and> \<not> holds_metadata t \<and> \<not> holds_client c t \<and> fits t s"
  by (cases t rule: fresh.cases) auto

lemma world_ok_start: "world_start w \<Longrightarrow> world_ok w"
proof -
  assume "world_start w"
  then obtain ts s where w: "w = (ts, s)" "db_ok s" "list_all fresh ts"
    by (auto simp: world_start_def)
  then have nothing: "how_many holds_database ts = 0" "how_many holds_metadata ts = 0"
    "how_many (holds_client a) ts = 0" for a
    using fresh_holds_nothing by (auto simp: how_many_zero list_all_iff)
  then show ?thesis
    using w fresh_holds_nothing
    by (auto simp: world_ok_def locks_match_def db_ok_def db_simps list_all_iff db_wf_def)
qed

interpretation db_threads: invariant_system world_start world_step world_ok
proof
  fix w w' assume "world_ok w" "world_step w w'"
  then show "world_ok w'" by (cases w) (auto elim!: world_step_elim intro: world_ok_step)
qed (rule world_ok_start)

section \<open>Money in flight\<close>

text \<open>Between the debit and the credit the amount is in neither account.\<close>

fun in_flight :: "thread \<Rightarrow> nat" where
  "in_flight (Txn Txn_credit a b m) = unat m"
| "in_flight t = 0"

definition world_money :: "world \<Rightarrow> nat" where
  "world_money w = (case w of (ts, s) \<Rightarrow> money s + sum_list (map in_flight ts))"

fun moves_money_only :: "thread \<Rightarrow> bool" where
  "moves_money_only (Reg pc a) = False"
| "moves_money_only (Rem pc a c) = False"
| "moves_money_only t = True"

lemma in_flight_member: "i < length ts \<Longrightarrow> in_flight (ts ! i) \<le> sum_list (map in_flight ts)"
  by (rule member_le_sum_list) simp_all

lemma money_records: "database_records s' = database_records s \<Longrightarrow> money s' = money s"
  by (simp add: money_def)

lemma money_upd:
  assumes "finite (dom (database_records s))" "database_records s a = Some r"
    and "database_records s' = (database_records s)(a \<mapsto> r')"
  shows "unat (balance r) + money s' = unat (balance r') + money s"
  using value_sum_update [OF assms(1,2), of "\<lambda>r. unat (balance r)" r'] assms(3) by (simp add: money_def)

lemma moves_money_only_step:
  assumes "thread_step t s = Some (t', s')" "moves_money_only t"
  shows "moves_money_only t'"
proof (cases t)
  case (Txn pc a b m)
  then show ?thesis using assms by (cases pc) (auto simp: Let_def split: thread_splits)
qed (use assms in \<open>auto simp: Let_def split: thread_splits\<close>)

text \<open>No step of a transaction creates or loses money, counting what is in flight.\<close>

lemma txn_step_money:
  assumes step: "txn_step pc a b m s = Some (t', s')" and fit: "fits (Txn pc a b m) s"
    and fin: "finite (dom (database_records s))"
    and small: "money s + in_flight (Txn pc a b m) < 2 ^ 64"
  shows "money s' + in_flight t' = money s + in_flight (Txn pc a b m)"
proof (cases "pc \<in> {Txn_check, Txn_debit, Txn_credit}")
  case False
  then have "database_records s' = database_records s" "in_flight t' = 0"
    using step by (cases pc; auto simp: Let_def split: thread_splits)+
  then show ?thesis using False money_records [of s' s] by (cases pc) auto
next
  case True
  then consider "pc = Txn_check" | "pc = Txn_debit" | "pc = Txn_credit" by blast
  then show ?thesis
  proof cases
    case 1
    obtain r where r: "database_records s a = Some r" using fit 1 by auto
    have "database_records s' = (database_records s)(a \<mapsto> charged r)" "in_flight t' = 0"
      using step fit 1 r by (auto simp: Let_def release_both_def split: thread_splits)
    then show ?thesis using money_upd [OF fin r] 1 by (fastforce simp: charged_def)
  next
    case 2
    obtain r where r: "database_records s a = Some r" "m \<le> balance r" using fit 2 by auto
    have s': "database_records s' = (database_records s)(a \<mapsto> r\<lparr>balance := balance r - m\<rparr>)"
      "t' = Txn Txn_credit a b m"
      using step 2 r by auto
    have "unat (balance r - m) = unat (balance r) - unat m" "unat m \<le> unat (balance r)"
      using r(2) by (simp_all add: unat_sub word_le_nat_alt)
    then show ?thesis using money_upd [OF fin r(1) s'(1)] 2 s'(2) by simp
  next
    case 3
    obtain r where r: "database_records s b = Some r" using fit 3 by auto
    have s': "database_records s' = (database_records s)(b \<mapsto> credited m r)" "in_flight t' = 0"
      using step 3 r by (auto simp: release_both_def)
    have "unat (balance r) \<le> money s"
      using value_sum_member [OF fin r, of "\<lambda>r. unat (balance r)"] by (simp add: money_def)
    then have "unat (balance r) + unat m < 2 ^ 64" using small 3 by simp
    then show ?thesis
      using money_upd [OF fin r s'(1)] s'(2) 3 unat_credit [of "balance r" m]
      by (simp add: credited_def)
  qed
qed

lemma world_money_step:
  assumes ok: "world_ok (ts, s)" and i: "i < length ts" and step: "thread_step (ts ! i) s = Some (t, s')"
    and only: "moves_money_only (ts ! i)" and small: "world_money (ts, s) < 2 ^ 64"
  shows "world_money (ts[i := t], s') = world_money (ts, s)"
proof -
  have fit: "fits (ts ! i) s" "finite (dom (database_records s))"
    using ok i by (auto simp: world_ok_def)
  have "money s' + in_flight t = money s + in_flight (ts ! i)"
  proof (cases "ts ! i")
    case (Txn pc a b m)
    have "money s + in_flight (ts ! i) < 2 ^ 64"
      using small in_flight_member [OF i] by (simp add: world_money_def)
    then show ?thesis using txn_step_money [of pc a b m s t s'] step fit Txn by simp
  qed (use step only in \<open>auto simp: Let_def split: if_splits\<close>)
  then show ?thesis
    using sum_list_map_update [OF i, of in_flight t] by (simp add: world_money_def)
qed

lemma world_money_steps:
  "world_step\<^sup>*\<^sup>* w w' \<Longrightarrow> world_ok w \<Longrightarrow> list_all moves_money_only (fst w) \<Longrightarrow> world_money w < 2 ^ 64 \<Longrightarrow>
   world_money w' = world_money w \<and> list_all moves_money_only (fst w')"
proof (induction rule: rtranclp_induct)
  case (step v w')
  obtain ts s where v: "v = (ts, s)" by force
  obtain i t s' where i: "i < length ts" "thread_step (ts ! i) s = Some (t, s')" "w' = (ts[i := t], s')"
    using step.hyps(2) v by (auto elim: world_step_elim)
  have "world_ok v" using db_threads.inv_steps [OF step.hyps(1)] step.prems(1) .
  moreover have "list_all moves_money_only (ts[i := t])"
  proof -
    have "\<forall>x\<in>set ts. moves_money_only x" using step v by (simp add: list_all_iff)
    then show ?thesis
      using moves_money_only_step [OF i(2)] set_update_subset_insert [of ts i t] nth_mem [OF i(1)]
      by (auto simp: list_all_iff)
  qed
  ultimately show ?case
    using step i v world_money_step [of ts s i t s'] by (auto simp: list_all_iff)
qed simp

section \<open>Progress\<close>

text \<open>Why a thread cannot step.\<close>

fun wants_database :: "thread \<Rightarrow> bool" where
  "wants_database (Txn Txn_start a b m) = True"
| "wants_database (Reg Reg_start a) = True"
| "wants_database (Reg Reg_database a) = True"
| "wants_database t = False"

fun wants_client :: "thread \<Rightarrow> in_addr option" where
  "wants_client (Txn Txn_sender a b m) = Some a"
| "wants_client (Txn Txn_receiver a b m) = Some b"
| "wants_client (Reg (Reg_client False) a) = Some a"
| "wants_client t = None"

lemma stuck_reason:
  assumes "thread_step t s = None" "fits t s" "\<not> database_metadata_lock s"
  shows "ended t \<or> wants_database t \<and> database_access_lock s \<or>
    (\<exists>c. wants_client t = Some c \<and> client_locks s c = Some True)"
proof (cases t)
  case (Txn pc a b m)
  then show ?thesis using assms
    by (cases pc) (auto simp: Let_def acquire_database_def acquire_metadata_def split: thread_splits)
next
  case (Reg pc a)
  show ?thesis
  proof (cases pc)
    case (Reg_client i)
    then show ?thesis using assms Reg
      by (cases i) (auto simp: Let_def split: thread_splits)
  qed (use assms Reg in \<open>auto simp: Let_def acquire_database_def split: thread_splits\<close>)
qed (use assms in \<open>auto simp: Let_def split: thread_splits\<close>)

lemma holder_exists:
  "how_many P ts = of_bool l \<Longrightarrow> l \<Longrightarrow> \<exists>i<length ts. P (ts ! i)"
  using how_many_zero [of P ts] by (auto simp: in_set_conv_nth)

lemma wants_client_holds_database: "wants_client t = Some c \<Longrightarrow> holds_database t"
  by (cases t rule: wants_client.cases) auto

lemma client_holder_wants:
  "holds_client c t \<Longrightarrow> \<not> wants_database t \<and> \<not> ended t \<and> (wants_client t \<noteq> None \<longrightarrow> (\<exists>b m. t = Txn Txn_receiver c b m))"
  by (cases "(c, t)" rule: holds_client.cases) auto

lemma world_progress:
  assumes ok: "world_ok (ts, s)" and stuck: "\<And>i. i < length ts \<Longrightarrow> thread_step (ts ! i) s = None"
  shows "list_all ended ts"
proof -
  have match: "locks_match ts s" and fit: "i < length ts \<Longrightarrow> fits (ts ! i) s" for i
    using ok by (auto simp: world_ok_def)
  have no_meta: "\<not> database_metadata_lock s"
  proof
    assume "database_metadata_lock s"
    then obtain i where i: "i < length ts" "holds_metadata (ts ! i)"
      using holder_exists [of holds_metadata ts "database_metadata_lock s"] match
      by (auto simp: locks_match_def)
    then show False using stuck [OF i(1)] by (cases "ts ! i" rule: holds_metadata.cases) auto
  qed
  note reason = stuck_reason [OF stuck fit no_meta]
  have no_client: "client_locks s c \<noteq> Some True" for c
  proof
    assume locked: "client_locks s c = Some True"
    have holder: "\<exists>i<length ts. holds_client c (ts ! i)" if "client_locks s c = Some True" for c
      using holder_exists [of "holds_client c" ts "client_locks s c = Some True"] match that
      by (simp add: locks_match_def)
    obtain i where i: "i < length ts" "holds_client c (ts ! i)" using holder [OF locked] by blast
    then obtain b m where b: "ts ! i = Txn Txn_receiver c b m" "client_locks s b = Some True"
      using reason [OF i(1) i(1)] client_holder_wants [OF i(2)] by auto
    obtain j where j: "j < length ts" "holds_client b (ts ! j)" using holder [OF b(2)] by blast
    then obtain b' m' where b': "ts ! j = Txn Txn_receiver b b' m'"
      using reason [OF j(1) j(1)] client_holder_wants [OF j(2)] by auto
    have "i = j"
      using one_holder [of holds_database ts "database_access_lock s" i j] i(1) j(1) b(1) b' match
      by (auto simp: locks_match_def)
    then show False using b(1) b' fit [OF i(1)] by simp
  qed
  have no_database: "\<not> database_access_lock s"
  proof
    assume "database_access_lock s"
    then obtain i where i: "i < length ts" "holds_database (ts ! i)"
      using holder_exists [of holds_database ts "database_access_lock s"] match
      by (auto simp: locks_match_def)
    have "\<not> wants_database (ts ! i)" "\<not> ended (ts ! i)"
      using i(2) by (cases "ts ! i" rule: holds_database.cases; simp)+
    then show False using reason [OF i(1) i(1)] no_client by blast
  qed
  show ?thesis
    using reason no_client no_database by (auto simp: list_all_iff in_set_conv_nth)
qed

lemma two_threads_run:
  "world_step\<^sup>*\<^sup>* ([t, u], s) ([fst (run_alone m t s), fst (run_alone k u (snd (run_alone m t s)))],
     snd (run_alone k u (snd (run_alone m t s))))"
proof -
  let ?t = "fst (run_alone m t s)" and ?s = "snd (run_alone m t s)"
  have "world_step\<^sup>*\<^sup>* ([t, u], s) ([?t, u], ?s)"
    "world_step\<^sup>*\<^sup>* ([?t, u], ?s) ([?t, fst (run_alone k u ?s)], snd (run_alone k u ?s))"
    using run_alone_world [of 0 "[t, u]" s m] run_alone_world [of 1 "[?t, u]" ?s k] by simp_all
  then show ?thesis by (rule rtranclp_trans)
qed

text \<open>Two opposite transfers, the first stopped after two steps, the second after one.\<close>

lemma crossing_start: "world_start ([Txn Txn_start 1 2 30, Txn Txn_start 2 1 40], two_clients)"
  by (simp add: world_start_def two_clients_ok)

lemma crossing_unfinished: "\<not> ended (fst (run_alone 2 (Txn Txn_start 1 2 30) two_clients))"
  using two_clients_ok by (simp add: step_defs numeral_2_eq_2 two_clients_records db_ok_def db_simps)

section \<open>Properties\<close>

text \<open>
  The thread steps are the operations: a thread that runs alone on an idle database ends
  with the response and the database of the corresponding operation, for transactions,
  registrations and removals.
\<close>

lemma threads_implement_operations:
  assumes "db_ok s"
  shows "run_alone 9 (Txn Txn_start a b amount) s =
      (Finished (fst (make_transaction a b amount s)), snd (make_transaction a b amount s)) \<and>
    run_alone 6 (Reg Reg_start a) s =
      (Finished (fst (register_client a s)), snd (register_client a s)) \<and>
    run_alone 7 (Rem Rem_start a c) s =
      (Finished (fst (remove_client a s)), snd (remove_client a s))"
  using assms by (intro conjI transaction_alone register_alone remove_alone)

text \<open>
  C11. The locking is sound. In every interleaving of requests, transactions and
  registrations, no two threads hold the same mutex, no thread ends with an exception, and a
  debit that is about to happen is covered by the balance.
\<close>

theorem interleavings_are_safe:
  assumes "world_start w" and "world_step\<^sup>*\<^sup>* w (ts, s)"
  shows "(\<forall>i<length ts. \<forall>j<i. \<not> (holds_database (ts ! i) \<and> holds_database (ts ! j)) \<and>
      (\<forall>a. \<not> (holds_client a (ts ! i) \<and> holds_client a (ts ! j)))) \<and>
    (\<forall>e. Finished (Inl e) \<notin> set ts) \<and>
    (\<forall>a b m. Txn Txn_debit a b m \<in> set ts \<longrightarrow>
      (\<exists>r. database_records s a = Some r \<and> m \<le> balance r))"
proof -
  have ok: "world_ok (ts, s)" using assms by (rule db_threads.inv_reachable)
  then have match: "locks_match ts s" and fit: "\<And>t. t \<in> set ts \<Longrightarrow> fits t s"
    by (auto simp: world_ok_def)
  have "\<not> (holds_database (ts ! i) \<and> holds_database (ts ! j))"
    "\<not> (holds_client a (ts ! i) \<and> holds_client a (ts ! j))" if "i < length ts" "j < i" for i j a
    using that match
      one_holder [of holds_database ts "database_access_lock s" i j]
      one_holder [of "holds_client a" ts "client_locks s a = Some True" i j]
    by (auto simp: locks_match_def)
  moreover have "Finished (Inl e) \<notin> set ts" for e using fit by fastforce
  moreover have "\<exists>r. database_records s a = Some r \<and> m \<le> balance r"
    if "Txn Txn_debit a b m \<in> set ts" for a b m
    using fit [OF that] by simp
  ultimately show ?thesis by blast
qed

theorem interleavings_are_safe_witness:
  "let (t, s) = run_alone 2 (Txn Txn_start 1 2 30) two_clients; u = fst (run_alone 1 (Txn Txn_start 2 1 40) s)
   in \<not> (holds_database t \<and> holds_database u) \<and> \<not> (holds_client 1 t \<and> holds_client 1 u) \<and>
     (\<forall>e. Finished (Inl e) \<notin> {t, u})"
proof -
  note safe = interleavings_are_safe [OF crossing_start two_threads_run [of _ _ _ 2 1]]
  show ?thesis using safe by (force simp: split_beta)
qed

text \<open>
  No interleaving of transactions creates or loses money: as long as all of it fits in 64
  bits, the balances and the amounts between debit and credit add up to the initial balances
  in every reachable world, and to the balances alone once all threads have ended.
\<close>

lemma interleaved_transactions_conserve_money:
  assumes "world_start (ts0, s0)" and "list_all moves_money_only ts0" and "money s0 < 2 ^ 64"
    and "world_step\<^sup>*\<^sup>* (ts0, s0) (ts, s)"
  shows "money s + sum_list (map in_flight ts) = money s0 \<and>
    (list_all ended ts \<longrightarrow> money s = money s0)"
proof -
  have fresh_none: "fresh t \<Longrightarrow> in_flight t = 0" for t by (cases t rule: fresh.cases) auto
  have ended_none: "ended t \<Longrightarrow> in_flight t = 0" for t by (cases t) auto
  have sum: "\<forall>t\<in>set us. in_flight t = 0 \<Longrightarrow> sum_list (map in_flight us) = 0" for us
    by (induction us) auto
  have start: "world_money (ts0, s0) = money s0"
    using assms(1) fresh_none sum [of ts0] by (simp add: world_money_def world_start_def list_all_iff)
  have "world_money (ts, s) = money s0"
    using world_money_steps [OF assms(4) world_ok_start [OF assms(1)]] assms(2,3) start by simp
  then have all: "money s + sum_list (map in_flight ts) = money s0" by (simp add: world_money_def)
  have "money s = money s0" if "list_all ended ts"
  proof -
    have "sum_list (map in_flight ts) = 0"
      using that ended_none by (intro sum) (simp add: list_all_iff)
    then show ?thesis using all by linarith
  qed
  with all show ?thesis by blast
qed

text \<open>
  Without removals there is no deadlock: in every reachable world of requests,
  transactions and registrations some thread can step, until all threads have ended.
\<close>

lemma no_deadlock_without_removal:
  assumes "world_start w" and "world_step\<^sup>*\<^sup>* w (ts, s)" and "\<not> list_all ended ts"
  shows "\<exists>w'. world_step (ts, s) w'"
proof (rule ccontr)
  assume none: "\<not> (\<exists>w'. world_step (ts, s) w')"
  have "thread_step (ts ! i) s = None" if "i < length ts" for i
  proof (cases "thread_step (ts ! i) s")
    case (Some p)
    then obtain t s' where "thread_step (ts ! i) s = Some (t, s')" by (cases p) simp
    then show ?thesis using none that world_step.step by blast
  qed
  then show False
    using world_progress [OF db_threads.inv_reachable [OF assms(1,2)]] assms(3) by blast
qed

text \<open>
  C23. With a removal there is one: the removal of a client and a transaction of the same
  client can reach a world in which neither has ended and no step is possible, the removal
  holding the client's mutex and waiting for the database's, the transaction the reverse.
\<close>

theorem removal_can_deadlock:
  assumes "db_ok s" and "database_records s a = Some r"
  shows "\<exists>s'. world_step\<^sup>*\<^sup>* ([Rem Rem_start a c, Txn Txn_start a b amount], s)
      ([Rem Rem_database a r, Txn Txn_sender a b amount], s') \<and>
    (\<nexists>w'. world_step ([Rem Rem_database a r, Txn Txn_sender a b amount], s') w')"
proof -
  let ?s1 = "s\<lparr>client_locks := (client_locks s)(a \<mapsto> True), database_records := (database_records s)(a := None)\<rparr>"
  let ?s2 = "?s1\<lparr>database_access_lock := True\<rparr>"
  have idle: "client_locks s a = Some False" "\<not> database_access_lock s"
    using assms by (simp_all add: db_ok_def db_simps)
  have "run_alone 3 (Rem Rem_start a c) s = (Rem Rem_database a r, ?s1)"
    using idle assms by (simp add: eval_nat_numeral step_defs)
  then have "world_step\<^sup>*\<^sup>* ([Rem Rem_start a c, Txn Txn_start a b amount], s)
      ([Rem Rem_database a r, Txn Txn_start a b amount], ?s1)"
    using run_alone_world [of 0 "[Rem Rem_start a c, Txn Txn_start a b amount]" s 3] by simp
  moreover have "run_alone 1 (Txn Txn_start a b amount) ?s1 = (Txn Txn_sender a b amount, ?s2)"
    using idle by (simp add: step_defs)
  then have "world_step\<^sup>*\<^sup>* ([Rem Rem_database a r, Txn Txn_start a b amount], ?s1)
      ([Rem Rem_database a r, Txn Txn_sender a b amount], ?s2)"
    using run_alone_world [of 1 "[Rem Rem_database a r, Txn Txn_start a b amount]" ?s1 1] by simp
  moreover have "\<nexists>w'. world_step ([Rem Rem_database a r, Txn Txn_sender a b amount], ?s2) w'"
    by (auto elim!: world_step_elim simp: less_Suc_eq acquire_database_def acquire_client_def)
  ultimately show ?thesis by (blast intro: rtranclp_trans)
qed

theorem removal_can_deadlock_witness:
  "\<exists>r s'. \<nexists>w'. world_step ([Rem Rem_database 1 r, Txn Txn_sender 1 2 30], s') w'"
  using removal_can_deadlock [OF two_clients_ok, of 1 "\<lparr>ip = 1, balance = 100000, last_request = 0\<rparr>" no_record 2 30]
  by (auto simp: two_clients_records)

text \<open>
  C30. The handler's check is not part of the transaction: when two handler threads get the
  same request packet, both can pass the check before either transaction runs, and the
  transfer is executed twice.
\<close>

theorem duplicate_packet_race:
  assumes "db_ok s" and "database_records s a = Some r" and "database_records s b = Some q"
    and "a \<noteq> b" and "amount \<noteq> 0" and "amount \<le> balance r" and "amount \<le> balance r - amount"
  shows "\<exists>p r1 r2. world_step\<^sup>*\<^sup>* ([Handle a p, Handle a p], s)
      ([Finished (Inr r1), Finished (Inr r2)],
       snd (make_transaction a b amount (snd (make_transaction a b amount s)))) \<and>
    status_code r1 = SUCCESS \<and> status_code r2 = SUCCESS"
proof -
  let ?p = "REQ_Packet (ucast (last_request r + 1)) b amount"
  let ?t = "Txn Txn_start a b amount"
  let ?make = "make_transaction a b amount"
  let ?s1 = "snd (?make s)"
  obtain s1 where settle1: "settle a b amount s = (Inr (respond True (debited amount r) SUCCESS), s1)"
      "database_records s1 a = Some (debited amount r)" "database_records s1 b = Some (credited amount q)"
    by (rule settle_covered [OF assms(2-6)]) blast
  obtain s2 where settle2: "settle a b amount s1 =
      (Inr (respond True (debited amount (debited amount r)) SUCCESS), s2)"
    using settle_covered [OF settle1(2,3) assms(4,5)] assms(7) by auto
  have make1: "?make s = (Inr (respond True (debited amount r) SUCCESS), s1)"
    using assms(1) settle1(1) by (simp add: make_transaction_settle db_ok_def)
  have ok1: "db_ok s1" using db_ok_transaction [OF assms(1), of a b amount] make1 by simp
  then have make2: "?make s1 = (Inr (respond True (debited amount (debited amount r)) SUCCESS), s2)"
    using settle2 by (simp add: make_transaction_settle db_ok_def)
  have "check_packet_status ?p (known_record a s) = VALID"
    using assms(2) by (simp add: check_valid_iff REQ_Packet_def ucast_32_64_32)
  then have check: "run_alone 1 (Handle a ?p) s = (?t, s)"
    by (simp add: REQ_Packet_def)
  let ?f1 = "Finished (Inr (respond True (debited amount r) SUCCESS))"
  have "world_step\<^sup>*\<^sup>* ([Handle a ?p, Handle a ?p], s) ([?t, Handle a ?p], s)"
    using run_alone_world [of 0 "[Handle a ?p, Handle a ?p]" s 1] check by simp
  also have "world_step\<^sup>*\<^sup>* ([?t, Handle a ?p], s) ([?t, ?t], s)"
    using run_alone_world [of 1 "[?t, Handle a ?p]" s 1] check by simp
  also have "world_step\<^sup>*\<^sup>* ([?t, ?t], s) ([?f1, ?t], s1)"
    using run_alone_world [of 0 "[?t, ?t]" s 9] transaction_alone [OF assms(1), of a b amount] make1
    by simp
  also have "world_step\<^sup>*\<^sup>* ([?f1, ?t], s1)
      ([?f1, Finished (Inr (respond True (debited amount (debited amount r)) SUCCESS))], s2)"
    using run_alone_world [of 1 "[?f1, ?t]" s1 9] transaction_alone [OF ok1, of a b amount] make2
    by simp
  finally show ?thesis using make1 make2 by fastforce
qed

theorem duplicate_packet_race_witness:
  "\<exists>p r1 r2. world_step\<^sup>*\<^sup>* ([Handle 1 p, Handle 1 p], two_clients)
      ([Finished (Inr r1), Finished (Inr r2)],
       snd (make_transaction 1 2 30 (snd (make_transaction 1 2 30 two_clients)))) \<and>
    status_code r1 = SUCCESS \<and> status_code r2 = SUCCESS"
  using duplicate_packet_race [OF two_clients_ok, of 1 "\<lparr>ip = 1, balance = 100000, last_request = 0\<rparr>" 2
      "\<lparr>ip = 2, balance = 100000, last_request = 0\<rparr>" 30]
  by (simp add: two_clients_records)

end
