(* ===== verification/Server_Threads.thy ===== *)
theory Server_Threads
  imports Request_Handlers
begin

text \<open>
  The server's receive loops, one iteration each: the packet multiplexer
  (\<open>packet_multiplexer.cpp\<close>), the discovery service (\<open>server_discovery_service.cpp\<close>) and the
  replica's listener (\<open>db_synchronizer.cpp\<close>), with the broadcast they share. A datagram that
  makes a thread throw ends the process, since nothing catches the exception.
\<close>

section \<open>packet_multiplexer.cpp\<close>

definition MAX_PACKET_SIZE :: nat where
  "MAX_PACKET_SIZE = 2048"

text \<open>
  What the multiplexer does with one datagram: start a handler thread, drop the packet (a
  REQ that does not parse, or an unexpected type), or end with an exception: the parse of a
  KIL packet stands outside any \<open>try\<close>.
\<close>

datatype dispatch = Start client_message | Dropped | Uncaught cpp_error

definition multiplex :: "sockaddr_in \<Rightarrow> string \<Rightarrow> dispatch" where
  "multiplex cliaddr payload =
     (let str_packet = buffer_text MAX_PACKET_SIZE payload
      in case string_packet_type str_packet of
           REQ \<Rightarrow> (case to_REQ_Packet str_packet of
                    Inl e \<Rightarrow> Dropped
                  | Inr p \<Rightarrow> Start (Req_message cliaddr p))
         | KIL \<Rightarrow> (case to_KIL_Packet str_packet of
                    Inl e \<Rightarrow> Uncaught e
                  | Inr p \<Rightarrow> Start (Kil_message cliaddr p))
         | _ \<Rightarrow> Dropped)"

text \<open>
  The multiplexer with its handler run to the end before the next datagram. How handler
  threads overlap is not decided here.
\<close>

definition serve_datagram :: "sockaddr_in \<Rightarrow> string \<Rightarrow> db_manager \<Rightarrow> handler_outcome" where
  "serve_datagram cliaddr payload s =
     (case multiplex cliaddr payload of
        Start m \<Rightarrow> handle_message m s
      | Dropped \<Rightarrow> (Inr [], s)
      | Uncaught e \<Rightarrow> (Inl e, s))"

section \<open>server_discovery_service.cpp\<close>

text \<open>
  The reply is prepared once: \<open>LOC <ip> <port> END\<close>. Any datagram counts as a discovery
  request; only the coordinator answers, registers the sender and broadcasts.
\<close>

definition discovery_reply :: "string \<Rightarrow> i32 \<Rightarrow> string" where
  "discovery_reply requests_server_ip requests_server_port =
     ''LOC '' @ requests_server_ip @ '' '' @ show_int (sint requests_server_port) @ '' END''"

definition discovery_step ::
  "string \<Rightarrow> bool \<Rightarrow> sockaddr_in \<Rightarrow> string \<Rightarrow> db_manager \<Rightarrow> handler_outcome" where
  "discovery_step reply is_coordinator cliaddr payload s =
     (if \<not> is_coordinator then (Inr [], s)
      else case register_client (sin_addr cliaddr) s of
             (Inl e, s') \<Rightarrow> (Inl e, s')
           | (Inr _, s') \<Rightarrow>
               (let snapshot = get_db_snapshot s'
                in (Inr [Reply cliaddr reply, Broadcast_update snapshot], s')))"

text \<open>\<open>start_server\<close>: the requests port is the one after the discovery port.\<close>

definition greeter_reply :: "string \<Rightarrow> i32 \<Rightarrow> string" where
  "greeter_reply self_ip port = discovery_reply self_ip (port + 1)"

section \<open>db_synchronizer.cpp\<close>

definition MAXLINE :: nat where
  "MAXLINE = 1024"

text \<open>The text one broadcast puts on the wire, for the table's iteration order \<open>es\<close>.\<close>

definition broadcast_update :: "entries \<Rightarrow> db_snapshot \<Rightarrow> string" where
  "broadcast_update es snapshot = db_snapshot_to_string es snapshot"

definition listen_step ::
  "string \<Rightarrow> received \<Rightarrow> db_manager \<Rightarrow> (cpp_error + unit) \<times> db_manager" where
  "listen_step self_ip ev s =
     (case ev of
        Nothing_received \<Rightarrow> (Inr (), s)
      | Datagram src payload \<Rightarrow>
          if addr_to_string (sin_addr src) = self_ip then (Inr (), s)
          else case db_snapshot_from_string (buffer_text MAXLINE payload) of
                 Inl e \<Rightarrow> (Inl e, s)
               | Inr snapshot \<Rightarrow> (Inr (), load_snapshot snapshot s))"

text \<open>
  The synchronizer object: \<open>setup\<close> keeps the instance of its first call in a local static
  variable, and \<open>get_instance\<close> always goes through \<open>setup\<close>, since the member it tests is
  never assigned. The state is the port of the instance, once there is one.
\<close>

definition sync_setup :: "i32 \<Rightarrow> i32 option \<Rightarrow> i32 \<times> i32 option" where
  "sync_setup port inst = (case inst of None \<Rightarrow> (port + 3, Some (port + 3)) | Some p \<Rightarrow> (p, Some p))"

definition sync_get_instance :: "i32 option \<Rightarrow> i32 \<times> i32 option" where
  "sync_get_instance inst = sync_setup 9999 inst"

section \<open>Text sizes\<close>

lemma length_record: "14 \<le> length (record_to_string r)" "length (record_to_string r) \<le> 50"
  using length_inet_ntop [of "ip r"] length_show_u64 [of "balance r"] length_show_u32 [of "last_request r"]
    length_show_nat_pos [of "unat (balance r)"] length_show_nat_pos [of "unat (last_request r)"]
  by (simp_all add: record_to_string_def addr_to_string_def del: length_greater_0_conv)

lemma length_records:
  "14 * length es \<le> length (concat (map (\<lambda>(_, r). record_to_string r) es))"
  "length (concat (map (\<lambda>(_, r). record_to_string r) es)) \<le> 50 * length es"
proof (induction es)
  case (Cons e es)
  obtain a r where "e = (a, r)" by force
  then show "14 * length (e # es) \<le> length (concat (map (\<lambda>(_, r). record_to_string r) (e # es)))"
    "length (concat (map (\<lambda>(_, r). record_to_string r) (e # es))) \<le> 50 * length (e # es)"
    using Cons length_record [of r] by auto
qed simp_all

lemma length_snapshot:
  "14 * length es + 8 \<le> length (db_snapshot_to_string es snap)"
  "length (db_snapshot_to_string es snap) \<le> 50 * length es + 37"
  using length_records [of es] length_show_i32 [of "num_transactions (metadata snap)"]
    length_show_i32 [of "total_balance (metadata snap)"]
    length_show_u32 [of "total_transferred (metadata snap)"]
    length_show_int_pos [of "sint (num_transactions (metadata snap))"]
    length_show_int_pos [of "sint (total_balance (metadata snap))"]
    length_show_nat_pos [of "unat (total_transferred (metadata snap))"]
  by (simp_all add: db_snapshot_to_string_def del: length_greater_0_conv)

lemma no_nul_snapshot: "no_nul (db_snapshot_to_string es snap)"
proof -
  have "no_nul (concat (map (\<lambda>(_, r). record_to_string r) es))"
    by (induction es) (auto simp: record_to_string_def addr_to_string_def)
  then show ?thesis by (simp add: db_snapshot_to_string_def)
qed

text \<open>
  The text of 72 clients has 1016 characters at least, and the address of the next one has
  seven: in the 1024 bytes of the buffer nothing of its balance can follow.
\<close>

lemma record_start_tokens:
  assumes "k \<le> 8"
  shows "length (tokens (take k (record_to_string r @ s))) \<le> 1"
proof -
  have word: "no_space (inet_ntop (ip r))" by (simp add: text_simps)
  have "take k (record_to_string r @ s) = take k (inet_ntop (ip r) @ '' '')"
    using assms length_inet_ntop(1) [of "ip r"]
    by (simp add: record_to_string_def addr_to_string_def take_Cons')
  then show ?thesis
    using tokens_take_length [of k "inet_ntop (ip r) @ '' ''"] word by (simp add: tokens_word tokens_Nil)
qed

lemma snapshot_prefix_tokens: "length (tokens (take MAXLINE (db_snapshot_to_string es snap))) \<le> 293"
proof (cases "72 < length es")
  case False
  then show ?thesis
    using tokens_take_length [of MAXLINE "db_snapshot_to_string es snap"] length_tokens_snapshot [of es snap]
    by simp
next
  case True
  obtain a r rest where rest: "drop 72 es = (a, r) # rest"
    using True by (metis Cons_nth_drop_Suc surj_pair)
  let ?pre = "db_snapshot_to_string (take 72 es) snap"
  let ?post = "record_to_string r @ concat (map (\<lambda>(_, r). record_to_string r) rest)"
  have split: "db_snapshot_to_string es snap = ?pre @ ?post"
    using snapshot_text_append [of "take 72 es" "(a, r) # rest" snap] rest append_take_drop_id [of 72 es]
    by simp
  have pre: "1016 \<le> length ?pre" "length (tokens ?pre) = 292"
    using length_snapshot(1) [of "take 72 es" snap] length_tokens_snapshot [of "take 72 es" snap] True by simp_all
  show ?thesis
  proof (cases "MAXLINE \<le> length ?pre")
    case True
    then show ?thesis using split pre(2) tokens_take_length [of MAXLINE ?pre] by simp
  next
    case False
    then have "take MAXLINE (db_snapshot_to_string es snap) = ?pre @ take (MAXLINE - length ?pre) ?post"
      using split by simp
    then show ?thesis
      using record_start_tokens [of "MAXLINE - length ?pre" r] pre
      by (simp add: tokens_snapshot_append MAXLINE_def)
  qed
qed

lemma truncated_snapshot_records:
  assumes "db_snapshot_from_string (buffer_text MAXLINE (broadcast_update es snap)) = Inr snap'"
  shows "card (dom (records snap')) \<le> 72"
proof -
  let ?ts = "tokens (take MAXLINE (db_snapshot_to_string es snap))"
  have "no_nul (take MAXLINE (db_snapshot_to_string es snap))"
    using no_nul_snapshot [of es snap] by (auto simp: no_nul_def list_all_iff dest: in_set_takeD)
  then have "buffer_text MAXLINE (broadcast_update es snap) = take MAXLINE (db_snapshot_to_string es snap)"
    by (simp add: buffer_text_def broadcast_update_def c_str_no_nul no_nul_def)
  then have "parse_records (drop 4 ?ts) Map.empty = Inr (records snap')"
    using assms by (auto simp: db_snapshot_from_string_def Let_def split: sum.splits)
  from parse_records_card [OF this] show ?thesis using snapshot_prefix_tokens [of es snap] by simp
qed

lemma length_REQ: "length (REQ_Packet_to_string p) \<le> 2048"
  using length_show_i64 [of "seq_num p"] length_inet_ntop [of "receiver_ip p"]
    length_show_u64 [of "transfer_amount p"]
  by (simp add: REQ_Packet_to_string_def)

lemma multiplex_REQ:
  "multiplex cliaddr (REQ_Packet_to_string (REQ_Packet seq b amount)) =
     Start (Req_message cliaddr (REQ_Packet seq b amount))"
proof -
  let ?t = "REQ_Packet_to_string (REQ_Packet seq b amount)"
  have "no_nul ?t" by (simp add: REQ_Packet_to_string_def)
  then have "buffer_text MAX_PACKET_SIZE ?t = ?t"
    using length_REQ by (simp add: buffer_text_id MAX_PACKET_SIZE_def)
  moreover have "to_REQ_Packet ?t = Inr (REQ_Packet seq b amount)"
    by (rule req_wire.decode_encode) (simp add: req_encodable_def REQ_Packet_def)
  ultimately show ?thesis by (simp add: multiplex_def text_simps)
qed

lemma discovery_step_idle: "discovery_step reply False addr payload s = (Inr [], s)"
  by (simp add: discovery_step_def)

lemma discovery_step_answers:
  assumes "db_ok s"
  shows "\<exists>s'. discovery_step reply True addr payload s =
      (Inr [Reply addr reply, Broadcast_update (get_db_snapshot s')], s') \<and>
    db_ok s' \<and> ledger_of s' = ledger_open (sin_addr addr) (ledger_of s) \<and>
    (database_records s (sin_addr addr) \<noteq> None \<longrightarrow> s' = s)"
proof -
  let ?a = "sin_addr addr"
  obtain r where r: "fst (register_client ?a s) = Inr r"
    using apply_op_returns [OF assms, of "Register ?a"] by auto
  have known: "database_records s ?a \<noteq> None \<longrightarrow> snd (register_client ?a s) = s"
    using assms by (simp add: db_ok_def register_client_known)
  have "discovery_step reply True addr payload s =
      (Inr [Reply addr reply, Broadcast_update (get_db_snapshot (snd (register_client ?a s)))],
       snd (register_client ?a s))"
    using r by (cases "register_client ?a s") (simp add: discovery_step_def Let_def)
  then show ?thesis
    using known db_ok_register [OF assms] ledger_register [OF assms, of ?a]
    by (auto simp: discovery_step_def)
qed

lemma update_read:
  assumes "db_ok p" and "enumerates es (database_records p)" and "length es \<le> 19"
  shows "db_snapshot_from_string (buffer_text MAXLINE (broadcast_update es (get_db_snapshot p))) =
    (if snapshot_fits (get_db_snapshot p) then Inr (get_db_snapshot p) else Inl Out_of_range)"
proof -
  let ?t = "db_snapshot_to_string es (get_db_snapshot p)"
  have "buffer_text MAXLINE ?t = ?t"
    using length_snapshot(2) [of es "get_db_snapshot p"] assms(3)
    by (intro buffer_text_id no_nul_snapshot) (simp add: MAXLINE_def)
  moreover have "snapshot_filed (get_db_snapshot p)"
    using assms(1) by (simp add: db_ok_def snapshot_filed_get)
  ultimately show ?thesis
    using snapshot_read_back [of es "get_db_snapshot p"] assms(2)
    by (simp add: broadcast_update_def get_db_snapshot_def)
qed

lemma listen_loads:
  assumes "db_ok p" and "db_idle s" and "enumerates es (database_records p)" and "length es \<le> 19"
    and "addr_to_string (sin_addr src) \<noteq> self_ip"
  shows "\<exists>s'. listen_step self_ip (Datagram src (broadcast_update es (get_db_snapshot p))) s =
      (if snapshot_fits (get_db_snapshot p) then (Inr (), s') else (Inl Out_of_range, s)) \<and>
    get_db_snapshot s' = get_db_snapshot p \<and> db_ok s'"
proof -
  let ?s' = "load_snapshot (get_db_snapshot p) s"
  have "get_db_snapshot ?s' = get_db_snapshot p"
    by (simp add: load_snapshot_def get_db_snapshot_def get_db_metadata_def)
  then show ?thesis
    using assms(5) load_snapshot_ok [OF assms(1,2)] update_read [OF assms(1,3,4)]
    by (intro exI [of _ ?s']) (simp add: listen_step_def)
qed

lemma multiplex_uncaught_iff:
  "(\<exists>e. multiplex cliaddr payload = Uncaught e) \<longleftrightarrow>
     take 3 (buffer_text 2048 payload) = ''KIL'' \<and>
     tokens (buffer_text 2048 payload) \<noteq> [''KIL'', ''END'']"
proof -
  let ?t = "buffer_text 2048 payload"
  have "length ts \<noteq> 2 \<or> ts ! 0 \<noteq> ''KIL'' \<or> ts ! 1 \<noteq> ''END'' \<longleftrightarrow> ts \<noteq> [''KIL'', ''END'']" for ts
    by (auto simp: numeral_2_eq_2 length_Suc_conv)
  then have "(\<exists>e. to_KIL_Packet ?t = Inl e) \<longleftrightarrow> tokens ?t \<noteq> [''KIL'', ''END'']"
    by (simp add: to_KIL_Packet_def Let_def)
  moreover have "string_packet_type ?t = KIL \<longleftrightarrow> take 3 ?t = ''KIL''"
    by (auto simp: string_packet_type_def)
  ultimately show ?thesis
    by (auto simp: multiplex_def MAX_PACKET_SIZE_def Let_def split: packet_type.split sum.split)
qed

section \<open>Properties\<close>

text \<open>
  What the client prints for a request reaches the handler: the multiplexer starts
  the request handler with exactly the packet the client built and the sender's address.
\<close>

lemma request_reaches_handler:
  "multiplex cliaddr (REQ_Packet_to_string (REQ_Packet seq b amount)) =
     Start (Req_message cliaddr (REQ_Packet seq b amount))"
  by (rule multiplex_REQ)

text \<open>
  A client can stop the server: the multiplexer ends with an uncaught exception exactly
  for the datagrams that start with KIL and are not the two words KIL END.
\<close>

lemma malformed_kil_uncaught:
  "(\<exists>e. multiplex cliaddr payload = Uncaught e) \<longleftrightarrow>
     take 3 (buffer_text 2048 payload) = ''KIL'' \<and>
     tokens (buffer_text 2048 payload) \<noteq> [''KIL'', ''END'']"
  by (rule multiplex_uncaught_iff)

text \<open>
  C12. Replication over the wire. When the coordinator broadcasts a database of at most 19
  clients, a replica that receives the datagram from another host ends up with exactly the
  coordinator's accounts and counters, for every iteration order of the table, if all
  request counters and the transferred total are below \<open>2\<^sup>3\<^sup>1\<close>; otherwise its listener ends
  with an uncaught \<open>out_of_range\<close>.
\<close>

theorem replication_over_the_wire:
  assumes "db_ok p" and "db_idle s" and "enumerates es (database_records p)" and "length es \<le> 19"
    and "addr_to_string (sin_addr src) \<noteq> self_ip"
  shows "\<exists>s'. listen_step self_ip (Datagram src (broadcast_update es (get_db_snapshot p))) s =
      (if snapshot_fits (get_db_snapshot p) then (Inr (), s') else (Inl Out_of_range, s)) \<and>
    get_db_snapshot s' = get_db_snapshot p \<and> db_ok s'"
  using assms by (rule listen_loads)

theorem replication_over_the_wire_witness:
  "\<exists>s'. listen_step ''10.0.0.3'' (Datagram \<lparr>sin_port = 0, sin_addr = 1\<rparr>
        (broadcast_update [(1, \<lparr>ip = 1, balance = 100000, last_request = 0\<rparr>),
                           (2, \<lparr>ip = 2, balance = 100000, last_request = 0\<rparr>)]
          (get_db_snapshot two_clients))) DbManager =
      (if snapshot_fits (get_db_snapshot two_clients) then (Inr (), s')
       else (Inl Out_of_range, DbManager)) \<and>
    get_db_snapshot s' = get_db_snapshot two_clients \<and> db_ok s'"
proof (rule replication_over_the_wire)
  show "db_ok two_clients" by (rule two_clients_ok)
  show "db_idle DbManager" using db_ok_initial by (simp add: db_ok_def)
  show "enumerates [(1, \<lparr>ip = 1, balance = 100000, last_request = 0\<rparr>),
      (2, \<lparr>ip = 2, balance = 100000, last_request = 0\<rparr>)] (database_records two_clients)"
    by (auto simp: enumerates_def two_clients_records)
  show "addr_to_string (sin_addr \<lparr>sin_port = 0, sin_addr = 1\<rparr>) \<noteq> ''10.0.0.3''"
    by (simp add: addr_to_string_def inet_ntop_def show_nat.simps [of "Suc 0"])
qed simp

text \<open>
  C39. The replica's buffer is too small for many clients. However many accounts the
  coordinator broadcasts, a replica that loads the broadcast has 72 of them at most; or reading
  the cut text fails, by an exception or past the last token, and nothing is loaded.
\<close>

theorem replica_holds_at_most_72:
  assumes "addr_to_string (sin_addr src) \<noteq> self_ip"
  shows "case listen_step self_ip (Datagram src (broadcast_update es snap)) s of
    (Inl e, s') \<Rightarrow> s' = s | (Inr _, s') \<Rightarrow> card (dom (database_records s')) \<le> 72"
proof (cases "db_snapshot_from_string (buffer_text MAXLINE (broadcast_update es snap))")
  case (Inr snap')
  then have "card (dom (records snap')) \<le> 72" by (rule truncated_snapshot_records)
  then show ?thesis using Inr assms by (simp add: listen_step_def load_snapshot_def)
qed (use assms in \<open>simp add: listen_step_def\<close>)

theorem replica_holds_at_most_72_witness:
  "case listen_step ''10.0.0.3'' (Datagram \<lparr>sin_port = 0, sin_addr = 1\<rparr>
        (broadcast_update (map (\<lambda>n. (of_nat n, \<lparr>ip = of_nat n, balance = 5, last_request = 0\<rparr>)) [0..<73])
          (get_db_snapshot two_clients))) DbManager of
    (Inl e, s') \<Rightarrow> s' = DbManager | (Inr _, s') \<Rightarrow> card (dom (database_records s')) \<le> 72"
  by (rule replica_holds_at_most_72)
    (simp add: addr_to_string_def inet_ntop_def show_nat.simps [of "Suc 0"])

text \<open>
  Discovery: only the coordinator answers; it registers the sender, replies first and
  then broadcasts the database with the sender in it. A client that is already registered
  keeps its account as it is. The text of the datagram plays no part.
\<close>

lemma discovery_registers:
  assumes "db_ok s"
  shows "discovery_step reply False addr payload s = (Inr [], s) \<and>
    (\<exists>s'. discovery_step reply True addr payload s =
        (Inr [Reply addr reply, Broadcast_update (get_db_snapshot s')], s') \<and>
      db_ok s' \<and> ledger_of s' = ledger_open (sin_addr addr) (ledger_of s) \<and>
      (database_records s (sin_addr addr) \<noteq> None \<longrightarrow> s' = s))"
  using discovery_step_idle discovery_step_answers [OF assms] by blast

end
