(* ===== verification/Server_Workers.thy ===== *)
theory Server_Workers
  imports Db_Interleavings Server_Threads
begin

text \<open>
  Whole handler threads under concurrency. A worker serves one packet: it checks a request,
  runs the database operation as a thread of \<open>Db_Locking\<close>, and then copies the database,
  broadcasts the copy and replies, in the order of its handler. \<open>get_db_snapshot\<close> takes no
  mutex: the counters and the records are copied one by one, and other workers may step in
  between. What the hash table does when it grows during a copy is not modelled. The worlds
  of workers project to the worlds of \<open>Db_Interleavings\<close>; on its own a worker does what its
  handler does; together they answer every packet, but what they broadcast need not be a
  database that ever existed.
\<close>

section \<open>Workers\<close>

text \<open>
  What a worker serves: a request that passed the check, a discovery message with the
  prepared reply, or the closing of an account.
\<close>

datatype job =
    Request sockaddr_in req_packet
  | Greeting sockaddr_in string
  | Closing sockaddr_in kil_packet

text \<open>What is left to do after the database operation.\<close>

datatype action = Copy_metadata | Copy_records | Copy_record in_addr | Broadcast | Answer sockaddr_in string

datatype worker =
    Check sockaddr_in req_packet
  | Working job thread
  | Finishing thread "action list" db_snapshot
  | Crashed cpp_error

definition blank_snapshot :: db_snapshot where
  "blank_snapshot = \<lparr>metadata = \<lparr>num_transactions = 0, total_transferred = 0, total_balance = 0\<rparr>,
     records = Map.empty\<rparr>"

fun first_thread :: "job \<Rightarrow> thread" where
  "first_thread (Request addr p) = Txn Txn_start (sin_addr addr) (receiver_ip p) (transfer_amount p)"
| "first_thread (Greeting addr text) = Reg Reg_start (sin_addr addr)"
| "first_thread (Closing addr p) = Rem Rem_start (sin_addr addr) no_record"

fun after_database :: "job \<Rightarrow> db_record_response \<Rightarrow> action list" where
  "after_database (Request addr p) res =
     (let ack = transaction_reply (sin_addr addr) p res
      in (if result ack = ''SUCCESS'' then [Copy_metadata, Copy_records, Broadcast] else []) @
         [Answer addr (ACK_Packet_to_string ack)])"
| "after_database (Greeting addr text) res = [Copy_metadata, Copy_records, Answer addr text, Broadcast]"
| "after_database (Closing addr p) res =
     [Answer addr (ACK_Packet_to_string (kill_reply (sin_addr addr) p res))] @
     (if status_code res = SUCCESS then [Copy_metadata, Copy_records, Broadcast] else [])"

text \<open>
  One action. The copy of the records visits the keys the table has when it begins, in the
  iteration order \<open>order\<close>.
\<close>

fun action_step ::
  "((in_addr \<rightharpoonup> client_record) \<Rightarrow> in_addr list) \<Rightarrow> action \<Rightarrow> action list \<Rightarrow> db_snapshot \<Rightarrow> db_manager \<Rightarrow>
   server_output list \<Rightarrow> action list \<times> db_snapshot \<times> server_output list" where
  "action_step order Copy_metadata acts snap s outs = (acts, snap\<lparr>metadata := get_db_metadata s\<rparr>, outs)"
| "action_step order Copy_records acts snap s outs =
     (map Copy_record (order (database_records s)) @ acts, snap, outs)"
| "action_step order (Copy_record a) acts snap s outs =
     (acts, snap\<lparr>records := (records snap)(a := database_records s a)\<rparr>, outs)"
| "action_step order Broadcast acts snap s outs = (acts, snap, outs @ [Broadcast_update snap])"
| "action_step order (Answer addr text) acts snap s outs = (acts, snap, outs @ [Reply addr text])"

fun worker_step ::
  "((in_addr \<rightharpoonup> client_record) \<Rightarrow> in_addr list) \<Rightarrow> worker \<Rightarrow> db_manager \<Rightarrow> server_output list \<Rightarrow>
   (worker \<times> db_manager \<times> server_output list) option" where
  "worker_step order (Check addr p) s outs =
     (let client = known_record (sin_addr addr) s; status = check_packet_status p client
      in Some (if status = VALID then Working (Request addr p) (first_thread (Request addr p))
               else Finishing (Refused status)
                 [Answer addr (ACK_Packet_to_string (refusal (sin_addr addr) p client))] blank_snapshot,
               s, outs))"
| "worker_step order (Working job (Finished (Inl e))) s outs = Some (Crashed e, s, outs)"
| "worker_step order (Working job (Finished (Inr res))) s outs =
     Some (Finishing (Finished (Inr res)) (after_database job res) blank_snapshot, s, outs)"
| "worker_step order (Working job t) s outs =
     (case thread_step t s of None \<Rightarrow> None | Some (t', s') \<Rightarrow> Some (Working job t', s', outs))"
| "worker_step order (Finishing t [] snap) s outs = None"
| "worker_step order (Finishing t (act # acts) snap) s outs =
     (let (acts', snap', outs') = action_step order act acts snap s outs
      in Some (Finishing t acts' snap', s, outs'))"
| "worker_step order (Crashed e) s outs = None"

type_synonym workers = "worker list \<times> db_manager \<times> server_output list"

inductive workers_step ::
  "((in_addr \<rightharpoonup> client_record) \<Rightarrow> in_addr list) \<Rightarrow> workers \<Rightarrow> workers \<Rightarrow> bool" for order where
  step: "i < length ws \<Longrightarrow> worker_step order (ws ! i) s outs = Some (w, s', outs') \<Longrightarrow>
    workers_step order (ws, s, outs) (ws[i := w], s', outs')"

inductive_cases workers_step_elim: "workers_step order (ws, s, outs) W"

fun served :: "worker \<Rightarrow> bool" where
  "served (Finishing t acts snap) = (acts = [])"
| "served w = False"

section \<open>The database inside\<close>

fun db_thread :: "worker \<Rightarrow> thread" where
  "db_thread (Check addr p) = Handle (sin_addr addr) p"
| "db_thread (Working job t) = t"
| "db_thread (Finishing t acts snap) = t"
| "db_thread (Crashed e) = Finished (Inl e)"

definition db_view :: "workers \<Rightarrow> world" where
  "db_view W = (case W of (ws, s, outs) \<Rightarrow> (map db_thread ws, s))"

lemma working_step:
  "worker_step order (Working job t) s outs =
     (case t of
        Finished (Inl e) \<Rightarrow> Some (Crashed e, s, outs)
      | Finished (Inr res) \<Rightarrow> Some (Finishing t (after_database job res) blank_snapshot, s, outs)
      | _ \<Rightarrow> (case thread_step t s of None \<Rightarrow> None | Some (t', s') \<Rightarrow> Some (Working job t', s', outs)))"
  by (cases t) (auto split: sum.split)

lemma worker_step_db:
  assumes "worker_step order w s outs = Some (w', s', outs')"
  shows "thread_step (db_thread w) s = Some (db_thread w', s') \<or> (db_thread w' = db_thread w \<and> s' = s)"
proof (cases w)
  case (Finishing t acts snap)
  then show ?thesis using assms by (cases acts) (auto split: prod.splits)
next
  case (Working job t)
  then show ?thesis using assms
    by (auto simp: working_step split: thread.splits sum.splits option.splits)
qed (use assms in \<open>auto simp: Let_def known_record_def split: if_splits\<close>)

lemma db_view_step:
  assumes "workers_step order W W'"
  shows "world_step (db_view W) (db_view W') \<or> db_view W' = db_view W"
  using assms
proof (cases rule: workers_step.cases)
  case (step i ws s outs w s' outs')
  have same: "(map db_thread ws)[i := db_thread (ws ! i)] = map db_thread ws"
    using step by (metis length_map list_update_id nth_map)
  show ?thesis
    using worker_step_db [OF step(4)] step same world_step.step [of i "map db_thread ws" s "db_thread w" s']
    by (auto simp: db_view_def map_update)
qed

text \<open>Workers at the start: requests and discovery messages on an idle database.\<close>

fun fresh_worker :: "worker \<Rightarrow> bool" where
  "fresh_worker (Check addr p) = True"
| "fresh_worker (Working (Greeting addr text) (Reg Reg_start a)) = (a = sin_addr addr)"
| "fresh_worker w = False"

definition workers_start :: "workers \<Rightarrow> bool" where
  "workers_start W \<longleftrightarrow> (case W of (ws, s, outs) \<Rightarrow> db_ok s \<and> list_all fresh_worker ws \<and> outs = [])"

lemma fresh_worker_thread: "fresh_worker w \<Longrightarrow> fresh (db_thread w)"
  by (cases w rule: fresh_worker.cases) auto

interpretation handler_threads: projected_system world_start world_step world_ok
  workers_start "workers_step order" db_view for order
proof
  fix W assume "workers_start W"
  then show "world_start (db_view W)"
    using fresh_worker_thread by (auto simp: workers_start_def db_view_def world_start_def list_all_iff)
qed (rule db_view_step)

section \<open>A worker on its own\<close>

definition alone_step ::
  "((in_addr \<rightharpoonup> client_record) \<Rightarrow> in_addr list) \<Rightarrow> worker \<times> db_manager \<times> server_output list \<Rightarrow>
   worker \<times> db_manager \<times> server_output list \<Rightarrow> bool" where
  "alone_step order x y \<longleftrightarrow> (case x of (w, s, outs) \<Rightarrow> worker_step order w s outs = Some y)"

lemma alone_stepI: "worker_step order w s outs = Some y \<Longrightarrow> alone_step order (w, s, outs) y"
  by (simp add: alone_step_def)

lemma alone_world:
  assumes "(alone_step order)\<^sup>*\<^sup>* (w, s, outs) (w', s', outs')" "i < length ws" "ws ! i = w"
  shows "(workers_step order)\<^sup>*\<^sup>* (ws, s, outs) (ws[i := w'], s', outs')"
  using assms(1)
proof (induction "(w', s', outs')" arbitrary: w' s' outs' rule: rtranclp_induct)
  case base
  then show ?case using assms(2,3) by auto
next
  case (step y)
  obtain v t o1 where y: "y = (v, t, o1)" by (cases y) auto
  have "workers_step order (ws[i := v], t, o1) ((ws[i := v])[i := w'], s', outs')"
    using step(2) assms(2) y by (intro workers_step.step) (auto simp: alone_step_def)
  then show ?case using step(3) [OF y] by simp
qed

lemma working_alone:
  "run_alone n t s = (t', s') \<Longrightarrow>
   (alone_step order)\<^sup>*\<^sup>* (Working job t, s, outs) (Working job t', s', outs)"
proof (induction n arbitrary: t s)
  case (Suc n)
  show ?case
  proof (cases "thread_step t s")
    case (Some p)
    obtain u r where p: "p = (u, r)" by force
    have "worker_step order (Working job t) s outs = Some (Working job u, r, outs)"
      using Some p by (cases t) (auto simp: working_step)
    moreover have "(alone_step order)\<^sup>*\<^sup>* (Working job u, r, outs) (Working job t', s', outs)"
      using Suc Some p by auto
    ultimately show ?thesis by (blast intro: alone_stepI converse_rtranclp_into_rtranclp)
  qed (use Suc.prems in simp)
qed simp

text \<open>The copy of all records, one by one, with nobody in between.\<close>

lemma copy_alone:
  "(alone_step order)\<^sup>*\<^sup>* (Finishing t (map Copy_record ks @ acts) snap, s, outs)
     (Finishing t acts (snap\<lparr>records := (\<lambda>a. if a \<in> set ks then database_records s a else records snap a)\<rparr>),
      s, outs)"
proof (induction ks arbitrary: snap)
  case (Cons k ks)
  let ?snap = "snap\<lparr>records := (records snap)(k := database_records s k)\<rparr>"
  have one: "alone_step order (Finishing t (map Copy_record (k # ks) @ acts) snap, s, outs)
      (Finishing t (map Copy_record ks @ acts) ?snap, s, outs)"
    by (simp add: alone_step_def)
  have eq: "?snap\<lparr>records := (\<lambda>a. if a \<in> set ks then database_records s a else records ?snap a)\<rparr> =
      snap\<lparr>records := (\<lambda>a. if a \<in> set (k # ks) then database_records s a else records snap a)\<rparr>"
    by (auto simp: fun_eq_iff)
  show ?case
    using one Cons.IH [of ?snap] unfolding eq by (rule converse_rtranclp_into_rtranclp)
qed simp

text \<open>An iteration order lists the keys of every table, each once.\<close>

definition lists_keys :: "((in_addr \<rightharpoonup> client_record) \<Rightarrow> in_addr list) \<Rightarrow> bool" where
  "lists_keys order \<longleftrightarrow> (\<forall>m. set (order m) = dom m \<and> distinct (order m))"

lemma action_alone:
  "alone_step order (Finishing t (act # acts) snap, s, outs)
     (case action_step order act acts snap s outs of (acts', snap', outs') \<Rightarrow> (Finishing t acts' snap', s, outs'))"
  by (simp add: alone_step_def split: prod.split)

lemma snapshot_alone:
  assumes "lists_keys order"
  shows "(alone_step order)\<^sup>*\<^sup>* (Finishing t (Copy_metadata # Copy_records # acts) blank_snapshot, s, outs)
    (Finishing t acts (get_db_snapshot s), s, outs)"
proof -
  let ?snap = "blank_snapshot\<lparr>metadata := get_db_metadata s\<rparr>"
  have "?snap\<lparr>records := (\<lambda>a. if a \<in> set (order (database_records s)) then database_records s a else records ?snap a)\<rparr> =
      get_db_snapshot s"
    using assms by (auto simp: lists_keys_def get_db_snapshot_def blank_snapshot_def fun_eq_iff domIff)
  then have copied: "(alone_step order)\<^sup>*\<^sup>* (Finishing t (map Copy_record (order (database_records s)) @ acts) ?snap, s, outs)
      (Finishing t acts (get_db_snapshot s), s, outs)"
    using copy_alone [of order t "order (database_records s)" acts ?snap s outs] by simp
  have "alone_step order (Finishing t (Copy_metadata # Copy_records # acts) blank_snapshot, s, outs)
      (Finishing t (Copy_records # acts) ?snap, s, outs)"
    using action_alone [of order t Copy_metadata "Copy_records # acts" blank_snapshot s outs] by simp
  moreover have "alone_step order (Finishing t (Copy_records # acts) ?snap, s, outs)
      (Finishing t (map Copy_record (order (database_records s)) @ acts) ?snap, s, outs)"
    using action_alone [of order t Copy_records acts ?snap s outs] by simp
  ultimately show ?thesis using copied by (blast intro: converse_rtranclp_into_rtranclp)
qed

text \<open>The messages that remain to be sent.\<close>

lemma answer_alone:
  "(alone_step order)\<^sup>*\<^sup>* (Finishing t (Answer addr text # acts) snap, s, outs)
     (Finishing t acts snap, s, outs @ [Reply addr text])"
  using action_alone [of order t "Answer addr text" acts snap s outs] by auto

lemma broadcast_alone:
  "(alone_step order)\<^sup>*\<^sup>* (Finishing t (Broadcast # acts) snap, s, outs)
     (Finishing t acts snap, s, outs @ [Broadcast_update snap])"
  using action_alone [of order t Broadcast acts snap s outs] by auto

lemma database_alone:
  assumes "run_alone n (first_thread job) s = (Finished (Inr res), s')"
  shows "(alone_step order)\<^sup>*\<^sup>* (Working job (first_thread job), s, outs)
    (Finishing (Finished (Inr res)) (after_database job res) blank_snapshot, s', outs)"
proof -
  have "alone_step order (Working job (Finished (Inr res)), s', outs)
      (Finishing (Finished (Inr res)) (after_database job res) blank_snapshot, s', outs)"
    by (simp add: alone_step_def)
  with working_alone [OF assms] show ?thesis by (rule rtranclp.rtrancl_into_rtrancl)
qed

lemmas alone_steps = snapshot_alone answer_alone broadcast_alone

lemma greeting_finish:
  assumes "lists_keys order"
  shows "(alone_step order)\<^sup>*\<^sup>* (Finishing t [Copy_metadata, Copy_records, Answer addr text, Broadcast] blank_snapshot, s, outs)
    (Finishing t [] (get_db_snapshot s), s, outs @ [Reply addr text, Broadcast_update (get_db_snapshot s)])"
  using rtranclp_trans [OF snapshot_alone [OF assms] rtranclp_trans [OF answer_alone broadcast_alone]]
  by simp

lemma update_finish:
  assumes "lists_keys order"
  shows "(alone_step order)\<^sup>*\<^sup>* (Finishing t (Copy_metadata # Copy_records # Broadcast # acts) blank_snapshot, s, outs)
    (Finishing t acts (get_db_snapshot s), s, outs @ [Broadcast_update (get_db_snapshot s)])"
  using rtranclp_trans [OF snapshot_alone [OF assms] broadcast_alone] .

lemma request_finish:
  assumes "lists_keys order"
  shows "(alone_step order)\<^sup>*\<^sup>* (Finishing t [Copy_metadata, Copy_records, Broadcast, Answer addr text] blank_snapshot, s, outs)
    (Finishing t [] (get_db_snapshot s), s, outs @ [Broadcast_update (get_db_snapshot s), Reply addr text])"
  using rtranclp_trans [OF update_finish [OF assms] answer_alone] by simp

lemma closing_finish:
  assumes "lists_keys order"
  shows "(alone_step order)\<^sup>*\<^sup>* (Finishing t [Answer addr text, Copy_metadata, Copy_records, Broadcast] blank_snapshot, s, outs)
    (Finishing t [] (get_db_snapshot s), s, outs @ [Reply addr text, Broadcast_update (get_db_snapshot s)])"
  using rtranclp_trans [OF answer_alone update_finish [OF assms]] by simp

text \<open>A worker that nobody interrupts does what the handler does.\<close>

definition performs ::
  "((in_addr \<rightharpoonup> client_record) \<Rightarrow> in_addr list) \<Rightarrow> worker \<Rightarrow> db_manager \<Rightarrow> handler_outcome \<Rightarrow> bool" where
  "performs order w s h \<longleftrightarrow> (\<exists>out s'. h = (Inr out, s') \<and>
     (\<forall>outs. \<exists>t snap. (alone_step order)\<^sup>*\<^sup>* (w, s, outs) (Finishing t [] snap, s', outs @ out)))"

lemma performsI:
  assumes "h = (Inr out, s')"
    and "\<And>outs. \<exists>t snap. (alone_step order)\<^sup>*\<^sup>* (w, s, outs) (Finishing t [] snap, s', outs @ out)"
  shows "performs order w s h"
  using assms unfolding performs_def by blast

lemma request_alone:
  assumes ok: "db_ok s" and order: "lists_keys order"
  shows "performs order (Check addr p) s (process_req_packet addr p s)"
proof (cases "check_packet_status p (known_record (sin_addr addr) s) = VALID")
  case False
  let ?text = "ACK_Packet_to_string (refusal (sin_addr addr) p (known_record (sin_addr addr) s))"
  let ?t = "Refused (check_packet_status p (known_record (sin_addr addr) s))"
  have "alone_step order (Check addr p, s, outs) (Finishing ?t [Answer addr ?text] blank_snapshot, s, outs)" for outs
    using False by (simp add: alone_step_def Let_def)
  from converse_rtranclp_into_rtranclp [OF this answer_alone] show ?thesis
    by (intro performsI [OF process_req_refusal [OF False]]) blast
next
  case True
  let ?a = "sin_addr addr" and ?job = "Request addr p"
  obtain res s' where t: "settle ?a (receiver_ip p) (transfer_amount p) s = (Inr res, s')"
    by (rule settle_returns)
  let ?text = "ACK_Packet_to_string (transaction_reply ?a p res)" and ?f = "Finished (Inr res)"
  let ?out = "(if status_code res = SUCCESS then [Broadcast_update (get_db_snapshot s')] else []) @ [Reply addr ?text]"
  have "run_alone 9 (first_thread ?job) s = (?f, s')"
    using transaction_alone [OF ok] ok t by (simp add: make_transaction_settle db_ok_def)
  note work = database_alone [OF this, of order]
  have check: "alone_step order (Check addr p, s, outs) (Working ?job (first_thread ?job), s, outs)" for outs
    using True by (simp add: alone_step_def)
  have "\<exists>snap. (alone_step order)\<^sup>*\<^sup>* (Finishing ?f (after_database ?job res) blank_snapshot, s', outs)
      (Finishing ?f [] snap, s', outs @ ?out)" for outs
    using request_finish [OF order, of ?f addr ?text s' outs]
      answer_alone [of order ?f addr ?text "[]" blank_snapshot s' outs]
    by (cases "status_code res = SUCCESS") (auto simp: transaction_text_success)
  then show ?thesis
    using converse_rtranclp_into_rtranclp [OF check rtranclp_trans [OF work]]
    by (intro performsI [OF process_req_settles [OF ok True t]]) blast
qed

lemma greeting_alone:
  assumes ok: "db_ok s" and order: "lists_keys order"
  shows "performs order (Working (Greeting addr text) (first_thread (Greeting addr text))) s
    (discovery_step text True addr payload s)"
proof -
  let ?job = "Greeting addr text"
  obtain res s' where reg: "register_client (sin_addr addr) s = (Inr res, s')"
    using db_service.returns [OF ok, of "Register (sin_addr addr)"] by (metis apply_op.simps(1) prod.collapse)
  then have "run_alone 6 (first_thread ?job) s = (Finished (Inr res), s')"
    using register_alone [OF ok] by simp
  note work = database_alone [OF this, of order]
  have greet: "discovery_step text True addr payload s =
      (Inr [Reply addr text, Broadcast_update (get_db_snapshot s')], s')"
    using reg by (simp add: discovery_step_def)
  have "(alone_step order)\<^sup>*\<^sup>* (Working ?job (first_thread ?job), s, outs)
      (Finishing (Finished (Inr res)) [] (get_db_snapshot s'), s',
       outs @ [Reply addr text, Broadcast_update (get_db_snapshot s')])" for outs
    using rtranclp_trans [OF work] greeting_finish [OF order] by simp
  then show ?thesis by (intro performsI [OF greet]) blast
qed

lemma closing_alone:
  assumes ok: "db_ok s" and order: "lists_keys order"
  shows "performs order (Working (Closing addr p) (first_thread (Closing addr p))) s (process_kill_packet addr p s)"
proof -
  let ?job = "Closing addr p"
  obtain res s' where rem: "remove_client (sin_addr addr) s = (Inr res, s')"
    using db_service.returns [OF ok, of "Remove (sin_addr addr)"] by (metis apply_op.simps prod.collapse)
  let ?text = "ACK_Packet_to_string (kill_reply (sin_addr addr) p res)" and ?f = "Finished (Inr res)"
  let ?out = "[Reply addr ?text] @ (if status_code res = SUCCESS then [Broadcast_update (get_db_snapshot s')] else [])"
  have "run_alone 7 (first_thread ?job) s = (?f, s')"
    using remove_alone [OF ok] rem by simp
  note work = database_alone [OF this, of order]
  have "\<exists>snap. (alone_step order)\<^sup>*\<^sup>* (Finishing ?f (after_database ?job res) blank_snapshot, s', outs)
      (Finishing ?f [] snap, s', outs @ ?out)" for outs
    using closing_finish [OF order, of ?f addr ?text s' outs]
      answer_alone [of order ?f addr ?text "[]" blank_snapshot s' outs]
    by (cases "status_code res = SUCCESS") auto
  note tail = this
  have kill: "process_kill_packet addr p s = (Inr ?out, s')"
    using rem by (simp add: process_kill_packet_def)
  show ?thesis
    using rtranclp_trans [OF work] tail by (intro performsI [OF kill]) blast
qed

end
