(* ===== verification/Db_Linear.thy ===== *)
theory Db_Linear
  imports Db_Interleavings
begin

text \<open>
  The threads of \<open>Db_Locking\<close> are linearizable: whatever the interleaving of requests,
  transactions and registrations, the database they leave is the one that the operations
  leave when they run one after the other in some order, and each thread is told what its
  operation is told in that order. A transaction takes its place in the order with its
  balance check (or with the look-up that refuses it), a registration with the insertion of
  the record; between that step and the end of the thread the rest of its writes is still
  to come, and \<open>completed\<close> is the database with those writes added.
\<close>

section \<open>What a thread still has to write\<close>

text \<open>The outcome of the operation, from the step on at which it is decided.\<close>

fun outcome :: "thread \<Rightarrow> description option" where
  "outcome (Txn (Txn_read ok d) a b m) = Some d"
| "outcome (Txn Txn_debit a b m) = Some SUCCESS"
| "outcome (Txn Txn_credit a b m) = Some SUCCESS"
| "outcome (Txn Txn_metadata a b m) = Some SUCCESS"
| "outcome (Txn Txn_count a b m) = Some SUCCESS"
| "outcome (Txn (Txn_reply ok d) a b m) = Some d"
| "outcome (Reg Reg_database a) = Some SUCCESS"
| "outcome (Reg Reg_total a) = Some SUCCESS"
| "outcome (Reg Reg_reply a) = Some SUCCESS"
| "outcome (Finished (Inr r)) = Some (status_code r)"
| "outcome t = None"

text \<open>
  The operation that a thread which has not ended is to execute (the last equation only makes
  the function total: the theorems apply it to threads at their start).
\<close>

fun op_of :: "thread \<Rightarrow> db_op" where
  "op_of (Handle a p) = Transact a (receiver_ip p) (transfer_amount p)"
| "op_of (Txn pc a b m) = Transact a b m"
| "op_of (Reg pc a) = Register a"
| "op_of (Rem pc a c) = Remove a"
| "op_of t = Remove 0"

text \<open>What is still to be added to the balance of a client, modulo \<open>2\<^sup>6\<^sup>4\<close>, and to the counters.\<close>

fun pending_balance :: "in_addr \<Rightarrow> thread \<Rightarrow> u64" where
  "pending_balance x (Txn Txn_debit a b m) = (if x = b then m else 0) - (if x = a then m else 0)"
| "pending_balance x (Txn Txn_credit a b m) = (if x = b then m else 0)"
| "pending_balance x t = 0"

fun uncounted :: "thread \<Rightarrow> bool" where
  "uncounted (Txn Txn_debit a b m) = True"
| "uncounted (Txn Txn_credit a b m) = True"
| "uncounted (Txn Txn_metadata a b m) = True"
| "uncounted (Txn Txn_count a b m) = True"
| "uncounted t = False"

fun amount_of :: "thread \<Rightarrow> u64" where
  "amount_of (Txn pc a b m) = m"
| "amount_of t = 0"

definition pending_count :: "thread \<Rightarrow> i32" where
  "pending_count t = of_bool (uncounted t)"

definition pending_transferred :: "thread \<Rightarrow> u32" where
  "pending_transferred t = (if uncounted t then ucast (amount_of t) else 0)"

fun pending_total :: "thread \<Rightarrow> i32" where
  "pending_total (Reg Reg_database a) = ucast STARTING_BALANCE"
| "pending_total (Reg Reg_total a) = ucast STARTING_BALANCE"
| "pending_total t = 0"

definition plus_balance :: "u64 \<Rightarrow> client_record \<Rightarrow> client_record" where
  "plus_balance v r = r\<lparr>balance := balance r + v\<rparr>"

definition total_pending :: "in_addr \<Rightarrow> thread list \<Rightarrow> u64" where
  "total_pending x ts = sum_list (map (pending_balance x) ts)"

definition completed_record :: "thread list \<Rightarrow> db_manager \<Rightarrow> in_addr \<rightharpoonup> client_record" where
  "completed_record ts s x =
     map_option (plus_balance (total_pending x ts)) (database_records s x)"

definition completed :: "world \<Rightarrow> db_manager" where
  "completed w =
     (case w of (ts, s) \<Rightarrow>
        \<lparr>num_transactions = num_transactions s + sum_list (map pending_count ts),
         total_transferred = total_transferred s + sum_list (map pending_transferred ts),
         total_balance = total_balance s + sum_list (map pending_total ts),
         client_locks = (\<lambda>x. map_option (\<lambda>_. False) (database_records s x)),
         database_access_lock = False, database_metadata_lock = False,
         database_records = completed_record ts s, self_deadlock = self_deadlock s\<rparr>)"

lemma unlock_counters [simp]:
  "num_transactions (unlock_client a s) = num_transactions s"
  "total_transferred (unlock_client a s) = total_transferred s"
  "total_balance (unlock_client a s) = total_balance s"
  "self_deadlock (unlock_client a s) = self_deadlock s"
  by (auto simp: unlock_client_def split: option.split)

lemma lock_counters [simp]:
  "num_transactions (unlock_database s) = num_transactions s"
  "total_transferred (unlock_database s) = total_transferred s"
  "total_balance (unlock_database s) = total_balance s"
  "self_deadlock (unlock_database s) = self_deadlock s"
  "num_transactions (unlock_metadata s) = num_transactions s"
  "total_transferred (unlock_metadata s) = total_transferred s"
  "total_balance (unlock_metadata s) = total_balance s"
  "self_deadlock (unlock_metadata s) = self_deadlock s"
  "num_transactions (with_record a f s) = num_transactions s"
  "total_transferred (with_record a f s) = total_transferred s"
  "total_balance (with_record a f s) = total_balance s"
  "self_deadlock (with_record a f s) = self_deadlock s"
  by (simp_all add: unlock_database_def unlock_metadata_def with_record_def)

lemma plus_balance_simps [simp]:
  "plus_balance 0 r = r"
  "plus_balance v (plus_balance w r) = plus_balance (w + v) r"
  "balance (plus_balance v r) = balance r + v"
  "last_request (plus_balance v r) = last_request r"
  "ip (plus_balance v r) = ip r"
  by (simp_all add: plus_balance_def add.assoc)

lemma sum_list_map_upd:
  fixes f :: "'a \<Rightarrow> 'b :: ab_group_add"
  assumes "i < length xs"
  shows "sum_list (map f (xs[i := x])) = sum_list (map f xs) + (f x - f (xs ! i))"
  using sum_list_map_update [OF assms, of f x] by (simp add: algebra_simps)

lemma total_pending_upd:
  "i < length ts \<Longrightarrow> total_pending x (ts[i := t]) = total_pending x ts + (pending_balance x t - pending_balance x (ts ! i))"
  by (simp add: total_pending_def sum_list_map_upd)

lemma total_pending_one [simp]: "total_pending x [t] = pending_balance x t"
  by (simp add: total_pending_def)

lemma pending_holds: "pending_balance x t \<noteq> 0 \<Longrightarrow> holds_client x t"
  by (cases "(x, t)" rule: pending_balance.cases) (auto split: if_splits)

text \<open>Only the holder of a client's mutex has anything to add to the client's balance.\<close>

lemma pending_at_holder:
  assumes "locks_match ts s" "i < length ts" "holds_client x (ts ! i)"
  shows "total_pending x ts = pending_balance x (ts ! i)"
proof -
  have none: "\<forall>t\<in>set us. pending_balance x t = 0 \<Longrightarrow> total_pending x us = 0" for us
    by (induction us) (auto simp: total_pending_def)
  have "pending_balance x (ts ! j) = 0" if "j < length ts" "j \<noteq> i" for j
    using one_holder [of "holds_client x" ts "client_locks s x = Some True" j i] assms that pending_holds
    by (auto simp: locks_match_def)
  then have "total_pending x (ts[i := Refused VALID]) = 0"
    by (intro none) (use assms(2) in \<open>auto simp: in_set_conv_nth nth_list_update\<close>)
  then show ?thesis using total_pending_upd [OF assms(2), of x "Refused VALID"] by simp
qed

section \<open>What a step does to the completed database\<close>

lemma completed_records [simp]:
  "database_records (completed (ts, s)) = completed_record ts s"
  by (simp add: completed_def)

text \<open>A step that leaves the thread's own completed database as it is leaves the world's.\<close>

lemma completed_cong:
  assumes i: "i < length ts" and own: "completed ([t], s') = completed ([ts ! i], s)"
  shows "completed (ts[i := t], s') = completed (ts, s)"
proof -
  have "map_option (plus_balance (pending_balance x t)) (database_records s' x) =
      map_option (plus_balance (pending_balance x (ts ! i))) (database_records s x)" for x
    using fun_cong [OF arg_cong [OF own, of database_records], of x] by (simp add: completed_record_def)
  then have "map_option (plus_balance v) (map_option (plus_balance (pending_balance x t)) (database_records s' x)) =
      map_option (plus_balance v) (map_option (plus_balance (pending_balance x (ts ! i))) (database_records s x))" for x v
    by simp
  then have "map_option (plus_balance (pending_balance x t + v)) (database_records s' x) =
      map_option (plus_balance (pending_balance x (ts ! i) + v)) (database_records s x)" for x v
    by (simp add: option.map_comp o_def)
  from this [where v = "total_pending x ts - pending_balance x (ts ! i)" and x = x for x]
  have "completed_record (ts[i := t]) s' x = completed_record ts s x" for x
    by (simp add: completed_record_def total_pending_upd [OF i] algebra_simps)
  moreover have "map_option (\<lambda>_. False) (database_records s' x) = map_option (\<lambda>_. False) (database_records s x)" for x
    using fun_cong [OF arg_cong [OF own, of client_locks], of x] by (simp add: completed_def)
  moreover note arg_cong [OF own, of num_transactions] arg_cong [OF own, of total_transferred]
    arg_cong [OF own, of total_balance] arg_cong [OF own, of self_deadlock]
  ultimately show ?thesis
    by (simp add: completed_def fun_eq_iff sum_list_map_upd [OF i] algebra_simps)
qed

fun deciding :: "thread \<Rightarrow> bool" where
  "deciding (Txn Txn_check a b m) = True"
| "deciding (Reg Reg_insert a) = True"
| "deciding t = False"

lemmas completed_defs =
  completed_def completed_record_def pending_count_def pending_transferred_def int_plus_ulong_low
  uint_plus_ulong_low credited_def plus_balance_def fun_eq_iff

lemma silent_step:
  assumes "thread_step t s = Some (t', s')" "fits t s" "\<not> deciding t"
  shows "completed ([t'], s') = completed ([t], s)"
proof (cases t)
  case (Txn pc a b m)
  then show ?thesis using assms
    by (cases pc) (auto simp: Let_def release_both_def completed_defs split: thread_splits)
next
  case (Reg pc a)
  then show ?thesis using assms
    by (cases pc) (auto simp: Let_def completed_defs split: thread_splits)
qed (use assms in \<open>auto simp: Let_def completed_defs split: thread_splits\<close>)

lemma completed_known [simp]:
  "completed_record ts s x = None \<longleftrightarrow> database_records s x = None"
  by (simp add: completed_record_def)

text \<open>What the threads that hold the database know of a client's record from its mutex.\<close>

lemma mutex_tells_record:
  assumes "world_ok (ts, s)" "i < length ts" "holds_database (ts ! i)" "\<not> entering c (ts ! i)"
  shows "client_locks s c = None \<Longrightarrow> database_records s c = None"
    and "client_locks s c = Some False \<Longrightarrow> database_records s c \<noteq> None"
  using assms free_mutex_has_record [OF assms(1,2,3)] by (auto simp: world_ok_def)

text \<open>
  The steps that decide the outcome are the operation, on the completed database: first
  those that leave the records alone, then the balance check and the insertion.
\<close>

lemma refusal_decides:
  assumes ok: "world_ok (ts, s)" "db_ok (completed (ts, s))" and i: "i < length ts"
    and step: "thread_step (ts ! i) s = Some (t, s')"
    and new: "outcome (ts ! i) = None" "outcome t = Some d" "\<not> deciding (ts ! i)"
  shows "\<exists>r. apply_op (op_of (ts ! i)) (completed (ts, s)) = (Inr r, completed (ts, s)) \<and> status_code r = d"
proof -
  note known = mutex_tells_record [OF ok(1) i]
  note idle = ok(2) [unfolded db_ok_def, THEN conjunct1] ok(2) [unfolded db_ok_def, THEN conjunct2, THEN conjunct1]
  have fit: "fits (ts ! i) s" using ok(1) i by (auto simp: world_ok_def)
  show ?thesis
  proof (cases "ts ! i")
    case (Txn pc a b m)
    then consider "pc = Txn_sender" | "pc = Txn_receiver"
      using new step by (cases pc) (auto split: thread_splits)
    then show ?thesis
    proof cases
      case 1
      then show ?thesis using Txn step new known [of a] idle
        by (auto simp: make_transaction_settle settle_def respond_def completed_record_def split: thread_splits)
    next
      case 2
      then show ?thesis using Txn step new known [of b] idle fit
        by (auto simp: make_transaction_settle settle_def respond_def completed_record_def split: thread_splits)
    qed
  next
    case (Reg pc a)
    then have "pc = Reg_client False"
      using new step by (cases pc) (auto simp: Let_def split: thread_splits)
    then show ?thesis using Reg step new known [of a] idle
      by (auto simp: register_client_known respond_def completed_record_def split: thread_splits)
  qed (use step new fit in \<open>auto simp: Let_def split: thread_splits\<close>)
qed

lemma check_decides:
  assumes ok: "world_ok (ts, s)" "db_ok (completed (ts, s))" and i: "i < length ts"
    and pc: "ts ! i = Txn Txn_check a b m" and step: "thread_step (ts ! i) s = Some (t, s')"
  shows "\<exists>r. apply_op (Transact a b m) (completed (ts, s)) = (Inr r, completed (ts[i := t], s')) \<and>
    outcome t = Some (status_code r)"
proof -
  have match: "locks_match ts s" using ok(1) by (simp add: world_ok_def)
  have fit: "fits (ts ! i) s" using ok(1) i by (auto simp: world_ok_def)
  have settled_up: "total_pending a ts = 0" "total_pending b ts = 0"
    using pending_at_holder [OF match i, of a] pending_at_holder [OF match i, of b] pc by simp_all
  obtain r q where r: "database_records s a = Some r" "database_records s b = Some q" "a \<noteq> b"
    using fit pc by auto
  have known: "completed_record ts s a = Some r" "completed_record ts s b = Some q"
    using r settled_up by (simp_all add: completed_record_def)
  note settled = make_transaction_settle [of "completed (ts, s)" a b m]
  show ?thesis
  proof (cases "balance r < m")
    case True
    then have t: "t = Txn (Txn_reply False INSUFFICIENT_BALANCE) a b m"
      "s' = release_both a b (with_record a charged s)"
      using step pc r by simp_all
    have "completed_record (ts[i := t]) s' = (completed_record ts s)(a \<mapsto> charged r)"
      using t pc r settled_up by (auto simp: completed_record_def release_both_def total_pending_upd [OF i] fun_eq_iff)
    then have "completed (ts[i := t], s') = (completed (ts, s))\<lparr>database_records := (completed_record ts s)(a \<mapsto> charged r)\<rparr>"
      using t pc r by (auto simp: completed_def release_both_def sum_list_map_upd [OF i] fun_eq_iff
        pending_count_def pending_transferred_def)
    then show ?thesis
      using settled True t known r ok(2) pc by (auto simp: settle_def db_ok_def)
  next
    case False
    then have t: "t = Txn Txn_debit a b m" "s' = with_record a charged s"
      using step pc r by simp_all
    have "completed_record (ts[i := t]) s' = (completed_record ts s)(a \<mapsto> debited m r, b \<mapsto> credited m q)"
      using t pc r settled_up
      by (auto simp: completed_record_def total_pending_upd [OF i] fun_eq_iff plus_balance_def
        charged_def debited_def credited_def)
    then have "completed (ts[i := t], s') = (completed (ts, s))
        \<lparr>database_records := (completed_record ts s)(a \<mapsto> debited m r, b \<mapsto> credited m q),
         total_transferred := uint_plus_ulong (total_transferred (completed (ts, s))) m,
         num_transactions := num_transactions (completed (ts, s)) + 1\<rparr>"
      using t pc r
      by (auto simp: completed_def sum_list_map_upd [OF i] fun_eq_iff pending_count_def
        pending_transferred_def uint_plus_ulong_low)
    moreover have "m \<noteq> 0" using fit pc by simp
    ultimately show ?thesis
      using settled False t known r ok(2) pc by (auto simp: settle_def db_ok_def)
  qed
qed

lemma insertion_decides:
  assumes ok: "world_ok (ts, s)" "db_ok (completed (ts, s))" and i: "i < length ts"
    and pc: "ts ! i = Reg Reg_insert a" and step: "thread_step (ts ! i) s = Some (t, s')"
  shows "\<exists>r. apply_op (Register a) (completed (ts, s)) = (Inr r, completed (ts[i := t], s')) \<and>
    outcome t = Some (status_code r)"
proof -
  let ?new = "\<lparr>ip = a, balance = STARTING_BALANCE, last_request = STARTING_REQUEST\<rparr>"
  have match: "locks_match ts s" using ok(1) by (simp add: world_ok_def)
  have fit: "fits (ts ! i) s" using ok(1) i by (auto simp: world_ok_def)
  have settled_up: "total_pending a ts = 0"
    using pending_at_holder [OF match i, of a] pc by simp
  have none: "database_records s a = None" using fit pc by simp
  then have t: "t = Reg Reg_database a"
    "s' = unlock_client a (s\<lparr>database_records := (database_records s)(a \<mapsto> ?new)\<rparr>)"
    using step pc by simp_all
  have "completed_record (ts[i := t]) s' = (completed_record ts s)(a \<mapsto> ?new)"
    using t pc settled_up by (auto simp: completed_record_def total_pending_upd [OF i] fun_eq_iff)
  then have "completed (ts[i := t], s') = (completed (ts, s))
      \<lparr>client_locks := (client_locks (completed (ts, s)))(a \<mapsto> False),
       database_records := (completed_record ts s)(a \<mapsto> ?new),
       total_balance := int_plus_ulong (total_balance (completed (ts, s))) STARTING_BALANCE\<rparr>"
    using t pc
    by (auto simp: completed_def sum_list_map_upd [OF i] fun_eq_iff pending_count_def
      pending_transferred_def int_plus_ulong_low)
  moreover have "completed_record ts s a = None" using none by simp
  ultimately show ?thesis
    using register_client_new [of "completed (ts, s)" a] ok(2) t by (auto simp: db_ok_def)
qed

section \<open>The order of the decisions\<close>

text \<open>What a sequence of operations is told when they run one after the other.\<close>

fun told_in_order :: "db_op list \<Rightarrow> db_manager \<Rightarrow> description option list" where
  "told_in_order [] s = []"
| "told_in_order (q # qs) s =
     (case fst (apply_op q s) of Inr r \<Rightarrow> Some (status_code r) | Inl e \<Rightarrow> None) #
     told_in_order qs (snd (apply_op q s))"

lemma told_by_ledger:
  "db_ok s \<Longrightarrow> money s + 100000 * length qs < 2 ^ 64 \<Longrightarrow>
   told_in_order qs s = map Some (ledger_verdicts qs (ledger_of s))"
proof (induction qs arbitrary: s)
  case (Cons q qs)
  have less: "money s < 2 ^ 64" using Cons.prems by simp
  have "money (snd (apply_op q s)) \<le> money s + 100000"
    using Cons.prems(1) less by (rule db_refines.cost_grows)
  then have "told_in_order qs (snd (apply_op q s)) = map Some (ledger_verdicts qs (ledger_of (snd (apply_op q s))))"
    using Cons.prems by (intro Cons.IH db_service.keeps) simp_all
  moreover obtain r where "fst (apply_op q s) = Inr r" "status_code r = ledger_verdict q (ledger_of s)"
    by (rule apply_op_verdict [OF Cons.prems(1)])
  ultimately show ?case
    using db_refines.simulates [OF Cons.prems(1) less, of q] by simp
qed simp

lemma told_in_order_append:
  "told_in_order (qs @ qs') s = told_in_order qs s @ told_in_order qs' (run_ops qs s)"
  by (induction qs arbitrary: s) simp_all

text \<open>
  The threads in the order of their decisions explain a world: their operations, one after
  the other on the initial database, give the completed database and the outcomes.
\<close>

definition explains :: "thread list \<Rightarrow> db_manager \<Rightarrow> nat list \<Rightarrow> world \<Rightarrow> bool" where
  "explains ts0 s0 order w \<longleftrightarrow>
     (case w of (ts, s) \<Rightarrow>
        let ops = map (\<lambda>i. op_of (ts0 ! i)) in
        length ts = length ts0 \<and> distinct order \<and>
        set order = {i. i < length ts \<and> outcome (ts ! i) \<noteq> None} \<and>
        completed (ts, s) = run_ops (ops order) s0 \<and>
        map (\<lambda>i. outcome (ts ! i)) order = told_in_order (ops order) s0 \<and>
        (\<forall>i<length ts. outcome (ts ! i) = None \<longrightarrow> \<not> ended (ts ! i) \<longrightarrow> op_of (ts ! i) = op_of (ts0 ! i)))"

lemma outcome_kept:
  assumes "thread_step t s = Some (t', s')" "fits t s" "outcome t = Some d"
  shows "outcome t' = Some d"
proof (cases t)
  case (Txn pc a b m)
  then show ?thesis using assms
    by (cases pc) (auto simp: Let_def split: thread_splits)
next
  case (Reg pc a)
  then show ?thesis using assms
    by (cases pc) (auto simp: Let_def split: thread_splits)
qed (use assms in \<open>auto simp: Let_def split: thread_splits\<close>)

lemma op_kept:
  assumes "thread_step t s = Some (t', s')" "fits t s" "outcome t' = None" "\<not> ended t'"
  shows "op_of t' = op_of t \<and> outcome t = None \<and> \<not> ended t \<and> \<not> deciding t"
proof (cases t)
  case (Txn pc a b m)
  then show ?thesis using assms
    by (cases pc) (auto simp: Let_def split: thread_splits)
next
  case (Reg pc a)
  then show ?thesis using assms
    by (cases pc) (auto simp: Let_def split: thread_splits)
qed (use assms in \<open>auto simp: Let_def split: thread_splits\<close>)

text \<open>A step that decides nothing, and one that decides the outcome of its thread.\<close>

lemma undecided_step:
  assumes "world_ok (ts, s)" "i < length ts" "thread_step (ts ! i) s = Some (t, s')"
    and "outcome t = None \<or> outcome (ts ! i) \<noteq> None"
  shows "completed (ts[i := t], s') = completed (ts, s) \<and> outcome t = outcome (ts ! i)"
proof -
  have fit: "fits (ts ! i) s" using assms(1,2) by (auto simp: world_ok_def)
  have "\<not> deciding (ts ! i)"
    using assms(3,4) fit by (cases "ts ! i" rule: deciding.cases) (auto simp: Let_def split: thread_splits)
  then show ?thesis
    using completed_cong [OF assms(2) silent_step [OF assms(3) fit]] outcome_kept [OF assms(3) fit] assms(4)
    by (cases "outcome (ts ! i)") auto
qed

lemma decisive_step:
  assumes ok: "world_ok (ts, s)" "db_ok (completed (ts, s))" and i: "i < length ts"
    and step: "thread_step (ts ! i) s = Some (t, s')"
    and new: "outcome (ts ! i) = None" "outcome t \<noteq> None"
  shows "\<exists>r. apply_op (op_of (ts ! i)) (completed (ts, s)) = (Inr r, completed (ts[i := t], s')) \<and>
    outcome t = Some (status_code r)"
proof (cases "deciding (ts ! i)")
  case True
  then show ?thesis
    using check_decides [OF ok i _ step] insertion_decides [OF ok i _ step]
    by (cases "ts ! i" rule: deciding.cases) simp_all
next
  case False
  have fit: "fits (ts ! i) s" using ok(1) i by (auto simp: world_ok_def)
  obtain d where d: "outcome t = Some d" using new(2) by blast
  show ?thesis
    using refusal_decides [OF ok i step new(1) d False] completed_cong [OF i silent_step [OF step fit False]] d
    by auto
qed

lemma explains_step:
  assumes ex: "explains ts0 s0 order (ts, s)" and start: "db_ok s0" and ok: "world_ok (ts, s)"
    and i: "i < length ts" and step: "thread_step (ts ! i) s = Some (t, s')"
  shows "explains ts0 s0 (order @ (if outcome (ts ! i) = None \<and> outcome t \<noteq> None then [i] else []))
    (ts[i := t], s')"
proof -
  let ?ops = "map (\<lambda>i. op_of (ts0 ! i))"
  note ex = ex [unfolded explains_def Let_def, simplified]
  have fit: "fits (ts ! i) s" using ok i by (auto simp: world_ok_def)
  have kept: "\<forall>j<length ts. outcome (ts[i := t] ! j) = None \<longrightarrow> \<not> ended (ts[i := t] ! j) \<longrightarrow>
      op_of (ts[i := t] ! j) = op_of (ts0 ! j)"
    using op_kept [OF step fit] ex i by (auto simp: nth_list_update)
  show ?thesis
  proof (cases "outcome (ts ! i) = None \<and> outcome t \<noteq> None")
    case False
    then have same: "completed (ts[i := t], s') = completed (ts, s)" "outcome t = outcome (ts ! i)"
      using undecided_step [OF ok i step] by auto
    then have "outcome (ts[i := t] ! j) = outcome (ts ! j)" for j
      using i by (cases "j = i") simp_all
    then show ?thesis using ex kept same unfolding if_not_P [OF False]
      by (simp add: explains_def Let_def)
  next
    case True
    have db: "db_ok (completed (ts, s))" using ex db_service.valid_fold [OF start] by simp
    obtain r where r: "apply_op (op_of (ts ! i)) (completed (ts, s)) = (Inr r, completed (ts[i := t], s'))"
      "outcome t = Some (status_code r)"
      using decisive_step [OF ok db i step] True by auto
    have op: "op_of (ts ! i) = op_of (ts0 ! i)"
      using ex True i step by (cases "ended (ts ! i)") (auto elim: ended.elims)
    have "i \<notin> set order" using ex True by simp
    then have "outcome (ts[i := t] ! j) = outcome (ts ! j)" if "j \<in> set order" for j
      using that by (metis nth_list_update_neq)
    then have "map (\<lambda>j. outcome (ts[i := t] ! j)) order = map (\<lambda>j. outcome (ts ! j)) order" by simp
    then have "map (\<lambda>j. outcome (ts[i := t] ! j)) (order @ [i]) = told_in_order (?ops (order @ [i])) s0"
      using ex r op i by (simp add: told_in_order_append)
    moreover have "set (order @ [i]) = {j. j < length (ts[i := t]) \<and> outcome (ts[i := t] ! j) \<noteq> None}"
      using ex True i by (auto simp: nth_list_update)
    moreover have "completed (ts[i := t], s') = run_ops (?ops (order @ [i])) s0"
      using ex r op by simp
    ultimately show ?thesis using ex kept \<open>i \<notin> set order\<close> unfolding if_P [OF True]
      by (simp add: explains_def Let_def)
  qed
qed

lemma explains_steps:
  assumes "world_step\<^sup>*\<^sup>* v w" "explains ts0 s0 order v" "db_ok s0" "world_ok v"
  shows "\<exists>rest. explains ts0 s0 (order @ rest) w"
  using assms(1)
proof (induction rule: rtranclp_induct)
  case base
  show ?case using assms(2) by (intro exI [of _ "[]"]) simp
next
  case (step w x)
  obtain ts s where w: "w = (ts, s)" by force
  obtain rest where rest: "explains ts0 s0 (order @ rest) (ts, s)" using step.IH w by blast
  obtain i t s' where i: "i < length ts" "thread_step (ts ! i) s = Some (t, s')" "x = (ts[i := t], s')"
    using step.hyps(2) w by (auto elim: world_step_elim)
  have "world_ok (ts, s)" using db_threads.inv_steps [OF step.hyps(1) assms(4)] w by simp
  then show ?case
    using explains_step [OF rest assms(3) _ i(1,2)] i(3) by (metis append_assoc)
qed

text \<open>Along a path of worlds, a growing part of the final order explains every world.\<close>

lemma explains_path:
  assumes "successively world_step (v # path)" "explains ts0 s0 order v" "db_ok s0" "world_ok v"
  shows "\<exists>rest. explains ts0 s0 (order @ rest) (last (v # path)) \<and>
    (\<forall>w\<in>set (v # path). world_step\<^sup>*\<^sup>* w (last (v # path)) \<and>
       (\<exists>n. explains ts0 s0 (take n (order @ rest)) w))"
  using assms(1,2,4)
proof (induction path arbitrary: v order)
  case Nil
  then show ?case by (intro exI [of _ "[]"]) (auto intro: exI [of _ "length order"])
next
  case (Cons w path)
  have step: "world_step v w" "successively world_step (w # path)" using Cons.prems(1) by simp_all
  then obtain more where "explains ts0 s0 (order @ more) w"
    using explains_steps [OF _ Cons.prems(2) assms(3) Cons.prems(3)] by blast
  moreover have "world_ok w" using db_threads.inv_step [OF Cons.prems(3) step(1)] .
  ultimately obtain rest where rest: "explains ts0 s0 ((order @ more) @ rest) (last (w # path))"
    "\<forall>x\<in>set (w # path). world_step\<^sup>*\<^sup>* x (last (w # path)) \<and> (\<exists>n. explains ts0 s0 (take n ((order @ more) @ rest)) x)"
    using Cons.IH [OF step(2)] by blast
  have "world_step\<^sup>*\<^sup>* v (last (w # path))" using rest(2) step(1) by (auto intro: converse_rtranclp_into_rtranclp)
  moreover have "explains ts0 s0 (take (length order) (order @ more @ rest)) v" using Cons.prems(2) by simp
  ultimately show ?case using rest by (intro exI [of _ "more @ rest"]) (auto simp del: take_append)
qed

text \<open>At the start nothing is decided; at the end nothing is left to write.\<close>

lemma fresh_undecided: "fresh t \<Longrightarrow> outcome t = None \<and> \<not> uncounted t \<and> pending_total t = 0 \<and> pending_balance x t = 0"
  by (cases t rule: fresh.cases) auto

lemma ended_settled: "ended t \<Longrightarrow> \<not> uncounted t \<and> pending_total t = 0 \<and> pending_balance x t = 0"
  by (cases t) auto

lemma completed_settled:
  assumes "\<And>t x. t \<in> set ts \<Longrightarrow> \<not> uncounted t \<and> pending_total t = 0 \<and> pending_balance x t = 0"
    and "\<not> database_access_lock s" "\<not> database_metadata_lock s"
    and "\<And>x. client_locks s x = (if database_records s x = None then None else Some False)"
  shows "completed (ts, s) = s"
proof -
  have none: "sum_list (map f us) = 0" if "\<And>t. t \<in> set us \<Longrightarrow> f t = 0"
    for f :: "thread \<Rightarrow> 'n::len word" and us
    using that by (induction us) simp_all
  have "total_pending x ts = 0" for x using assms(1) by (simp add: total_pending_def none)
  then have "completed_record ts s x = database_records s x" for x
    by (cases "database_records s x") (simp_all add: completed_record_def)
  then have "completed_record ts s = database_records s" by (rule ext)
  moreover have "(\<lambda>x. map_option (\<lambda>_. False) (database_records s x)) = client_locks s"
    using assms(4) by (auto simp: fun_eq_iff)
  moreover have "sum_list (map pending_count ts) = 0" "sum_list (map pending_transferred ts) = 0"
    "sum_list (map pending_total ts) = 0"
    using assms(1) by (simp_all add: none pending_count_def pending_transferred_def)
  ultimately show ?thesis using assms(2,3) by (simp add: completed_def)
qed

lemma explains_start:
  assumes "world_start (ts, s)"
  shows "explains ts s [] (ts, s)"
proof -
  have ok: "db_ok s" and fresh: "\<And>t. t \<in> set ts \<Longrightarrow> fresh t"
    using assms by (auto simp: world_start_def list_all_iff)
  have "completed (ts, s) = s"
    using ok fresh_undecided fresh by (intro completed_settled) (auto simp: db_ok_def db_simps)
  then show ?thesis using fresh_undecided fresh by (auto simp: explains_def)
qed

lemma completed_ended:
  assumes ok: "world_ok (ts, s)" and all: "list_all ended ts"
  shows "completed (ts, s) = s"
proof (rule completed_settled)
  have no: "\<not> holds_database t" "\<not> holds_metadata t" "\<not> holds_client c t" "\<not> entering c t"
    if t: "t \<in> set ts" for t c
  proof -
    have "ended t" using t all by (simp add: list_all_iff)
    then show "\<not> holds_database t" "\<not> holds_metadata t" "\<not> holds_client c t" "\<not> entering c t"
      by (cases t; simp)+
  qed
  then have "how_many holds_database ts = 0" "how_many holds_metadata ts = 0"
    "how_many (holds_client c) ts = 0" for c
    by (simp_all add: how_many_zero)
  then have match: "\<not> database_access_lock s" "\<not> database_metadata_lock s" "client_locks s c \<noteq> Some True" for c
    using ok by (simp_all add: world_ok_def locks_match_def)
  show "\<not> database_access_lock s" "\<not> database_metadata_lock s" by (fact match)+
  have "database_records s x \<noteq> None \<Longrightarrow> client_locks s x \<noteq> None" for x
    using ok by (simp add: world_ok_def)
  moreover have "client_locks s x \<noteq> None \<Longrightarrow> database_records s x \<noteq> None" for x
    using entering_exists [OF ok, of x] no(4) nth_mem by metis
  ultimately show "client_locks s x = (if database_records s x = None then None else Some False)" for x
    using match(3) [of x] by (cases "client_locks s x") fastforce+
qed (use all ended_settled in \<open>auto simp: list_all_iff\<close>)

lemma ended_stays:
  "world_step\<^sup>*\<^sup>* v w \<Longrightarrow> ended (fst v ! i) \<Longrightarrow> fst w ! i = fst v ! i"
proof (induction rule: rtranclp_induct)
  case (step w x)
  then have "ended (fst w ! i)" by simp
  then have "fst x ! i = fst w ! i"
    using step.hyps(2) by (cases w) (auto elim!: world_step_elim simp: nth_list_update ended_stuck)
  then show ?case using step by simp
qed simp

lemma decided_when_ended: "ended t \<Longrightarrow> fits t s \<Longrightarrow> outcome t = None \<longleftrightarrow> (\<exists>e. t = Refused e)"
  by (cases t) auto

lemma explains_ended:
  assumes ex: "explains ts0 s0 order (ts, s)" and ok: "world_ok (ts, s)" and all: "list_all ended ts"
  shows "set order = {i. i < length ts \<and> (\<forall>e. ts ! i \<noteq> Refused e)}"
    and "s = run_ops (map (\<lambda>i. op_of (ts0 ! i)) order) s0"
proof -
  note ex' = ex [unfolded explains_def Let_def, simplified]
  have "outcome (ts ! i) = None \<longleftrightarrow> (\<exists>e. ts ! i = Refused e)" if "i < length ts" for i
    using that all ok by (intro decided_when_ended [where s = s]) (auto simp: list_all_iff world_ok_def)
  then show "set order = {i. i < length ts \<and> (\<forall>e. ts ! i \<noteq> Refused e)}" using ex' by auto
  show "s = run_ops (map (\<lambda>i. op_of (ts0 ! i)) order) s0"
    using ex' completed_ended [OF ok all] by simp
qed

text \<open>The part of the order that explains a world holds what had ended there, and nothing fresh.\<close>

lemma order_splits:
  assumes order: "explains ts0 s0 order (ts, s)"
    and part: "explains ts0 s0 (take n order) w" and run: "world_step\<^sup>*\<^sup>* w (ts, s)"
  shows "(\<forall>i\<in>set (take n order). \<not> fresh (fst w ! i)) \<and> (\<forall>i\<in>set (drop n order). \<not> ended (fst w ! i))"
proof -
  obtain us u where w: "w = (us, u)" by force
  note order' = order [unfolded explains_def Let_def, simplified]
    and part' = part [unfolded w explains_def Let_def, simplified]
  have "\<not> fresh (us ! i)" if "i \<in> set (take n order)" for i
    using that part' fresh_undecided [of "us ! i"] by auto
  moreover have "\<not> ended (us ! i)" if i: "i \<in> set (drop n order)" for i
  proof
    assume ended: "ended (us ! i)"
    then have same: "ts ! i = us ! i" using ended_stays [OF run, of i] w by simp
    have "i \<in> set order" using i by (rule in_set_dropD)
    then have "i < length ts" "outcome (ts ! i) \<noteq> None" using order' by auto
    moreover have "i \<notin> set (take n order)"
      using i order' by (metis append_take_drop_id disjoint_iff distinct_append)
    ultimately show False using order' part' same by auto
  qed
  ultimately show ?thesis using w by simp
qed

section \<open>Properties\<close>

text \<open>
  C3. The locking makes the operations atomic. However the handlers of any number of requests,
  transactions and registrations interleave, once all of them have ended there is an order of
  those that were not refused such that the whole database (every record, mutex and counter)
  is the one \<open>DbManager\<close> reaches by executing the operations one after the other in that
  order, each of them with the outcome its thread was told. The order respects time: every
  world of the run splits it into a part without threads that have not started in that world
  and a rest without threads that have ended in it.
\<close>

theorem interleavings_are_linearizable:
  assumes "world_start (ts0, s0)" and "successively world_step ((ts0, s0) # path)"
    and "last ((ts0, s0) # path) = (ts, s)" and "list_all ended ts"
  shows "\<exists>order. distinct order \<and> set order = {i. i < length ts \<and> (\<forall>e. ts ! i \<noteq> Refused e)} \<and>
    s = run_ops (map (\<lambda>i. op_of (ts0 ! i)) order) s0 \<and>
    map (\<lambda>i. outcome (ts ! i)) order = told_in_order (map (\<lambda>i. op_of (ts0 ! i)) order) s0 \<and>
    (\<forall>w\<in>set path. \<exists>n. (\<forall>i\<in>set (take n order). \<not> fresh (fst w ! i)) \<and>
       (\<forall>i\<in>set (drop n order). \<not> ended (fst w ! i)))"
proof -
  have db: "db_ok s0" using assms(1) by (simp add: world_start_def)
  note start = world_ok_start [OF assms(1)]
  obtain order where order: "explains ts0 s0 order (ts, s)"
    and prefix: "\<And>w. w \<in> set ((ts0, s0) # path) \<Longrightarrow>
      world_step\<^sup>*\<^sup>* w (ts, s) \<and> (\<exists>n. explains ts0 s0 (take n order) w)"
    using explains_path [OF assms(2) explains_start [OF assms(1)] db start] assms(3) by auto
  have "world_step\<^sup>*\<^sup>* (ts0, s0) (ts, s)" using prefix [of "(ts0, s0)"] by simp
  then have ok: "world_ok (ts, s)" by (rule db_threads.inv_steps [OF _ start])
  have "\<exists>n. (\<forall>i\<in>set (take n order). \<not> fresh (fst w ! i)) \<and> (\<forall>i\<in>set (drop n order). \<not> ended (fst w ! i))"
    if w: "w \<in> set path" for w
  proof -
    obtain n where n: "explains ts0 s0 (take n order) w" "world_step\<^sup>*\<^sup>* w (ts, s)"
      using prefix [of w] w by auto
    show ?thesis using order_splits [OF order n] by blast
  qed
  then show ?thesis
    using explains_ended [OF order ok assms(4)] order by (intro exI [of _ order]) (simp add: explains_def Let_def)
qed

lemma path_exists:
  "world_step\<^sup>*\<^sup>* v w \<Longrightarrow> \<exists>path. successively world_step (v # path) \<and> last (v # path) = w"
proof (induction rule: converse_rtranclp_induct)
  case base
  show ?case by (intro exI [of _ "[]"]) simp
next
  case (step u v)
  then obtain path where "successively world_step (v # path)" "last (v # path) = w" by blast
  then show ?case using step.hyps(1) by (intro exI [of _ "v # path"]) simp
qed

text \<open>Two opposite transfers, one run to the end while the other has not started.\<close>

theorem interleavings_are_linearizable_witness:
  "\<exists>order. set order = {0, 1} \<and>
    snd (make_transaction 2 1 40 (snd (make_transaction 1 2 30 two_clients))) =
      run_ops (map (\<lambda>i. op_of ([Txn Txn_start 1 2 30, Txn Txn_start 2 1 40] ! i)) order) two_clients"
proof -
  let ?t = "Txn Txn_start 1 2 30" and ?u = "Txn Txn_start 2 1 40"
  let ?s = "snd (make_transaction 1 2 30 two_clients)"
  have ok: "db_ok ?s" by (rule db_ok_transaction) (rule two_clients_ok)
  obtain r q where r: "fst (make_transaction 1 2 30 two_clients) = Inr r" "fst (make_transaction 2 1 40 ?s) = Inr q"
    using apply_op_returns [OF two_clients_ok, of "Transact 1 2 30"] apply_op_returns [OF ok, of "Transact 2 1 40"]
    by auto
  have "world_step\<^sup>*\<^sup>* ([?t, ?u], two_clients) ([Finished (Inr r), Finished (Inr q)], snd (make_transaction 2 1 40 ?s))"
    using two_threads_run [of ?t ?u two_clients 9 9] r
    by (simp add: transaction_alone [OF two_clients_ok] transaction_alone [OF ok])
  then obtain path where run: "successively world_step (([?t, ?u], two_clients) # path)"
    "last (([?t, ?u], two_clients) # path) = ([Finished (Inr r), Finished (Inr q)], snd (make_transaction 2 1 40 ?s))"
    using path_exists by blast
  have indices: "{i. i < length [Finished (Inr r), Finished (Inr q)] \<and>
      (\<forall>e. [Finished (Inr r), Finished (Inr q)] ! i \<noteq> Refused e)} = {0, 1}"
    by (auto simp: less_Suc_eq)
  have all: "list_all ended [Finished (Inr r), Finished (Inr q)]" by simp
  obtain order where "set order = {0, 1}"
    "snd (make_transaction 2 1 40 ?s) = run_ops (map (\<lambda>i. op_of ([?t, ?u] ! i)) order) two_clients"
    using interleavings_are_linearizable [OF crossing_start run all] unfolding indices by (elim exE conjE)
  then show ?thesis by (intro exI [of _ order] conjI)
qed

end
