(* ===== verification/Server_Concurrency.thy ===== *)
theory Server_Concurrency
  imports Server_Workers Db_Linear "HOL-Library.Multiset"
begin

text \<open>
  Many workers of \<open>Server_Workers\<close> at once: every run of workers ends, and without removals
  it ends with one reply for every packet and with the accounts and outcomes of the abstract
  ledger in some order of the packets; but a copy of the database that is taken while a
  transfer runs can lack money or contain money twice, and can be broadcast last; and with
  removals, a client that closes its account at the wrong moment ends the server.
\<close>

section \<open>Every run ends\<close>

fun txn_left :: "txn_pc \<Rightarrow> nat" where
  "txn_left Txn_start = 10"
| "txn_left Txn_sender = 9"
| "txn_left (Txn_read ok d) = 1"
| "txn_left Txn_receiver = 8"
| "txn_left Txn_check = 7"
| "txn_left Txn_debit = 6"
| "txn_left Txn_credit = 5"
| "txn_left Txn_metadata = 4"
| "txn_left Txn_count = 3"
| "txn_left (Txn_reply ok d) = 2"

fun reg_left :: "reg_pc \<Rightarrow> nat" where
  "reg_left Reg_start = 6"
| "reg_left (Reg_client inserted) = 5"
| "reg_left Reg_insert = 4"
| "reg_left Reg_database = 3"
| "reg_left Reg_total = 2"
| "reg_left Reg_reply = 1"

fun rem_left :: "rem_pc \<Rightarrow> nat" where
  "rem_left Rem_start = 7"
| "rem_left Rem_client = 6"
| "rem_left Rem_erase = 5"
| "rem_left Rem_database = 4"
| "rem_left Rem_unlock = 3"
| "rem_left Rem_total_lock = 2"
| "rem_left Rem_total = 1"

fun thread_left :: "thread \<Rightarrow> nat" where
  "thread_left (Handle a p) = 11"
| "thread_left (Txn pc a b m) = txn_left pc"
| "thread_left (Reg pc a) = reg_left pc"
| "thread_left (Rem pc a c) = rem_left pc"
| "thread_left t = 0"

lemma thread_left_decreases: "thread_step t s = Some (t', s') \<Longrightarrow> thread_left t' < thread_left t"
proof (cases t)
  case (Txn pc a b m)
  assume "thread_step t s = Some (t', s')"
  then show ?thesis using Txn by (cases pc) (auto simp: Let_def split: thread_splits)
next
  case (Reg pc a)
  assume "thread_step t s = Some (t', s')"
  then show ?thesis using Reg by (cases pc) (auto simp: Let_def split: thread_splits)
next
  case (Rem pc a c)
  assume "thread_step t s = Some (t', s')"
  then show ?thesis using Rem by (cases pc) (auto simp: Let_def split: thread_splits)
qed (auto simp: Let_def split: if_splits)

text \<open>
  The coarse measure counts what is left apart from single records, the fine one the records
  that are still to be copied.
\<close>

fun is_copy_record :: "action \<Rightarrow> bool" where
  "is_copy_record (Copy_record a) = True"
| "is_copy_record act = False"

fun coarse :: "worker \<Rightarrow> nat" where
  "coarse (Check addr p) = 20"
| "coarse (Working job t) = thread_left t + 6"
| "coarse (Finishing t acts snap) = length (filter (\<lambda>act. \<not> is_copy_record act) acts)"
| "coarse (Crashed e) = 0"

fun fine :: "worker \<Rightarrow> nat" where
  "fine (Finishing t acts snap) = length (filter is_copy_record acts)"
| "fine w = 0"

lemma length_after_database:
  "length (filter (\<lambda>act. \<not> is_copy_record act) (after_database job res)) < 6"
  by (cases job) (simp_all add: Let_def)

lemma worker_step_measure:
  assumes "worker_step order w s outs = Some (w', s', outs')"
  shows "coarse w' < coarse w \<or> coarse w' = coarse w \<and> fine w' < fine w"
proof (cases w)
  case (Working job t)
  show ?thesis
  proof (cases "\<exists>r. t = Finished r")
    case True
    then obtain r where "t = Finished r" by blast
    then show ?thesis
      using assms Working length_after_database [of job] by (cases r) auto
  next
    case False
    then obtain t' where "thread_step t s = Some (t', s')" "w' = Working job t'"
      using assms Working by (auto simp: working_step split: thread.splits option.splits)
    then show ?thesis using Working thread_left_decreases by simp
  qed
next
  case (Finishing t acts snap)
  then show ?thesis
  proof (cases acts)
    case (Cons act rest)
    then show ?thesis using assms Finishing by (cases act) auto
  qed (use assms in simp)
qed (use assms in \<open>auto simp: Let_def split: if_splits\<close>)

definition coarse_total :: "workers \<Rightarrow> nat" where
  "coarse_total W = sum_list (map coarse (fst W))"

definition fine_total :: "workers \<Rightarrow> nat" where
  "fine_total W = sum_list (map fine (fst W))"

lemma workers_step_measure:
  assumes "workers_step order W W'"
  shows "(W', W) \<in> measures [coarse_total, fine_total]"
  using assms
proof (cases rule: workers_step.cases)
  case (step i ws s outs w s' outs')
  show ?thesis
    using worker_step_measure [OF step(4)] step(1,2)
      sum_list_map_update [OF step(3), of coarse w] sum_list_map_update [OF step(3), of fine w]
    by (auto simp: coarse_total_def fine_total_def)
qed

lemma workers_step_wf: "wf {(W', W). workers_step order W W'}"
  by (rule wf_subset [OF wf_measures [of "[coarse_total, fine_total]"]]) (auto dest: workers_step_measure)

section \<open>Every packet is answered\<close>

text \<open>Which threads a worker can have at its stages.\<close>

fun busy :: "thread \<Rightarrow> bool" where
  "busy (Handle a p) = False"
| "busy (Refused st) = False"
| "busy t = True"

fun worker_fits :: "worker \<Rightarrow> bool" where
  "worker_fits (Working job t) = busy t"
| "worker_fits (Finishing t acts snap) = ended t"
| "worker_fits w = True"

lemma busy_step: "thread_step t s = Some (t', s') \<Longrightarrow> busy t \<Longrightarrow> busy t'"
proof (cases t)
  case (Txn pc a b m)
  assume "thread_step t s = Some (t', s')"
  then show ?thesis using Txn by (cases pc) (auto simp: Let_def split: thread_splits)
next
  case (Reg pc a)
  assume "thread_step t s = Some (t', s')"
  then show ?thesis using Reg by (cases pc) (auto simp: Let_def split: thread_splits)
next
  case (Rem pc a c)
  assume "thread_step t s = Some (t', s')"
  then show ?thesis using Rem by (cases pc) (auto simp: Let_def split: thread_splits)
qed auto

lemma worker_fits_step:
  assumes "worker_step order w s outs = Some (w', s', outs')" "worker_fits w"
  shows "worker_fits w'"
proof (cases w)
  case (Working job t)
  show ?thesis
  proof (cases "\<exists>r. t = Finished r")
    case True
    then obtain r where "t = Finished r" by blast
    then show ?thesis using assms Working by (cases r) auto
  next
    case False
    then obtain t' where "thread_step t s = Some (t', s')" "w' = Working job t'"
      using assms Working by (auto simp: working_step split: thread.splits option.splits)
    then show ?thesis using Working assms(2) busy_step by simp
  qed
next
  case (Finishing t acts snap)
  then show ?thesis using assms by (cases acts) (auto split: prod.splits)
qed (use assms in \<open>auto simp: Let_def split: if_splits\<close>)

lemma workers_progress:
  assumes ok: "world_ok (db_view (ws, s, outs))" and fit: "\<forall>w\<in>set ws. worker_fits w"
    and stuck: "\<And>i. i < length ws \<Longrightarrow> worker_step order (ws ! i) s outs = None"
  shows "\<forall>w\<in>set ws. served w"
proof -
  have none: "worker_step order w s outs = None" if "w \<in> set ws" for w
    using stuck that by (auto simp: in_set_conv_nth)
  have thread_none: "thread_step (db_thread w) s = None" if w: "w \<in> set ws" for w
  proof (cases w)
    case (Working job t)
    then show ?thesis using none [OF w]
      by (auto simp: working_step split: thread.splits sum.splits option.splits)
  next
    case (Finishing t acts snap)
    then show ?thesis using fit w by (cases t) auto
  qed (use none [OF w] in \<open>auto simp: Let_def\<close>)
  have ended: "ended (db_thread w)" if "w \<in> set ws" for w
    using world_progress [of "map db_thread ws" s] ok thread_none that
    by (auto simp: db_view_def list_all_iff)
  have "served w" if w: "w \<in> set ws" for w
  proof (cases w)
    case (Working job t)
    then show ?thesis using none [OF w] ended [OF w] fit w
      by (cases t) (auto simp: working_step split: sum.splits)
  next
    case (Finishing t acts snap)
    then show ?thesis using none [OF w] by (cases acts) (auto simp: Let_def split: prod.splits)
  next
    case (Crashed e)
    then show ?thesis using ok w by (force simp: db_view_def world_ok_def)
  qed (use none [OF w] in \<open>auto simp: Let_def\<close>)
  then show ?thesis by blast
qed

text \<open>The replies that are owed and the replies that were sent, by their addresses.\<close>

fun job_addr :: "job \<Rightarrow> sockaddr_in" where
  "job_addr (Request addr p) = addr"
| "job_addr (Greeting addr text) = addr"
| "job_addr (Closing addr p) = addr"

fun answers :: "action list \<Rightarrow> sockaddr_in multiset" where
  "answers [] = {#}"
| "answers (Answer addr text # acts) = add_mset addr (answers acts)"
| "answers (act # acts) = answers acts"

fun awaiting :: "worker \<Rightarrow> sockaddr_in multiset" where
  "awaiting (Check addr p) = {#addr#}"
| "awaiting (Working job t) = {#job_addr job#}"
| "awaiting (Finishing t acts snap) = answers acts"
| "awaiting (Crashed e) = {#}"

fun replied :: "server_output list \<Rightarrow> sockaddr_in multiset" where
  "replied [] = {#}"
| "replied (Reply addr text # outs) = add_mset addr (replied outs)"
| "replied (Broadcast_update snap # outs) = replied outs"

lemma answers_append [simp]: "answers (xs @ ys) = answers xs + answers ys"
  by (induction xs rule: answers.induct) simp_all

lemma replied_append [simp]: "replied (xs @ ys) = replied xs + replied ys"
  by (induction xs rule: replied.induct) simp_all

lemma answers_records [simp]: "answers (map Copy_record ks) = {#}"
  by (induction ks) simp_all

lemma answers_after_database [simp]: "answers (after_database job res) = {#job_addr job#}"
  by (cases job) (simp_all add: Let_def)

lemma worker_step_replies:
  assumes "worker_step order w s outs = Some (w', s', outs')" "\<And>e. w' \<noteq> Crashed e"
  shows "awaiting w' + replied outs' = awaiting w + replied outs"
proof (cases w)
  case (Working job t)
  then show ?thesis using assms
    by (cases w') (auto simp: working_step split: thread.splits sum.splits option.splits)
next
  case (Finishing t acts snap)
  then show ?thesis
  proof (cases acts)
    case (Cons act rest)
    then show ?thesis using assms Finishing by (cases act) auto
  qed (use assms in simp)
qed (use assms in \<open>auto simp: Let_def split: if_splits\<close>)

lemma fresh_worker_fits: "fresh_worker w \<Longrightarrow> worker_fits w"
  by (cases w rule: fresh_worker.cases) auto

definition owed :: "workers \<Rightarrow> sockaddr_in multiset" where
  "owed W = (case W of (ws, s, outs) \<Rightarrow> sum_list (map awaiting ws) + replied outs)"

definition workers_ok :: "workers \<Rightarrow> bool" where
  "workers_ok W \<longleftrightarrow> world_ok (db_view W) \<and> list_all worker_fits (fst W)"

lemma workers_ok_no_crash: "workers_ok (ws, s, outs) \<Longrightarrow> Crashed e \<notin> set ws"
  by (force simp: workers_ok_def db_view_def world_ok_def)

lemma worker_fits_update:
  assumes "workers_step order W W'" "list_all worker_fits (fst W)"
  shows "list_all worker_fits (fst W')"
  using assms(1)
proof (cases rule: workers_step.cases)
  case (step i ws s outs w s' outs')
  have "worker_fits w"
    using worker_fits_step [OF step(4)] assms(2) step by (simp add: list_all_length)
  then show ?thesis using assms(2) step set_update_subset_insert [of ws i w]
    by (auto simp: list_all_iff)
qed

interpretation worker_pool: invariant_system workers_start "workers_step order" workers_ok for order
proof
  fix W assume start: "workers_start W"
  then have "world_ok (db_view W)" by (rule handler_threads.fine.inv_start)
  then show "workers_ok W"
    using start fresh_worker_fits by (auto simp: workers_ok_def workers_start_def list_all_iff)
next
  fix W W' assume "workers_ok W" "workers_step order W W'"
  then show "workers_ok W'"
    using worker_fits_update handler_threads.fine.inv_step unfolding workers_ok_def by blast
qed

lemma owed_step:
  assumes "workers_step order W W'" "workers_ok W'"
  shows "owed W' = owed W"
  using assms(1)
proof (cases rule: workers_step.cases)
  case (step i ws s outs w s' outs')
  have "w \<in> set (ws[i := w])" using step(3) by (rule set_update_memI)
  then have "w \<noteq> Crashed e" for e using workers_ok_no_crash assms(2) step(2) by metis
  then have "awaiting w + replied outs' = awaiting (ws ! i) + replied outs"
    by (rule worker_step_replies [OF step(4)])
  moreover have "sum_list (map awaiting (ws[i := w])) + awaiting (ws ! i) = sum_list (map awaiting ws) + awaiting w"
    by (rule sum_list_map_update [OF step(3)])
  ultimately have "owed W' + awaiting (ws ! i) = owed W + awaiting (ws ! i)"
    using step(1,2) by (simp add: owed_def ac_simps)
  then show ?thesis by simp
qed

lemma owed_steps:
  assumes "(workers_step order)\<^sup>*\<^sup>* W W'" "workers_ok W"
  shows "owed W' = owed W"
  using assms
proof (induction rule: rtranclp_induct)
  case (step V V')
  then show ?case using owed_step worker_pool.inv_steps worker_pool.inv_step by metis
qed simp

lemma served_awaits_nothing: "\<forall>w\<in>set ws. served w \<Longrightarrow> sum_list (map awaiting ws) = {#}"
proof (induction ws)
  case (Cons w ws)
  then show ?case by (cases w) auto
qed simp

fun all_served :: "workers \<Rightarrow> bool" where
  "all_served (ws, s, outs) = (\<forall>w\<in>set ws. served w)"

lemma workers_not_stuck:
  assumes "workers_ok W" "\<not> all_served W"
  shows "\<exists>W'. workers_step order W W'"
proof -
  obtain ws s outs where W: "W = (ws, s, outs)" by (metis prod_cases3)
  have "\<exists>i<length ws. worker_step order (ws ! i) s outs \<noteq> None"
  proof (rule ccontr)
    assume "\<not> (\<exists>i<length ws. worker_step order (ws ! i) s outs \<noteq> None)"
    then have "i < length ws \<Longrightarrow> worker_step order (ws ! i) s outs = None" for i by blast
    then have "\<forall>w\<in>set ws. served w"
      using assms(1) W workers_progress [of ws s outs order] by (simp add: workers_ok_def list_all_iff)
    then show False using assms(2) W by simp
  qed
  then obtain i where "i < length ws" "worker_step order (ws ! i) s outs \<noteq> None" by blast
  then show ?thesis unfolding W using workers_step.step [of i ws order s outs] by fastforce
qed

interpretation workers_end: progress_system workers_start "workers_step order" workers_ok all_served
  "{(W', W). workers_step order W W'}" for order
  by unfold_locales (use workers_step_wf workers_not_stuck in auto)

text \<open>
  C13. Every packet is answered exactly once. However the handler threads of any number of
  requests and discovery messages are interleaved, every run ends, none is stuck before all
  handlers have ended, and by then the addresses that were sent a reply are the addresses
  that wrote, each as often.
\<close>

theorem every_packet_is_answered:
  assumes "workers_start (ws0, s0, [])" and "(workers_step order)\<^sup>*\<^sup>* (ws0, s0, []) (ws, s, outs)"
  shows "wf {(W', W). workers_step order W W'} \<and>
    ((\<exists>W'. workers_step order (ws, s, outs) W') \<or>
     ((\<forall>w\<in>set ws. served w) \<and> replied outs = sum_list (map awaiting ws0)))"
proof -
  have ok: "workers_ok (ws, s, outs)" by (rule worker_pool.inv_reachable [OF assms])
  have owed: "owed (ws, s, outs) = owed (ws0, s0, [])"
    by (rule owed_steps [OF assms(2) worker_pool.inv_start [OF assms(1)]])
  have "replied outs = sum_list (map awaiting ws0)" if "all_served (ws, s, outs)"
    using owed that by (simp add: owed_def served_awaits_nothing)
  then have "(\<exists>W'. workers_step order (ws, s, outs) W') \<or>
      ((\<forall>w\<in>set ws. served w) \<and> replied outs = sum_list (map awaiting ws0))"
    using workers_end.progress [OF ok] by (cases "all_served (ws, s, outs)") auto
  then show ?thesis using workers_step_wf by blast
qed

text \<open>An iteration order that can be evaluated: by increasing addresses.\<close>

definition address_order :: "(in_addr \<rightharpoonup> client_record) \<Rightarrow> in_addr list" where
  "address_order m = sorted_list_of_set (dom m)"

lemma lists_address_order: "lists_keys address_order"
  by (simp add: lists_keys_def address_order_def)

lemma lone_request:
  obtains t snap s outs where "(workers_step address_order)\<^sup>*\<^sup>*
    ([Check \<lparr>sin_port = 5, sin_addr = 1\<rparr> (REQ_Packet 1 2 30)], two_clients, [])
    ([Finishing t [] snap], s, outs)"
proof -
  let ?w = "Check \<lparr>sin_port = 5, sin_addr = 1\<rparr> (REQ_Packet 1 2 30)"
  obtain t snap s outs where "(alone_step address_order)\<^sup>*\<^sup>* (?w, two_clients, []) (Finishing t [] snap, s, outs)"
    using request_alone [OF two_clients_ok lists_address_order] unfolding performs_def by (metis append_Nil)
  then have "(workers_step address_order)\<^sup>*\<^sup>* ([?w], two_clients, []) ([Finishing t [] snap], s, outs)"
    using alone_world [of address_order ?w two_clients "[]" _ s outs 0 "[?w]"] by simp
  then show thesis by (rule that)
qed

theorem every_packet_is_answered_witness:
  "\<exists>t snap s outs. (workers_step address_order)\<^sup>*\<^sup>*
      ([Check \<lparr>sin_port = 5, sin_addr = 1\<rparr> (REQ_Packet 1 2 30)], two_clients, [])
      ([Finishing t [] snap], s, outs) \<and>
    replied outs = {#\<lparr>sin_port = 5, sin_addr = 1\<rparr>#}"
proof -
  let ?w = "Check \<lparr>sin_port = 5, sin_addr = 1\<rparr> (REQ_Packet 1 2 30)"
  obtain t snap s outs where run: "(workers_step address_order)\<^sup>*\<^sup>* ([?w], two_clients, []) ([Finishing t [] snap], s, outs)"
    by (rule lone_request)
  have "workers_start ([?w], two_clients, [])" by (simp add: workers_start_def two_clients_ok)
  moreover have "\<not> workers_step address_order ([Finishing t [] snap], s, outs) W" for W
    by (auto elim!: workers_step_elim)
  ultimately show ?thesis using every_packet_is_answered [OF _ run] run by fastforce
qed

text \<open>
  The workers are the handlers: a worker that nobody interrupts ends with the database of
  the sequential handler and has sent what the handler sends, in its order, for requests, for
  discovery messages and for the closing of accounts.
\<close>

lemma workers_implement_handlers:
  assumes "db_ok s" and "lists_keys order"
  shows "performs order (Check addr p) s (process_req_packet addr p s) \<and>
    performs order (Working (Greeting addr reply) (first_thread (Greeting addr reply))) s
      (discovery_step reply True addr payload s) \<and>
    performs order (Working (Closing addr k) (first_thread (Closing addr k))) s (process_kill_packet addr k s)"
  using request_alone [OF assms] greeting_alone [OF assms] closing_alone [OF assms] by blast

section \<open>The server as a ledger\<close>

lemma all_served_ended:
  assumes "workers_ok (ws, s, outs)" "\<forall>w\<in>set ws. served w"
  shows "list_all ended (map db_thread ws)"
proof -
  have "ended (db_thread w)" if w: "w \<in> set ws" for w
    using assms w by (cases w) (auto simp: workers_ok_def list_all_iff)
  then show ?thesis by (simp add: list_all_iff)
qed

lemma distinct_below: "distinct xs \<Longrightarrow> set xs \<subseteq> {..<n} \<Longrightarrow> length xs \<le> n"
  using card_mono [of "{..<n}" "set xs"] by (simp add: distinct_card)

text \<open>
  C2. The concurrent server is a ledger. However the workers of any number of requests and
  discovery messages interleave, when none can step any more there is an order of those that
  were not refused such that the balances are those of the abstract ledger after the
  transfers and openings in that order, with unbounded numbers and one at a time, and every
  worker was told what the ledger says at its place in the order.
\<close>

theorem concurrent_server_is_ledger:
  assumes "workers_start (ws0, s0, [])" and "(workers_step order)\<^sup>*\<^sup>* (ws0, s0, []) (ws, s, outs)"
    and "\<forall>W. \<not> workers_step order (ws, s, outs) W" and "money s0 + 100000 * length ws0 < 2 ^ 64"
  shows "\<exists>serial. distinct serial \<and>
    set serial = {i. i < length ws0 \<and> (\<forall>e. db_thread (ws ! i) \<noteq> Refused e)} \<and>
    ledger_of s = fold ledger_step (map (\<lambda>i. op_of (db_thread (ws0 ! i))) serial) (ledger_of s0) \<and>
    map (\<lambda>i. outcome (db_thread (ws ! i))) serial =
      map Some (ledger_verdicts (map (\<lambda>i. op_of (db_thread (ws0 ! i))) serial) (ledger_of s0))"
proof -
  let ?first = "map db_thread ws0" and ?final = "map db_thread ws"
  have ok: "workers_ok (ws, s, outs)" by (rule worker_pool.inv_reachable [OF assms(1,2)])
  then have served: "\<forall>w\<in>set ws. served w" using workers_not_stuck assms(3) by (meson all_served.simps)
  have start: "world_start (?first, s0)" "db_ok s0"
    using handler_threads.proj_start [OF assms(1)] assms(1) by (simp_all add: db_view_def workers_start_def)
  have run: "world_step\<^sup>*\<^sup>* (?first, s0) (?final, s)"
    using handler_threads.proj_steps [OF assms(2)] by (simp add: db_view_def)
  obtain serial where serial: "explains ?first s0 serial (?final, s)"
    using explains_steps [OF run explains_start [OF start(1)] start(2) world_ok_start [OF start(1)]] by auto
  have world: "world_ok (?final, s)" using ok by (simp add: workers_ok_def db_view_def)
  note ended = explains_ended [OF serial world all_served_ended [OF ok served]]
  note parts = serial [unfolded explains_def Let_def, simplified]
  have len: "length ws = length ws0" using parts by simp
  have inside: "i < length ws0" if "i \<in> set serial" for i using that parts by simp
  have ops: "map (\<lambda>i. op_of (?first ! i)) serial = map (\<lambda>i. op_of (db_thread (ws0 ! i))) serial"
    "map (\<lambda>i. outcome (?final ! i)) serial = map (\<lambda>i. outcome (db_thread (ws ! i))) serial"
    using inside len by (auto intro!: map_cong)
  have "length serial \<le> length ws0" using parts inside by (intro distinct_below) auto
  then have small: "money s0 + 100000 * length (map (\<lambda>i. op_of (db_thread (ws0 ! i))) serial) < 2 ^ 64"
    using assms(4) by simp
  have told: "map (\<lambda>i. outcome (?final ! i)) serial = told_in_order (map (\<lambda>i. op_of (?first ! i)) serial) s0"
    using parts by simp
  have "set serial = {i. i < length ws0 \<and> (\<forall>e. db_thread (ws ! i) \<noteq> Refused e)}"
    using ended(1) len by auto
  then show ?thesis
    using parts ended(2) told [unfolded ops] db_refines.simulates_fold [OF start(2) small]
      told_by_ledger [OF start(2) small]
    unfolding ops by (intro exI [of _ serial]) simp
qed

text \<open>A transfer between the two clients, alone.\<close>

theorem concurrent_server_is_ledger_witness:
  "\<exists>serial t snap s outs. (workers_step address_order)\<^sup>*\<^sup>*
      ([Check \<lparr>sin_port = 5, sin_addr = 1\<rparr> (REQ_Packet 1 2 30)], two_clients, [])
      ([Finishing t [] snap], s, outs) \<and>
    set serial \<subseteq> {0::nat} \<and>
    ledger_of s = fold ledger_step (map (\<lambda>i. Transact 1 2 30) serial) (ledger_of two_clients)"
proof -
  let ?w = "Check \<lparr>sin_port = 5, sin_addr = 1\<rparr> (REQ_Packet 1 2 30)"
  obtain t snap s outs where run: "(workers_step address_order)\<^sup>*\<^sup>* ([?w], two_clients, []) ([Finishing t [] snap], s, outs)"
    by (rule lone_request)
  have start: "workers_start ([?w], two_clients, [])" by (simp add: workers_start_def two_clients_ok)
  have stop: "\<forall>W. \<not> workers_step address_order ([Finishing t [] snap], s, outs) W"
    by (auto elim!: workers_step_elim)
  have small: "money two_clients + 100000 * length [?w] < 2 ^ 64"
    using two_clients_money by simp
  obtain serial where serial: "set serial = {i. i < length [?w] \<and> (\<forall>e. db_thread ([Finishing t [] snap] ! i) \<noteq> Refused e)}"
    "ledger_of s = fold ledger_step (map (\<lambda>i. op_of (db_thread ([?w] ! i))) serial) (ledger_of two_clients)"
    using concurrent_server_is_ledger [OF start run stop small] by (elim exE conjE)
  have zero: "i = 0" if "i \<in> set serial" for i using serial(1) that by simp
  have "op_of (db_thread ([?w] ! i)) = Transact 1 2 30" if "i \<in> set serial" for i
    using zero [OF that] by (simp add: REQ_Packet_def)
  then have same: "map (\<lambda>i. op_of (db_thread ([?w] ! i))) serial = map (\<lambda>i. Transact 1 2 30) serial"
    by (rule map_cong [OF refl])
  have "ledger_of s = fold ledger_step (map (\<lambda>i. Transact 1 2 30) serial) (ledger_of two_clients)"
    using serial(2) by (simp only: same)
  moreover have "set serial \<subseteq> {0}" using zero by blast
  ultimately show ?thesis using run by blast
qed

section \<open>A copy that was never the database\<close>

text \<open>A copy of which one part was made before and the other part after a change.\<close>

definition torn :: "db_manager \<Rightarrow> in_addr list \<Rightarrow> db_manager \<Rightarrow> in_addr list \<Rightarrow> db_snapshot" where
  "torn s ks1 s' ks2 = \<lparr>metadata = get_db_metadata s,
     records = (\<lambda>x. if x \<in> set ks2 then database_records s' x
                     else if x \<in> set ks1 then database_records s x else None)\<rparr>"

text \<open>A discovery thread that is interrupted while it copies the records.\<close>

lemma greeting_copies_first:
  assumes ok: "db_ok s" and known: "database_records s (sin_addr c) \<noteq> None"
    and keys: "order (database_records s) = ks1 @ ks2"
  shows "\<exists>t. (alone_step order)\<^sup>*\<^sup>* (Working (Greeting c reply) (first_thread (Greeting c reply)), s, outs)
    (Finishing t (map Copy_record ks2 @ [Answer c reply, Broadcast]) (torn s ks1 s []), s, outs)"
proof -
  let ?acts = "[Answer c reply, Broadcast]"
  let ?copied = "blank_snapshot\<lparr>metadata := get_db_metadata s\<rparr>"
  let ?f = "Finished (Inr (respond False no_record DUPLICATE_IP))"
  have "register_client (sin_addr c) s = (Inr (respond False no_record DUPLICATE_IP), s)"
    using ok known by (simp add: db_ok_def register_client_known)
  then have run: "run_alone 6 (first_thread (Greeting c reply)) s = (?f, s)"
    using register_alone [OF ok] by simp
  have "alone_step order (Finishing ?f (Copy_metadata # Copy_records # ?acts) blank_snapshot, s, outs)
      (Finishing ?f (Copy_records # ?acts) ?copied, s, outs)"
    using action_alone [of order ?f Copy_metadata] by simp
  moreover have "alone_step order (Finishing ?f (Copy_records # ?acts) ?copied, s, outs)
      (Finishing ?f (map Copy_record ks1 @ map Copy_record ks2 @ ?acts) ?copied, s, outs)"
    using action_alone [of order ?f Copy_records ?acts ?copied s outs] keys by simp
  moreover have "?copied\<lparr>records := \<lambda>a. if a \<in> set ks1 then database_records s a else records ?copied a\<rparr> = torn s ks1 s []"
    by (auto simp: torn_def blank_snapshot_def fun_eq_iff)
  then have "(alone_step order)\<^sup>*\<^sup>* (Finishing ?f (map Copy_record ks1 @ map Copy_record ks2 @ ?acts) ?copied, s, outs)
      (Finishing ?f (map Copy_record ks2 @ ?acts) (torn s ks1 s []), s, outs)"
    using copy_alone [of order ?f ks1 "map Copy_record ks2 @ ?acts" ?copied s outs] by simp
  ultimately have "(alone_step order)\<^sup>*\<^sup>* (Finishing ?f (after_database (Greeting c reply) (respond False no_record DUPLICATE_IP)) blank_snapshot, s, outs)
      (Finishing ?f (map Copy_record ks2 @ ?acts) (torn s ks1 s []), s, outs)"
    unfolding after_database.simps by (meson converse_rtranclp_into_rtranclp)
  from rtranclp_trans [OF database_alone [OF run] this] show ?thesis by blast
qed

lemma greeting_copies_rest:
  "(alone_step order)\<^sup>*\<^sup>* (Finishing t (map Copy_record ks2 @ [Answer c reply, Broadcast]) (torn s ks1 s []), s', outs)
    (Finishing t [] (torn s ks1 s' ks2), s', outs @ [Reply c reply, Broadcast_update (torn s ks1 s' ks2)])"
proof -
  have "torn s ks1 s []\<lparr>records := \<lambda>a. if a \<in> set ks2 then database_records s' a else records (torn s ks1 s []) a\<rparr> =
      torn s ks1 s' ks2"
    by (auto simp: torn_def fun_eq_iff)
  then have "(alone_step order)\<^sup>*\<^sup>* (Finishing t (map Copy_record ks2 @ [Answer c reply, Broadcast]) (torn s ks1 s []), s', outs)
      (Finishing t [Answer c reply, Broadcast] (torn s ks1 s' ks2), s', outs)"
    using copy_alone [of order t ks2 "[Answer c reply, Broadcast]" "torn s ks1 s []" s' outs] by simp
  from rtranclp_trans [OF this rtranclp_trans [OF answer_alone broadcast_alone]] show ?thesis by simp
qed

lemma interrupted_greeting:
  assumes "db_ok s" and "database_records s (sin_addr c) \<noteq> None"
    and "order (database_records s) = ks1 @ ks2"
    and other: "(alone_step order)\<^sup>*\<^sup>* (w, s, []) (w', s', outs)"
  shows "\<exists>t. (workers_step order)\<^sup>*\<^sup>* ([Working (Greeting c reply) (first_thread (Greeting c reply)), w], s, [])
    ([Finishing t [] (torn s ks1 s' ks2), w'], s', outs @ [Reply c reply, Broadcast_update (torn s ks1 s' ks2)])"
proof -
  let ?g = "Working (Greeting c reply) (first_thread (Greeting c reply))"
  let ?acts = "map Copy_record ks2 @ [Answer c reply, Broadcast]" and ?half = "torn s ks1 s []"
  obtain t where first: "(alone_step order)\<^sup>*\<^sup>* (?g, s, []) (Finishing t ?acts ?half, s, [])"
    using greeting_copies_first [of s c order ks1 ks2 reply "[]"] assms(1-3) by blast
  have "(workers_step order)\<^sup>*\<^sup>* ([?g, w], s, []) ([Finishing t ?acts ?half, w], s, [])"
    using alone_world [OF first, of 0 "[?g, w]"] by simp
  also have "(workers_step order)\<^sup>*\<^sup>* \<dots> ([Finishing t ?acts ?half, w'], s', outs)"
    using alone_world [OF other, of 1 "[Finishing t ?acts ?half, w]"] by simp
  also have "(workers_step order)\<^sup>*\<^sup>* \<dots>
      ([Finishing t [] (torn s ks1 s' ks2), w'], s', outs @ [Reply c reply, Broadcast_update (torn s ks1 s' ks2)])"
    using alone_world [OF greeting_copies_rest, of 0 "[Finishing t ?acts ?half, w']"] by simp
  finally show ?thesis by blast
qed

text \<open>The money in a snapshot, and in a copy that saw one side of a transfer only.\<close>

definition snapshot_money :: "db_snapshot \<Rightarrow> nat" where
  "snapshot_money snap = value_sum (\<lambda>r. unat (balance r)) (records snap)"

lemma load_snapshot_money: "money (load_snapshot snap s) = snapshot_money snap"
  by (simp add: money_def snapshot_money_def load_snapshot_def)

lemma torn_records:
  assumes "set ks1 \<union> set ks2 = dom (database_records s)" "set ks1 \<inter> set ks2 = {}"
    and "database_records s' = (database_records s)(a \<mapsto> r', b \<mapsto> q')" "a \<in> set ks1" "b \<in> set ks2"
  shows "records (torn s ks1 s' ks2) = (database_records s)(b \<mapsto> q')"
    and "records (torn s ks2 s' ks1) = (database_records s)(a \<mapsto> r')"
  using assms by (auto simp: torn_def fun_eq_iff domIff)

lemma torn_money:
  assumes wf: "db_wf s" and a: "database_records s a = Some r" and b: "database_records s b = Some q"
    and covered: "amount \<le> balance r" and room: "unat (balance q) + unat amount < 2 ^ 64"
  shows "value_sum (\<lambda>r. unat (balance r)) ((database_records s)(b \<mapsto> credited amount q)) = money s + unat amount"
    and "value_sum (\<lambda>r. unat (balance r)) ((database_records s)(a \<mapsto> debited amount r)) + unat amount = money s"
proof -
  have fin: "finite (dom (database_records s))" using wf by (simp add: db_wf_def)
  show "value_sum (\<lambda>r. unat (balance r)) ((database_records s)(b \<mapsto> credited amount q)) = money s + unat amount"
    using value_sum_update [OF fin b, of "\<lambda>r. unat (balance r)" "credited amount q"] unat_credit [OF room]
    by (simp add: money_def credited_def)
  have "unat amount \<le> unat (balance r)" using covered by (simp add: word_le_nat_alt)
  then show "value_sum (\<lambda>r. unat (balance r)) ((database_records s)(a \<mapsto> debited amount r)) + unat amount = money s"
    using value_sum_update [OF fin a, of "\<lambda>r. unat (balance r)" "debited amount r"] covered
    by (simp add: money_def unat_debit not_less)
qed

text \<open>A transfer that nobody interrupts, as a worker.\<close>

lemma transfer_alone:
  assumes ok: "db_ok s" and order: "lists_keys order"
    and a: "database_records s (sin_addr addr) = Some r" and b: "database_records s b = Some q"
    and ne: "sin_addr addr \<noteq> b" and pay: "amount \<noteq> 0" "amount \<le> balance r"
  obtains t snap reply s' where
    "(alone_step order)\<^sup>*\<^sup>* (Check addr (REQ_Packet (ucast (last_request r + 1)) b amount), s, [])
       (Finishing t [] snap, s', [Broadcast_update (get_db_snapshot s'), Reply addr reply])"
    "database_records s' = (database_records s)(sin_addr addr \<mapsto> debited amount r, b \<mapsto> credited amount q)"
proof -
  let ?p = "REQ_Packet (ucast (last_request r + 1)) b amount" and ?a = "sin_addr addr"
  obtain s' where settle: "settle ?a b amount s = (Inr (respond True (debited amount r) SUCCESS), s')"
    and rec: "database_records s' = (database_records s)(?a \<mapsto> debited amount r, b \<mapsto> credited amount q)"
    using a b ne pay by (simp add: settle_def not_less [symmetric])
  have "check_packet_status ?p (known_record ?a s) = VALID"
    using a by (simp add: check_valid_iff REQ_Packet_def ucast_32_64_32)
  then have "process_req_packet addr ?p s = (Inr [Broadcast_update (get_db_snapshot s'),
      Reply addr (ACK_Packet_to_string (transaction_reply ?a ?p (respond True (debited amount r) SUCCESS)))], s')"
    using process_req_settles [OF ok] settle by (simp add: REQ_Packet_def)
  then show thesis
    using request_alone [OF ok order, of addr ?p] that rec unfolding performs_def
    by (metis Pair_inject append_Nil sum.inject(2))
qed

text \<open>
  C14. The copy for a broadcast takes no mutex, and it can be torn. While the discovery thread
  of a registered client copies the table, a transfer can run from check to reply. If the
  sender's record was copied before it and the receiver's after it, the broadcast holds the
  amount twice; the other way round the amount is missing. The torn copy is broadcast after
  the correct one, so that a replica that loads the broadcasts in their order ends with the
  wrong sum, though the coordinator has lost nothing.
\<close>

theorem broadcast_can_be_torn:
  assumes "db_ok s" and "lists_keys order" and "order (database_records s) = ks1 @ ks2"
    and "database_records s (sin_addr addr) = Some r" and "database_records s b = Some q"
    and "sin_addr addr \<noteq> b" and "amount \<noteq> 0" and "amount \<le> balance r" and "money s < 2 ^ 64"
    and "database_records s (sin_addr c) \<noteq> None"
  shows "\<exists>t1 t2 snap1 snap2 s' ack. (workers_step order)\<^sup>*\<^sup>*
      ([Working (Greeting c reply) (first_thread (Greeting c reply)),
        Check addr (REQ_Packet (ucast (last_request r + 1)) b amount)], s, [])
      ([Finishing t1 [] snap1, Finishing t2 [] snap2], s',
       [Broadcast_update (get_db_snapshot s'), Reply addr ack, Reply c reply, Broadcast_update snap1]) \<and>
    money s' = money s \<and>
    (sin_addr addr \<in> set ks1 \<and> b \<in> set ks2 \<longrightarrow> money (load_snapshot snap1 replica) = money s' + unat amount) \<and>
    (b \<in> set ks1 \<and> sin_addr addr \<in> set ks2 \<longrightarrow> money (load_snapshot snap1 replica) + unat amount = money s')"
proof -
  let ?a = "sin_addr addr"
  have wf: "db_wf s" using assms(1) by (simp add: db_ok_def)
  have keys: "set ks1 \<union> set ks2 = dom (database_records s)" "set ks1 \<inter> set ks2 = {}"
    using assms(2,3) unfolding lists_keys_def by (metis set_append, metis distinct_append)
  have room: "unat (balance q) + unat amount < 2 ^ 64"
    using money_two [OF wf assms(4,5,6)] assms(8,9) by (simp add: word_le_nat_alt)
  obtain t2 snap2 ack s' where
      run: "(alone_step order)\<^sup>*\<^sup>* (Check addr (REQ_Packet (ucast (last_request r + 1)) b amount), s, [])
        (Finishing t2 [] snap2, s', [Broadcast_update (get_db_snapshot s'), Reply addr ack])"
    and rec: "database_records s' = (database_records s)(?a \<mapsto> debited amount r, b \<mapsto> credited amount q)"
    by (rule transfer_alone [OF assms(1,2,4-8)])
  have same: "money s' = money s"
    using money_transfer [OF wf assms(4,5,6) _ assms(9), of amount] assms(8) rec
    by (simp add: money_def not_less)
  note one_side = torn_money [OF wf assms(4,5,8) room]
  have twice: "?a \<in> set ks1 \<Longrightarrow> b \<in> set ks2 \<Longrightarrow> snapshot_money (torn s ks1 s' ks2) = money s + unat amount"
    using torn_records(1) [OF keys rec] one_side(1) by (simp add: snapshot_money_def)
  have missing: "b \<in> set ks1 \<Longrightarrow> ?a \<in> set ks2 \<Longrightarrow> snapshot_money (torn s ks1 s' ks2) + unat amount = money s"
    using torn_records(2) [of ks2 ks1, OF _ _ rec] keys one_side(2) by (simp add: snapshot_money_def Int_commute Un_commute)
  show ?thesis
    using interrupted_greeting [OF assms(1,10,3) run, of reply] same twice missing
    by (fastforce simp: load_snapshot_money)
qed

lemma two_clients_total: "money two_clients = 200000"
proof -
  have "dom (database_records two_clients) = {1, 2}" by (auto simp: two_clients_records)
  then show ?thesis by (simp add: money_def value_sum_def two_clients_records)
qed

theorem broadcast_can_be_torn_witness:
  "\<exists>W s' snap1 outs. (workers_step address_order)\<^sup>*\<^sup>*
      ([Working (Greeting \<lparr>sin_port = 5, sin_addr = 2\<rparr> ''LOC'') (Reg Reg_start 2),
        Check \<lparr>sin_port = 5, sin_addr = 1\<rparr> (REQ_Packet 1 2 30)], two_clients, [])
      (W, s', outs @ [Broadcast_update snap1]) \<and>
    money s' = 200000 \<and> money (load_snapshot snap1 DbManager) = 200030"
proof -
  have keys: "address_order (database_records two_clients) = [1] @ [2]"
  proof -
    have "dom (database_records two_clients) = {1, 2}" by (auto simp: two_clients_records)
    then show ?thesis by (simp add: address_order_def)
  qed
  let ?g = "Working (Greeting \<lparr>sin_port = 5, sin_addr = 2\<rparr> ''LOC'') (Reg Reg_start 2)"
  let ?w = "Check \<lparr>sin_port = 5, sin_addr = 1\<rparr> (REQ_Packet 1 2 30)"
  obtain t1 t2 snap1 snap2 s' ack where
    "(workers_step address_order)\<^sup>*\<^sup>* ([?g, ?w], two_clients, [])
      ([Finishing t1 [] snap1, Finishing t2 [] snap2], s',
       [Broadcast_update (get_db_snapshot s'), Reply \<lparr>sin_port = 5, sin_addr = 1\<rparr> ack,
        Reply \<lparr>sin_port = 5, sin_addr = 2\<rparr> ''LOC''] @ [Broadcast_update snap1])"
    "money s' = 200000" "money (load_snapshot snap1 DbManager) = 200030"
    using broadcast_can_be_torn [OF two_clients_ok lists_address_order keys, of "\<lparr>sin_port = 5, sin_addr = 1\<rparr>"
        "\<lparr>ip = 1, balance = 100000, last_request = 0\<rparr>" 2 "\<lparr>ip = 2, balance = 100000, last_request = 0\<rparr>" 30
        "\<lparr>sin_port = 5, sin_addr = 2\<rparr>" "''LOC''" DbManager] two_clients_total
    by (auto simp: two_clients_records)
  then show ?thesis by blast
qed

section \<open>A removal between unlock and reply\<close>

lemma record_removed:
  assumes "db_ok s"
  shows "database_records (snd (remove_client a s)) a = None"
  using assms by (cases "database_records s a")
    (simp_all add: db_ok_def remove_client_known remove_client_unknown)

text \<open>
  C15. One client can end the server. A transaction reads the sender's record for its response
  after it has released the mutexes. When the same client closes its account at that moment,
  the handler of its request fails: a balance check or a transfer to itself looks the record up
  with \<open>at\<close>, outside every \<open>try\<close>, so the exception leaves the thread and ends the process; a
  transfer to another client, refused or executed, copies the record through a pointer to
  memory that was freed. This holds for every valid request of a registered client, unless its
  receiver is unknown.
\<close>

theorem removal_ends_server:
  assumes "db_ok s" and "database_records s (sin_addr addr) = Some r"
    and "check_packet_status p (known_record (sin_addr addr) s) = VALID"
    and "transfer_amount p = 0 \<or> database_records s (receiver_ip p) \<noteq> None"
    and "sin_addr addr' = sin_addr addr"
  shows "\<exists>res s'. (workers_step order)\<^sup>*\<^sup>*
      ([Check addr p, Working (Closing addr' k) (first_thread (Closing addr' k))], s, outs)
      ([Crashed (if transfer_amount p = 0 \<or> receiver_ip p = sin_addr addr then Out_of_range
                 else Undefined_behaviour),
        Working (Closing addr' k) (Finished (Inr res))], s', outs) \<and>
    s' = snd (remove_client (sin_addr addr)
           (snd (make_transaction (sin_addr addr) (receiver_ip p) (transfer_amount p) s)))"
proof -
  let ?a = "sin_addr addr" and ?b = "receiver_ip p" and ?m = "transfer_amount p"
  let ?job = "Request addr p" and ?kill = "Closing addr' k"
  let ?s1 = "snd (make_transaction ?a ?b ?m s)"
  let ?e = "if ?m = 0 \<or> ?b = ?a then Out_of_range else Undefined_behaviour"
  obtain n ok d where reading: "run_alone n (Txn Txn_start ?a ?b ?m) s =
      (Txn (if ?m = 0 \<or> ?a = ?b then Txn_read ok d else Txn_reply ok d) ?a ?b ?m, ?s1)"
    using transaction_reads_last [OF assms(1,2,4)] by blast
  let ?t = "Txn (if ?m = 0 \<or> ?a = ?b then Txn_read ok d else Txn_reply ok d) ?a ?b ?m"
  have ok1: "db_ok ?s1" using assms(1) by (rule db_ok_transaction)
  let ?s2 = "snd (remove_client ?a ?s1)"
  obtain res where res: "fst (remove_client ?a ?s1) = Inr res"
    using db_service.returns [OF ok1, of "Remove ?a"] by auto
  let ?kw = "Working ?kill (first_thread ?kill)" and ?kf = "Working ?kill (Finished (Inr res))"
  have "alone_step order (Check addr p, s, outs) (Working ?job (first_thread ?job), s, outs)"
    using assms(3) by (simp add: alone_step_def)
  moreover have "(alone_step order)\<^sup>*\<^sup>* (Working ?job (first_thread ?job), s, outs) (Working ?job ?t, ?s1, outs)"
    using working_alone [OF reading] by simp
  ultimately have "(alone_step order)\<^sup>*\<^sup>* (Check addr p, s, outs) (Working ?job ?t, ?s1, outs)"
    by (rule converse_rtranclp_into_rtranclp)
  then have one: "(workers_step order)\<^sup>*\<^sup>* ([Check addr p, ?kw], s, outs) ([Working ?job ?t, ?kw], ?s1, outs)"
    using alone_world [where i = 0 and ws = "[Check addr p, ?kw]"] by simp
  have "run_alone 7 (first_thread ?kill) ?s1 = (Finished (Inr res), ?s2)"
    using remove_alone [OF ok1] res assms(5) by simp
  then have two: "(workers_step order)\<^sup>*\<^sup>* ([Working ?job ?t, ?kw], ?s1, outs) ([Working ?job ?t, ?kf], ?s2, outs)"
    using alone_world [OF working_alone, where i = 1 and ws = "[Working ?job ?t, ?kw]"] by simp
  have "run_alone 1 ?t ?s2 = (Finished (Inl ?e), ?s2)"
    using record_removed [OF ok1, of ?a] by auto
  then have "(alone_step order)\<^sup>*\<^sup>* (Working ?job ?t, ?s2, outs) (Working ?job (Finished (Inl ?e)), ?s2, outs)"
    by (rule working_alone)
  moreover have "alone_step order (Working ?job (Finished (Inl ?e)), ?s2, outs) (Crashed ?e, ?s2, outs)"
    by (simp add: alone_step_def)
  ultimately have "(alone_step order)\<^sup>*\<^sup>* (Working ?job ?t, ?s2, outs) (Crashed ?e, ?s2, outs)"
    by (rule rtranclp.rtrancl_into_rtrancl)
  then have three: "(workers_step order)\<^sup>*\<^sup>* ([Working ?job ?t, ?kf], ?s2, outs) ([Crashed ?e, ?kf], ?s2, outs)"
    using alone_world [where i = 0 and ws = "[Working ?job ?t, ?kf]"] by simp
  show ?thesis using rtranclp_trans [OF one rtranclp_trans [OF two three]] by blast
qed

theorem removal_ends_server_witness:
  "\<exists>w s'. (workers_step address_order)\<^sup>*\<^sup>*
      ([Check \<lparr>sin_port = 5, sin_addr = 1\<rparr> (REQ_Packet 1 2 0),
        Working (Closing \<lparr>sin_port = 5, sin_addr = 1\<rparr> KIL_Packet)
          (first_thread (Closing \<lparr>sin_port = 5, sin_addr = 1\<rparr> KIL_Packet))], two_clients, [])
      ([Crashed Out_of_range, w], s', [])"
proof -
  have "check_packet_status (REQ_Packet 1 2 0) (known_record 1 two_clients) = VALID"
    by (simp add: check_valid_iff REQ_Packet_def two_clients_records)
  then show ?thesis
    using removal_ends_server [OF two_clients_ok, of "\<lparr>sin_port = 5, sin_addr = 1\<rparr>" _ "REQ_Packet 1 2 0"
        "\<lparr>sin_port = 5, sin_addr = 1\<rparr>" address_order KIL_Packet "[]"]
    by (simp add: two_clients_records REQ_Packet_def) blast
qed

end
