(* ===== verification/Sockets.thy ===== *)
theory Sockets
  imports Socket_Utils
begin

text \<open>
  The functions of \<open>socket_utils.cpp\<close> that make system calls: creating a UDP socket, switching
  broadcasts on, binding, the receive timeout of a descriptor, and \<open>get_self_ip\<close>. The kernel is
  a parameter: for each system call whether it succeeds in a given table of sockets. The table
  itself, which descriptors are open and how they are set up, is explicit state. A function
  that calls \<open>exit\<close> ends the process.
\<close>

section \<open>The kernel\<close>

record sockets =
  open_fds :: "int set"
  broadcast_fds :: "int set"
  bound_to :: "int \<rightharpoonup> sockaddr_in"
  timeout_of :: "int \<rightharpoonup> timeval"

text \<open>
  \<open>socket_call\<close> gives the new descriptor or a negative number; the other fields say whether
  \<open>setsockopt\<close> and \<open>bind\<close> succeed; \<open>route_addr\<close> is the local address that \<open>connect\<close> picks.
\<close>

record kernel =
  socket_call :: "sockets \<Rightarrow> int"
  broadcast_call :: "int \<Rightarrow> sockets \<Rightarrow> bool"
  timeout_call :: "int \<Rightarrow> sockets \<Rightarrow> timeval \<Rightarrow> bool"
  bind_call :: "int \<Rightarrow> sockaddr_in \<Rightarrow> sockets \<Rightarrow> bool"
  route_addr :: in_addr

datatype 'a process = Exited | Running 'a

fun and_then :: "'a process \<Rightarrow> ('a \<Rightarrow> 'b process) \<Rightarrow> 'b process" where
  "and_then Exited f = Exited"
| "and_then (Running x) f = f x"

definition no_sockets :: sockets where
  "no_sockets = \<lparr>open_fds = {}, broadcast_fds = {}, bound_to = Map.empty, timeout_of = Map.empty\<rparr>"

definition close_fd :: "int \<Rightarrow> sockets \<Rightarrow> sockets" where
  "close_fd fd S = S\<lparr>open_fds := open_fds S - {fd}, broadcast_fds := broadcast_fds S - {fd},
     bound_to := (bound_to S)(fd := None), timeout_of := (timeout_of S)(fd := None)\<rparr>"

section \<open>The calls\<close>

definition create_udp_socket :: "kernel \<Rightarrow> sockets \<Rightarrow> (int \<times> sockets) process" where
  "create_udp_socket k S =
     (let sockfd = socket_call k S
      in if sockfd < 0 then Exited else Running (sockfd, S\<lparr>open_fds := insert sockfd (open_fds S)\<rparr>))"

definition enable_broadcast :: "kernel \<Rightarrow> int \<Rightarrow> sockets \<Rightarrow> sockets process" where
  "enable_broadcast k sockfd S =
     (if \<not> broadcast_call k sockfd S then Exited
      else Running (S\<lparr>broadcast_fds := insert sockfd (broadcast_fds S)\<rparr>))"

definition bind_to_sockaddr :: "kernel \<Rightarrow> int \<Rightarrow> sockaddr_in \<Rightarrow> sockets \<Rightarrow> int \<times> sockets" where
  "bind_to_sockaddr k sockfd addr S =
     (if \<not> bind_call k sockfd addr S then (-1, close_fd sockfd S)
      else (0, S\<lparr>bound_to := (bound_to S)(sockfd \<mapsto> addr)\<rparr>))"

text \<open>\<open>set_timeout\<close> on the table: what \<open>Socket_Utils.set_timeout\<close> decides is carried out.\<close>

definition set_timeout_fd :: "kernel \<Rightarrow> int \<Rightarrow> int \<Rightarrow> sockets \<Rightarrow> int \<times> sockets" where
  "set_timeout_fd k sockfd timeout_ms S =
     (case set_timeout (timeout_call k sockfd S) timeout_ms of
        (rc, closed, tv) \<Rightarrow>
          (rc, if closed then close_fd sockfd S else S\<lparr>timeout_of := (timeout_of S)(sockfd := tv)\<rparr>))"

text \<open>
  \<open>get_self_ip\<close>: the static variable \<open>ip\<close> starts as the text \<open>undefined\<close>, is filled by the
  first call and answers all later ones. The socket of the first call stays open.
\<close>

definition undefined_ip :: string where
  "undefined_ip = ''undefined''"

definition get_self_ip :: "kernel \<Rightarrow> string \<Rightarrow> sockets \<Rightarrow> (string \<times> string \<times> sockets) process" where
  "get_self_ip k cached_ip S =
     (if cached_ip \<noteq> undefined_ip then Running (cached_ip, cached_ip, S)
      else case create_udp_socket k S of
             Exited \<Rightarrow> Exited
           | Running (sock, S1) \<Rightarrow>
               (case enable_broadcast k sock S1 of
                  Exited \<Rightarrow> Exited
                | Running S2 \<Rightarrow>
                    (let my_ip = inet_ntop (route_addr k) in Running (my_ip, my_ip, S2))))"

section \<open>Lemmas\<close>

lemma inet_ntop_defined: "inet_ntop a \<noteq> undefined_ip"
proof
  assume "inet_ntop a = undefined_ip"
  then have "inet_addr undefined_ip = a" by (metis inet_addr_inet_ntop)
  moreover have "length (inet_ntop a) \<le> 15" using length_inet_ntop by blast
  moreover have "CHR ''.'' \<in> set (inet_ntop a)" by (simp add: inet_ntop_def)
  ultimately show False using \<open>inet_ntop a = undefined_ip\<close> by (simp add: undefined_ip_def)
qed

text \<open>
  A kernel that hands out descriptors that are not in use, as POSIX demands, and one that in
  addition never refuses.
\<close>

definition fresh_fds :: "kernel \<Rightarrow> bool" where
  "fresh_fds k \<longleftrightarrow> (\<forall>S. finite (open_fds S) \<longrightarrow> socket_call k S \<notin> open_fds S)"

definition never_refuses :: "kernel \<Rightarrow> bool" where
  "never_refuses k \<longleftrightarrow> fresh_fds k \<and> (\<forall>S. 0 \<le> socket_call k S) \<and>
     (\<forall>fd S. broadcast_call k fd S) \<and> (\<forall>fd S tv. timeout_call k fd S tv) \<and>
     (\<forall>fd a S. bind_call k fd a S)"

text \<open>
  A kernel that lets the process have at most \<open>n\<close> descriptors, as \<open>RLIMIT_NOFILE\<close> does, and takes
  every timeout; and one such kernel, which numbers the descriptors upwards.
\<close>

definition descriptor_limit :: "nat \<Rightarrow> kernel \<Rightarrow> bool" where
  "descriptor_limit n k \<longleftrightarrow>
     (\<forall>S. finite (open_fds S) \<longrightarrow>
        (if n \<le> card (open_fds S) then socket_call k S < 0
         else 0 \<le> socket_call k S \<and> socket_call k S \<notin> open_fds S)) \<and>
     (\<forall>fd S tv. timeout_call k fd S tv)"

definition limited_kernel :: "nat \<Rightarrow> kernel" where
  "limited_kernel n = \<lparr>socket_call = (\<lambda>S. if n \<le> card (open_fds S) then -1
       else Max (insert 2 (open_fds S)) + 1),
     broadcast_call = (\<lambda>_ _. True), timeout_call = (\<lambda>_ _ _. True), bind_call = (\<lambda>_ _ _. True),
     route_addr = 0x0100000a\<rparr>"

lemma limited_kernel: "descriptor_limit n (limited_kernel n)"
proof -
  have "Max (insert 2 A) + 1 \<notin> A" if "finite A" for A :: "int set"
    using that Max_ge [of "insert 2 A" "Max (insert 2 A) + 1"] by auto
  moreover have "0 \<le> Max (insert 2 A) + 1" if "finite A" for A :: "int set"
  proof -
    have "2 \<le> Max (insert 2 A)" using that by simp
    then show ?thesis by linarith
  qed
  ultimately show ?thesis by (simp add: descriptor_limit_def limited_kernel_def)
qed

text \<open>A socket for one exchange: it is new, and closing it leaves the descriptors as they were.\<close>

lemma limited_socket:
  assumes "descriptor_limit n k" "finite (open_fds S)"
  shows "create_udp_socket k S = (if n \<le> card (open_fds S) then Exited
      else Running (socket_call k S, S\<lparr>open_fds := insert (socket_call k S) (open_fds S)\<rparr>))"
    and "\<not> n \<le> card (open_fds S) \<Longrightarrow> socket_call k S \<notin> open_fds S"
  using assms(1) [unfolded descriptor_limit_def, THEN conjunct1, rule_format, OF assms(2)]
  by (auto simp: create_udp_socket_def Let_def split: if_splits)

lemma open_after_timeout:
  "descriptor_limit n k \<Longrightarrow> open_fds (snd (set_timeout_fd k fd t S)) = open_fds S"
  by (simp add: descriptor_limit_def set_timeout_fd_def set_timeout_def Let_def)

lemma open_after_close [simp]: "open_fds (close_fd fd S) = open_fds S - {fd}"
  by (simp add: close_fd_def)

lemma create_udp_socket_fresh:
  "fresh_fds k \<Longrightarrow> finite (open_fds S) \<Longrightarrow> create_udp_socket k S = Running (fd, S') \<Longrightarrow>
   fd \<notin> open_fds S \<and> 0 \<le> fd \<and> open_fds S' = insert fd (open_fds S) \<and> bound_to S' = bound_to S"
  by (auto simp: create_udp_socket_def fresh_fds_def Let_def split: if_splits)

text \<open>
  The address of the node is asked from the kernel once: whatever the kernel answers later,
  every later call returns the same text and opens no socket.
\<close>

lemma self_ip_once:
  assumes "get_self_ip k undefined_ip S = Running (ip, cached, S')"
  shows "ip = inet_ntop (route_addr k) \<and> cached = ip \<and>
    get_self_ip k' cached S'' = Running (ip, cached, S'')"
  using assms inet_ntop_defined
  by (auto simp: get_self_ip_def Let_def split: process.splits)

end
