(* ===== verification/Client_Discovery.thy ===== *)
theory Client_Discovery
  imports Sockets
begin

text \<open>
  The client's discovery protocol (\<open>client_discovery_protocol.cpp\<close>): the parser of the
  location message and the bounded retry loop. The network is a parameter: a function that
  takes the address and the text of a sent datagram and answers with the outcome of the
  \<open>recvfrom\<close> that follows it, on a state of its own. The loop passes an uninitialised \<open>len\<close>
  to \<open>recvfrom\<close>: a negative value makes the call fail, which the network parameter can answer
  with \<open>Nothing_received\<close>; otherwise the model takes it to be large enough for the sender's address.
\<close>

type_synonym 'e network = "sockaddr_in \<Rightarrow> string \<Rightarrow> 'e \<Rightarrow> received \<times> 'e"

definition DISCOVERY_MAXLINE :: nat where
  "DISCOVERY_MAXLINE = 2048"

section \<open>The location message\<close>

text \<open>
  The return code and what is stored through the two pointers. \<open>pointers\<close> says that both
  are not null. The copied text passed \<open>inet_pton\<close>, so it fits the caller's 16 bytes.
\<close>

definition extract_ip_and_port_from_response ::
  "string \<Rightarrow> bool \<Rightarrow> int \<times> (string \<times> i32) option" where
  "extract_ip_and_port_from_response response pointers =
     (if take 3 response \<noteq> ''LOC'' then (-1, None)
      else case strtok_blank response of None \<Rightarrow> (-4, None) | Some (_, r1) \<Rightarrow>
      (case strtok_blank r1 of None \<Rightarrow> (-4, None) | Some (ip_str, r2) \<Rightarrow>
      (case strtok_blank r2 of None \<Rightarrow> (-4, None) | Some (port_str, r3) \<Rightarrow>
      (case strtok_blank r3 of None \<Rightarrow> (-4, None) | Some (end_str, _) \<Rightarrow>
         if end_str \<noteq> ''END'' then (-4, None)
         else if inet_pton ip_str = None then (-2, None)
         else let port = atoi port_str
              in if sint port \<le> 0 \<or> 65535 < sint port then (-3, None)
                 else if \<not> pointers then (-5, None)
                 else (0, Some (ip_str, port))))))"

section \<open>The retry loop\<close>

definition discovery_message :: string where
  "discovery_message = ''DIS END''"

text \<open>
  \<open>recvfrom\<close> stores the sender's address in \<open>servaddr\<close>, the address the next retry sends to.
\<close>

fun discovery_loop ::
  "'e network \<Rightarrow> nat \<Rightarrow> sockaddr_in \<Rightarrow> 'e \<Rightarrow> (string \<times> i32) option \<times> 'e" where
  "discovery_loop net 0 servaddr e = (None, e)"
| "discovery_loop net (Suc retries) servaddr e =
     (case net servaddr discovery_message e of
        (Nothing_received, e') \<Rightarrow> discovery_loop net retries servaddr e'
      | (Datagram src payload, e') \<Rightarrow>
          (let (address_is_valid, location) =
                 extract_ip_and_port_from_response (buffer_text DISCOVERY_MAXLINE payload) True
           in if address_is_valid \<noteq> 0 then discovery_loop net retries src e' else (location, e')))"

definition client_discovery_protocol ::
  "'e network \<Rightarrow> string \<Rightarrow> i32 \<Rightarrow> nat \<Rightarrow> 'e \<Rightarrow> (string \<times> i32) option \<times> 'e" where
  "client_discovery_protocol net broadcast_ip broadcast_port max_retries e =
     discovery_loop net max_retries (create_sockaddr broadcast_ip broadcast_port) e"

text \<open>
  The whole function, from the socket it opens to the socket it closes. \<open>create_udp_socket\<close> and
  \<open>enable_broadcast\<close> can end the process; \<open>set_timeout\<close> closes the socket when it fails, which is
  not looked at, and then nothing is sent or received. The dispatcher's model uses
  \<open>client_discovery_protocol\<close>, the part after these calls, on the assumption that they succeed.
\<close>

definition on_socket :: "bool \<Rightarrow> 'e network \<Rightarrow> 'e network" where
  "on_socket is_open net addr msg e = (if is_open then net addr msg e else (Nothing_received, e))"

definition client_discovery_process ::
  "kernel \<Rightarrow> 'e network \<Rightarrow> string \<Rightarrow> i32 \<Rightarrow> nat \<Rightarrow> int \<Rightarrow> sockets \<times> 'e \<Rightarrow>
   ((string \<times> i32) option \<times> sockets \<times> 'e) process" where
  "client_discovery_process k net broadcast_ip broadcast_port max_retries initial_timeout_ms st =
     (case st of (S, e) \<Rightarrow>
        and_then (create_udp_socket k S) (\<lambda>(sockfd, S).
          and_then (enable_broadcast k sockfd S) (\<lambda>S.
            let S = snd (set_timeout_fd k sockfd initial_timeout_ms S);
                (location, e) = client_discovery_protocol (on_socket (sockfd \<in> open_fds S) net)
                  broadcast_ip broadcast_port max_retries e
            in Running (location, close_fd sockfd S, e))))"

section \<open>Lemmas\<close>

lemma on_socket_open [simp]: "on_socket True net = net"
  by (simp add: on_socket_def fun_eq_iff)

lemma atoi_show_nat: "n < 2 ^ 31 \<Longrightarrow> atoi (show_nat n) = of_nat n"
  by (simp add: atoi_def text_simps signed_value_def)

lemma extract_code:
  "fst (extract_ip_and_port_from_response t b) = 0 \<longleftrightarrow> snd (extract_ip_and_port_from_response t b) \<noteq> None"
  by (simp add: extract_ip_and_port_from_response_def Let_def split: option.split)

text \<open>A location message as the server prints it, read by the client.\<close>

lemma extract_location:
  assumes "0 \<le> sint p"
  shows "extract_ip_and_port_from_response
      (''LOC '' @ inet_ntop a @ '' '' @ show_int (sint p) @ '' END'') True =
    (if 0 < sint p \<and> sint p \<le> 65535 then (0, Some (inet_ntop a, p)) else (-3, None))"
proof -
  have text_p: "show_int (sint p) = show_nat (nat (sint p))"
    using assms by (simp add: show_int_def)
  have small: "nat (sint p) < 2 ^ 31"
    using sint_range_32 [of p] assms by simp
  have port: "atoi (show_nat (nat (sint p))) = p"
    using atoi_show_nat [OF small] assms by simp
  have t1: "strtok_blank (''LOC '' @ s) = Some (''LOC'', s)" for s
    using strtok_blank_word [of "''LOC''" s] by (simp add: text_simps)
  have t2: "strtok_blank (inet_ntop a @ '' '' @ s) = Some (inet_ntop a, s)" for s
    using strtok_blank_word [of "inet_ntop a" s] by (simp add: text_simps)
  have t3: "strtok_blank (show_nat n @ '' END'') = Some (show_nat n, ''END'')" for n
    using strtok_blank_word [of "show_nat n" "''END''"] by (simp add: text_simps)
  have t4: "strtok_blank ''END'' = Some (''END'', [])"
    by (simp add: text_simps)
  show ?thesis
    unfolding extract_ip_and_port_from_response_def text_p
    using t1 t2 t3 t4 port by (simp add: inet_pton_inet_ntop Let_def)
qed

text \<open>A network that plays a script of outcomes (timeouts after its end) and records what is sent.\<close>

definition scripted :: "((sockaddr_in \<times> string) list \<times> received list) network" where
  "scripted addr msg e =
     (case e of (sent, script) \<Rightarrow>
        (case script of
           [] \<Rightarrow> (Nothing_received, sent @ [(addr, msg)], [])
         | ev # evs \<Rightarrow> (ev, sent @ [(addr, msg)], evs)))"

lemma scripted_simps [simp]:
  "scripted addr msg (sent, []) = (Nothing_received, sent @ [(addr, msg)], [])"
  "scripted addr msg (sent, ev # evs) = (ev, sent @ [(addr, msg)], evs)"
  by (simp_all add: scripted_def)

definition location_in :: "received \<Rightarrow> (string \<times> i32) option" where
  "location_in ev =
     (case ev of Nothing_received \<Rightarrow> None
      | Datagram _ payload \<Rightarrow>
          snd (extract_ip_and_port_from_response (buffer_text DISCOVERY_MAXLINE payload) True))"

fun first_location :: "received list \<Rightarrow> (string \<times> i32) option" where
  "first_location [] = None"
| "first_location (ev # evs) =
     (case location_in ev of None \<Rightarrow> first_location evs | Some l \<Rightarrow> Some l)"

lemma discovery_loop_scripted:
  "fst (discovery_loop scripted k servaddr (sent, script)) = first_location (take k script)"
proof (induction k arbitrary: servaddr sent script)
  case (Suc k)
  show ?case
    by (cases script)
      (auto simp: Suc.IH location_in_def split_beta extract_code Let_def
        split: received.split option.split)
qed simp

text \<open>Each retry goes to the broadcast address or to a host that has already been heard.\<close>

fun targets :: "sockaddr_in \<Rightarrow> received list \<Rightarrow> nat \<Rightarrow> sockaddr_in list" where
  "targets servaddr script 0 = []"
| "targets servaddr [] (Suc k) = servaddr # targets servaddr [] k"
| "targets servaddr (ev # evs) (Suc k) =
     servaddr #
       (if location_in ev \<noteq> None then []
        else targets (case ev of Nothing_received \<Rightarrow> servaddr | Datagram src _ \<Rightarrow> src) evs k)"

lemma discovery_loop_sent:
  "fst (snd (discovery_loop scripted k servaddr (sent, script))) =
     sent @ map (\<lambda>a. (a, discovery_message)) (targets servaddr script k)"
proof (induction servaddr script k arbitrary: sent rule: targets.induct)
  case (3 servaddr ev evs k)
  then show ?case
    by (cases ev) (auto simp: location_in_def split_beta extract_code Let_def)
qed simp_all

lemma length_targets: "length (targets servaddr script k) \<le> k"
  by (induction servaddr script k rule: targets.induct) auto

section \<open>Properties\<close>

text \<open>
  What the discovery loop returns: the location in the first reply that holds one, among
  at most \<open>max_retries\<close> replies, and nothing if there is none; it sends at most
  \<open>max_retries\<close> messages, the first to the broadcast address.
\<close>

lemma discovery_takes_first_location:
  "fst (client_discovery_protocol scripted broadcast_ip port k ([], script)) =
     first_location (take k script) \<and>
   (\<exists>as. fst (snd (client_discovery_protocol scripted broadcast_ip port k ([], script))) =
       map (\<lambda>a. (a, discovery_message)) as \<and> length as \<le> k \<and>
     (0 < k \<longrightarrow> hd as = create_sockaddr broadcast_ip port))"
proof -
  let ?b = "create_sockaddr broadcast_ip port"
  have "0 < k \<longrightarrow> hd (targets ?b script k) = ?b"
    by (cases k; cases script) auto
  then show ?thesis
    using length_targets [of ?b script k]
    by (auto simp: client_discovery_protocol_def discovery_loop_scripted discovery_loop_sent)
qed

text \<open>
  With its sockets: on a kernel that refuses nothing the function is the protocol of above and
  leaves the descriptors as they were; where no socket can be made it ends the program.
\<close>

lemma discovery_keeps_descriptors:
  assumes "fresh_fds k" "finite (open_fds S)"
  shows "never_refuses k \<Longrightarrow> \<exists>S'. client_discovery_process k net bip bport n t (S, e) =
      Running (fst (client_discovery_protocol net bip bport n e), S',
        snd (client_discovery_protocol net bip bport n e)) \<and> open_fds S' = open_fds S"
    and "socket_call k S < 0 \<Longrightarrow> client_discovery_process k net bip bport n t (S, e) = Exited"
  using assms
  by (auto simp: client_discovery_process_def never_refuses_def create_udp_socket_def enable_broadcast_def
      set_timeout_fd_def set_timeout_def fresh_fds_def split_beta Let_def not_less)

text \<open>
  One stray datagram ends the search: a reply that is no location message makes its
  sender the target of every later discovery message, so the broadcast address is not tried
  again while nothing else is heard.
\<close>

lemma stray_reply_diverts_discovery:
  assumes "location_in (Datagram src payload) = None"
  shows "fst (snd (client_discovery_protocol scripted broadcast_ip port (Suc k)
      ([], Datagram src payload # replicate n Nothing_received))) =
    (create_sockaddr broadcast_ip port, discovery_message) # replicate k (src, discovery_message)"
proof -
  have "targets a (replicate n Nothing_received) k = replicate k a" for a
  proof (induction k arbitrary: n)
    case (Suc k)
    then show ?case by (cases n) (use Suc [of 0] in \<open>auto simp: location_in_def\<close>)
  qed simp
  then show ?thesis
    using assms
    by (simp add: client_discovery_protocol_def discovery_loop_sent del: discovery_loop.simps)
qed

end
