(* ===== verification/Client_Dispatcher.thy ===== *)
theory Client_Dispatcher
  imports Client_Discovery "HOL-Library.While_Combinator"
begin

text \<open>
  The client (\<open>client_request_transfer.cpp\<close> and its \<open>main.cpp\<close>): the parsing of user input
  into requests, the queue, the dispatch of one request with its retries, and the thread
  that empties the queue. The network is the parameter of \<open>Client_Discovery\<close>. When the
  discovery fails, \<open>locate_request_server\<close> goes on with an uninitialised buffer and port;
  their content is the parameter \<open>garbage\<close>.
\<close>

section \<open>client_request_transfer.h\<close>

datatype request_type = REQ_REQUEST | KILL_REQUEST | ERROR_REQUEST

record request_t =
  dest_ip :: in_addr
  request_amount :: u64
  request_kind :: request_type

record dispatcher =
  is_alive :: bool
  servaddr :: sockaddr_in
  location_service_port :: i32
  request_queue :: "request_t list"
  current_request :: i32

definition CLIENT_MAXLINE :: nat where
  "CLIENT_MAXLINE = 2048"

definition MAX_RETRIES :: nat where
  "MAX_RETRIES = 5"

section \<open>Requests from user input\<close>

text \<open>\<open>invalid_argument\<close> is caught and reported; \<open>out_of_range\<close> leaves the function.\<close>

definition error_request :: request_t where
  "error_request = \<lparr>dest_ip = 0, request_amount = 0, request_kind = ERROR_REQUEST\<rparr>"

definition kill_request :: request_t where
  "kill_request = \<lparr>dest_ip = 0, request_amount = 0, request_kind = KILL_REQUEST\<rparr>"

definition request_from_string :: "string \<Rightarrow> cpp_error + request_t" where
  "request_from_string input =
     (let ts = tokens input
      in if length ts \<noteq> 2 then Inr error_request
         else case stoul (ts ! 1) of
                Inl Invalid_argument \<Rightarrow> Inr error_request
              | Inl e \<Rightarrow> Inl e
              | Inr amount \<Rightarrow>
                  Inr \<lparr>dest_ip = inet_addr (ts ! 0), request_amount = amount,
                       request_kind = REQ_REQUEST\<rparr>)"

definition queue_request :: "request_t \<Rightarrow> dispatcher \<Rightarrow> dispatcher" where
  "queue_request r d =
     (if request_kind r = ERROR_REQUEST then d else d\<lparr>request_queue := request_queue d @ [r]\<rparr>)"

definition queue_test :: "string \<Rightarrow> dispatcher \<Rightarrow> cpp_error + dispatcher" where
  "queue_test test_string d =
     (let ts = tokens test_string;
          target_ip = (if 1 < length ts then ts ! 1 else ''10.33.1.2'')
      in case request_from_string (target_ip @ '' 1'') of
           Inl e \<Rightarrow> Inl e
         | Inr r \<Rightarrow> Inr ((queue_request r ^^ 100000) d))"

section \<open>Locating the server\<close>

definition locate_request_server ::
  "'e network \<Rightarrow> string \<times> i32 \<Rightarrow> dispatcher \<Rightarrow> 'e \<Rightarrow> dispatcher \<times> 'e" where
  "locate_request_server net garbage d e =
     (let (location, e') =
            client_discovery_protocol net ''255.255.255.255'' (location_service_port d) 5 e;
          (request_server_ip, request_server_port) =
            (case location of None \<Rightarrow> garbage | Some l \<Rightarrow> l)
      in (d\<lparr>servaddr := create_sockaddr request_server_ip request_server_port\<rparr>, e'))"

definition RequestDispatcher :: "'e network \<Rightarrow> string \<times> i32 \<Rightarrow> i32 \<Rightarrow> 'e \<Rightarrow> dispatcher \<times> 'e" where
  "RequestDispatcher net garbage port e =
     locate_request_server net garbage
       \<lparr>is_alive = True, servaddr = \<lparr>sin_port = 0, sin_addr = 0\<rparr>, location_service_port = port,
        request_queue = [], current_request = 1\<rparr> e"

section \<open>One request\<close>

text \<open>
  \<open>current_request\<close> is an \<open>int\<close>: the sum of the packet's \<open>long\<close> and 1 is cut to 32 bits. (On
  the largest \<open>long\<close> the source overflows, which is undefined; the model wraps.)
\<close>

definition handle_response :: "ack_packet \<Rightarrow> dispatcher \<Rightarrow> bool \<times> dispatcher" where
  "handle_response response d =
     (result response = ''SUCCESS'' \<or> result response = ''BALANCE_CHECK'' \<or>
      result response = ''KILL'',
      d\<lparr>current_request := ucast (seq_num response + 1)\<rparr>)"

definition serialized_request :: "request_t \<Rightarrow> dispatcher \<Rightarrow> string" where
  "serialized_request r d =
     (case request_kind r of
        REQ_REQUEST \<Rightarrow>
          REQ_Packet_to_string (REQ_Packet (scast (current_request d)) (dest_ip r) (request_amount r))
      | KILL_REQUEST \<Rightarrow> ''KIL END''
      | ERROR_REQUEST \<Rightarrow> [])"

text \<open>
  \<open>dispatch_request\<close>: up to five tries. The first component of the result is the response
  that is reported to the user; a request that is given up is reported only in a debug build.
\<close>

fun dispatch_loop ::
  "'e network \<Rightarrow> string \<times> i32 \<Rightarrow> nat \<Rightarrow> request_t \<Rightarrow> dispatcher \<Rightarrow> 'e \<Rightarrow>
   ack_packet option \<times> dispatcher \<times> 'e" where
  "dispatch_loop net garbage 0 r d e = (None, d, e)"
| "dispatch_loop net garbage (Suc retries) r d e =
     (case net (servaddr d) (serialized_request r d) e of
        (Nothing_received, e1) \<Rightarrow>
          (let (d1, e2) = locate_request_server net garbage d e1
           in dispatch_loop net garbage retries r d1 e2)
      | (Datagram src payload, e1) \<Rightarrow>
          (let d1 = d\<lparr>servaddr := src\<rparr>
           in case to_ACK_Packet (buffer_text CLIENT_MAXLINE payload) of
                Inl _ \<Rightarrow> dispatch_loop net garbage retries r d1 e1
              | Inr response \<Rightarrow>
                  (let (ok, d2) = handle_response response d1
                   in if ok then (Some response, d2, e1)
                      else dispatch_loop net garbage retries r d2 e1)))"

definition dispatch_request ::
  "'e network \<Rightarrow> string \<times> i32 \<Rightarrow> request_t \<Rightarrow> dispatcher \<Rightarrow> 'e \<Rightarrow>
   ack_packet option \<times> dispatcher \<times> 'e" where
  "dispatch_request net garbage r d e = dispatch_loop net garbage MAX_RETRIES r d e"

section \<open>The dispatcher thread and main\<close>

text \<open>
  \<open>process_requests\<close> on its own, between two pushes by the main thread: an iteration yields
  on an empty queue and dispatches the front request otherwise. The list collects what was
  reported to the user.
\<close>

type_synonym 'e thread_state = "ack_packet option list \<times> dispatcher \<times> 'e"

definition thread_running :: "'e thread_state \<Rightarrow> bool" where
  "thread_running t = (case t of (out, d, e) \<Rightarrow> is_alive d \<or> request_queue d \<noteq> [])"

definition thread_iteration ::
  "'e network \<Rightarrow> string \<times> i32 \<Rightarrow> 'e thread_state \<Rightarrow> 'e thread_state" where
  "thread_iteration net garbage t =
     (case t of (out, d, e) \<Rightarrow>
        (case request_queue d of
           [] \<Rightarrow> (out, d, e)
         | r # rs \<Rightarrow>
             (let (res, d', e') = dispatch_request net garbage r (d\<lparr>request_queue := rs\<rparr>) e
              in (out @ [res], d', e'))))"

definition process_requests ::
  "'e network \<Rightarrow> string \<times> i32 \<Rightarrow> 'e thread_state \<Rightarrow> 'e thread_state option" where
  "process_requests net garbage t = while_option thread_running (thread_iteration net garbage) t"

text \<open>The loop of \<open>main\<close> over the input lines, and what follows it.\<close>

definition main_line :: "string \<Rightarrow> dispatcher \<Rightarrow> cpp_error + dispatcher" where
  "main_line input d =
     (if take 4 input = ''TEST'' then queue_test input d
      else case request_from_string input of Inl e \<Rightarrow> Inl e | Inr r \<Rightarrow> Inr (queue_request r d))"

fun main_loop :: "string list \<Rightarrow> dispatcher \<Rightarrow> cpp_error + dispatcher" where
  "main_loop [] d = Inr ((queue_request kill_request d)\<lparr>is_alive := False\<rparr>)"
| "main_loop (input # inputs) d =
     (case main_line input d of Inl e \<Rightarrow> Inl e | Inr d' \<Rightarrow> main_loop inputs d')"

section \<open>Lemmas\<close>

lemma locate_frame [simp]:
  "is_alive (fst (locate_request_server net g d e)) = is_alive d"
  "request_queue (fst (locate_request_server net g d e)) = request_queue d"
  "current_request (fst (locate_request_server net g d e)) = current_request d"
  "location_service_port (fst (locate_request_server net g d e)) = location_service_port d"
  by (simp_all add: locate_request_server_def split_beta)

lemma handle_response_frame [simp]:
  "is_alive (snd (handle_response a d)) = is_alive d"
  "request_queue (snd (handle_response a d)) = request_queue d"
  by (simp_all add: handle_response_def)

lemma dispatch_loop_frame:
  "is_alive (fst (snd (dispatch_loop net g k r d e))) = is_alive d \<and>
   request_queue (fst (snd (dispatch_loop net g k r d e))) = request_queue d"
proof (induction k arbitrary: d e)
  case (Suc k)
  show ?case
    by (simp add: Suc.IH split_beta Let_def split: received.split sum.split)
qed simp

lemma dispatch_request_frame [simp]:
  "is_alive (fst (snd (dispatch_request net g r d e))) = is_alive d"
  "request_queue (fst (snd (dispatch_request net g r d e))) = request_queue d"
  by (simp_all add: dispatch_request_def dispatch_loop_frame)

text \<open>The requests of a queue, dispatched one after the other.\<close>

fun dispatch_all ::
  "'e network \<Rightarrow> string \<times> i32 \<Rightarrow> request_t list \<Rightarrow> dispatcher \<Rightarrow> 'e \<Rightarrow> 'e thread_state" where
  "dispatch_all net g [] d e = ([], d, e)"
| "dispatch_all net g (r # rs) d e =
     (let (res, d1, e1) = dispatch_request net g r (d\<lparr>request_queue := rs\<rparr>) e;
          (out, d2, e2) = dispatch_all net g rs d1 e1
      in (res # out, d2, e2))"

lemma dispatch_all_frame:
  "length (fst (dispatch_all net g rs d e)) = length rs \<and>
   is_alive (fst (snd (dispatch_all net g rs d e))) = is_alive d \<and>
   (request_queue d = rs \<longrightarrow> request_queue (fst (snd (dispatch_all net g rs d e))) = [])"
  by (induction rs arbitrary: d e) (auto simp: split_beta Let_def)

lemma funpow_fixed: "f x = x \<Longrightarrow> (f ^^ k) x = x"
  by (induction k) simp_all

lemma process_requests_drains:
  "\<not> is_alive d \<Longrightarrow> request_queue d = rs \<Longrightarrow>
   process_requests net g (out, d, e) =
     Some (case dispatch_all net g rs d e of (res, d', e') \<Rightarrow> (out @ res, d', e'))"
proof (induction rs arbitrary: out d e)
  case Nil
  then show ?case by (simp add: process_requests_def while_option_unfold thread_running_def)
next
  case (Cons r rs)
  obtain res d1 e1 where step: "dispatch_request net g r (d\<lparr>request_queue := rs\<rparr>) e = (res, d1, e1)"
    by (metis prod_cases3)
  have frame: "\<not> is_alive d1" "request_queue d1 = rs"
    using Cons.prems(1) dispatch_request_frame [of net g r "d\<lparr>request_queue := rs\<rparr>" e] step by simp_all
  have "process_requests net g (out, d, e) = process_requests net g (out @ [res], d1, e1)"
    unfolding process_requests_def
    by (subst while_option_unfold) (simp add: thread_running_def thread_iteration_def Cons.prems step)
  then show ?case
    using Cons.IH [OF frame] step by (simp add: split_beta)
qed

text \<open>The datagrams a scripted network has seen.\<close>

lemma length_discovery_sent:
  "length (fst (snd (discovery_loop scripted k a (sent, script)))) \<le> length sent + k"
  using length_targets [of a script k] by (simp add: discovery_loop_sent)

lemma length_locate_sent:
  "length (fst (snd (locate_request_server scripted g d e))) \<le> length (fst e) + 5"
  using length_discovery_sent [of 5 _ "fst e" "snd e"]
  by (simp add: locate_request_server_def client_discovery_protocol_def split_beta)

lemma fst_snd_scripted [simp]: "fst (snd (scripted a m e)) = fst e @ [(a, m)]"
  by (cases e; cases "snd e") simp_all

lemma dispatch_loop_sent:
  "length (fst (snd (snd (dispatch_loop scripted g k r d e)))) \<le> length (fst e) + 6 * k"
proof (induction k arbitrary: d e)
  case (Suc k)
  obtain ev e1 where ev: "scripted (servaddr d) (serialized_request r d) e = (ev, e1)"
    by (metis prod.collapse)
  have len: "length (fst e1) = length (fst e) + 1"
    using fst_snd_scripted [of "servaddr d" "serialized_request r d" e] ev by simp
  show ?case
  proof (cases ev)
    case Nothing_received
    let ?l = "locate_request_server scripted g d e1"
    show ?thesis
      using Suc.IH [of "fst ?l" "snd ?l"] length_locate_sent [of g d e1] len ev Nothing_received
      by (simp add: split_beta)
  next
    case (Datagram src payload)
    show ?thesis
    proof (cases "to_ACK_Packet (buffer_text CLIENT_MAXLINE payload)")
      case (Inl err)
      then show ?thesis
        using Suc.IH [of "d\<lparr>servaddr := src\<rparr>" e1] len ev Datagram by simp
    next
      case (Inr a)
      then show ?thesis
        using Suc.IH [of "snd (handle_response a (d\<lparr>servaddr := src\<rparr>))" e1] len ev Datagram
        by (simp add: split_beta Let_def)
    qed
  qed
qed simp

lemma tokens_two:
  assumes "no_space v" "no_space w"
  shows "tokens (v @ '' '' @ w) = [v, w]"
  using assms tokens_unwords [of "[v, w]"] by simp

section \<open>Properties\<close>

text \<open>
  The dispatcher thread serves the queue in order: once the client is closing, it
  terminates, after one dispatch per queued request, first in first out, with the queue
  empty; while the client is open and the queue is empty it keeps running.
\<close>

lemma requests_served_in_order:
  "(\<not> is_alive d \<longrightarrow>
     process_requests net g (out, d, e) =
       Some (case dispatch_all net g (request_queue d) d e of (res, d', e') \<Rightarrow> (out @ res, d', e')) \<and>
     length (fst (dispatch_all net g (request_queue d) d e)) = length (request_queue d) \<and>
     request_queue (fst (snd (dispatch_all net g (request_queue d) d e))) = []) \<and>
   (is_alive d \<and> request_queue d = [] \<longrightarrow> process_requests net g (out, d, e) = None)"
proof (intro conjI impI)
  assume idle: "is_alive d \<and> request_queue d = []"
  then have "thread_iteration net g (out, d, e) = (out, d, e)"
    by (simp add: thread_iteration_def)
  then have "(thread_iteration net g ^^ k) (out, d, e) = (out, d, e)" for k
    by (rule funpow_fixed)
  then show "process_requests net g (out, d, e) = None"
    using idle by (simp add: process_requests_def while_option_def thread_running_def)
qed (simp_all add: process_requests_drains dispatch_all_frame)

definition closing_client :: dispatcher where
  "closing_client = \<lparr>is_alive = False, servaddr = \<lparr>sin_port = 0, sin_addr = 0\<rparr>,
     location_service_port = 4000, request_queue = [kill_request], current_request = 1\<rparr>"

text \<open>
  Giving up is certain: whatever the network does, one request costs at most 30
  datagrams, five tries and five discovery messages after each try that times out.
\<close>

lemma dispatch_sends_at_most_30:
  "length (fst (snd (snd (dispatch_request scripted g r d ([], script))))) \<le> 30"
  using dispatch_loop_sent [of g 5 r d "([], script)"] by (simp add: dispatch_request_def MAX_RETRIES_def)

text \<open>
  What the client accepts as input. The address is not checked: a word that is no
  address becomes the request to the broadcast address. A negative amount wraps to a huge
  one, and an amount of 65 bits or more ends the client with an uncaught \<open>out_of_range\<close>.
\<close>

lemma request_input_checks:
  assumes "no_space w"
  shows "request_from_string (w @ '' '' @ show_nat n) =
      (if n < 2 ^ 64 then Inr \<lparr>dest_ip = inet_addr w, request_amount = of_nat n, request_kind = REQ_REQUEST\<rparr>
       else Inl Out_of_range) \<and>
    (n < 2 ^ 64 \<longrightarrow> request_from_string (w @ '' -'' @ show_nat n) =
       Inr \<lparr>dest_ip = inet_addr w, request_amount = - of_nat n, request_kind = REQ_REQUEST\<rparr>) \<and>
    request_from_string ''banana 1'' =
      Inr \<lparr>dest_ip = INADDR_NONE, request_amount = 1, request_kind = REQ_REQUEST\<rparr> \<and>
    request_from_string w = Inr error_request"
proof -
  have minus: "no_space (CHR ''-'' # show_nat n)"
    using show_nat_no_space [of n] by (simp add: no_space_def)
  have banana: "no_space ''banana''" by (simp add: no_space_def isspace_def)
  have neg: "tokens (w @ '' -'' @ show_nat n) = [w, CHR ''-'' # show_nat n]"
    using tokens_two [OF assms minus] by simp
  have ban: "tokens ''banana 1'' = [''banana'', ''1'']"
    using tokens_two [OF banana, of "''1''"] by (simp add: no_space_def isspace_def)
  have one: "stoul ''1'' = Inr 1"
    using stoul_show_nat [of 1] show_nat_one by simp
  show ?thesis
    using tokens_two [OF assms show_nat_no_space] neg ban one assms
    by (simp add: request_from_string_def stoul_def text_simps signed_value_def inet_addr_invalid)
qed

end
