(* ===== verification/Client_Threads.thy ===== *)
theory Client_Threads
  imports Client_Dispatcher
begin

text \<open>
  The two threads of the client (\<open>client_request_transfer.cpp\<close>, \<open>main.cpp\<close>): the main thread
  reads the input, pushes requests under the mutex of the queue, and closes the client; the
  dispatcher thread tests \<open>is_alive\<close> and the queue without the mutex, takes the front request
  under it, and dispatches it. Steps are single reads, writes and lock calls, in any
  interleaving; one dispatch is one step, since the main thread touches nothing it uses. The
  order of the two threads turns out to be invisible: every finished run is the sequential
  run of \<open>Client_Dispatcher\<close>.
\<close>

section \<open>The main thread\<close>

definition TEST_REQUESTS :: nat where
  "TEST_REQUESTS = 100000"

text \<open>The requests of one input line, in the order in which they are queued.\<close>

definition line_requests :: "string \<Rightarrow> cpp_error + request_t list" where
  "line_requests input =
     (if take 4 input = ''TEST''
      then (let ts = tokens input;
                target_ip = (if 1 < length ts then ts ! 1 else ''10.33.1.2'')
            in case request_from_string (target_ip @ '' 1'') of
                 Inl e \<Rightarrow> Inl e | Inr r \<Rightarrow> Inr (replicate TEST_REQUESTS r))
      else case request_from_string input of Inl e \<Rightarrow> Inl e | Inr r \<Rightarrow> Inr [r])"

text \<open>
  Where the main thread is. The lists are the requests that the current line still has to
  queue and the lines after it; \<open>None\<close> marks the request that ends the program.
\<close>

datatype main_pc =
    Main_read "string list"
  | Main_lock "request_t list" "string list option"
  | Main_push "request_t list" "string list option"
  | Main_unlock "request_t list" "string list option"
  | Main_close
  | Main_join
  | Main_done
  | Main_crashed cpp_error

datatype disp_pc =
    Disp_alive
  | Disp_pending
  | Disp_empty
  | Disp_lock
  | Disp_front
  | Disp_pop request_t
  | Disp_unlock request_t
  | Disp_dispatch request_t
  | Disp_close
  | Disp_ended
  | Disp_undefined

fun main_step :: "main_pc \<Rightarrow> disp_pc \<Rightarrow> dispatcher \<Rightarrow> bool \<Rightarrow> (main_pc \<times> dispatcher \<times> bool) option" where
  "main_step (Main_read []) t d lk = Some (Main_lock [kill_request] None, d, lk)"
| "main_step (Main_read (input # inputs)) t d lk =
     Some (case line_requests input of Inl e \<Rightarrow> Main_crashed e | Inr rs \<Rightarrow> Main_lock rs (Some inputs), d, lk)"
| "main_step (Main_lock [] next_lines) t d lk =
     Some (case next_lines of None \<Rightarrow> Main_close | Some inputs \<Rightarrow> Main_read inputs, d, lk)"
| "main_step (Main_lock (r # rs) next_lines) t d lk =
     (if request_kind r = ERROR_REQUEST then Some (Main_lock rs next_lines, d, lk)
      else if lk then None
      else Some (Main_push (r # rs) next_lines, d, True))"
| "main_step (Main_push rs next_lines) t d lk =
     Some (Main_unlock (tl rs) next_lines, d\<lparr>request_queue := request_queue d @ [hd rs]\<rparr>, lk)"
| "main_step (Main_unlock rs next_lines) t d lk = Some (Main_lock rs next_lines, d, False)"
| "main_step Main_close t d lk = Some (Main_join, d\<lparr>is_alive := False\<rparr>, lk)"
| "main_step Main_join t d lk = (if t = Disp_ended then Some (Main_done, d, lk) else None)"
| "main_step Main_done t d lk = None"
| "main_step (Main_crashed e) t d lk = None"

section \<open>The dispatcher thread\<close>

text \<open>
  The test of the loop reads \<open>is_alive\<close> and then, if needed, the queue. \<open>front\<close> and \<open>pop\<close> of an
  empty queue are undefined. The last component collects what was dispatched.
\<close>

type_synonym report = "request_t \<times> ack_packet option"

fun disp_step ::
  "'e network \<Rightarrow> string \<times> i32 \<Rightarrow> disp_pc \<Rightarrow> dispatcher \<Rightarrow> bool \<Rightarrow> report list \<Rightarrow> 'e \<Rightarrow>
   (disp_pc \<times> dispatcher \<times> bool \<times> report list \<times> 'e) option" where
  "disp_step net g Disp_alive d lk out e =
     Some (if is_alive d then Disp_empty else Disp_pending, d, lk, out, e)"
| "disp_step net g Disp_pending d lk out e =
     Some (if request_queue d = [] then Disp_close else Disp_empty, d, lk, out, e)"
| "disp_step net g Disp_empty d lk out e =
     Some (if request_queue d = [] then Disp_alive else Disp_lock, d, lk, out, e)"
| "disp_step net g Disp_lock d lk out e = (if lk then None else Some (Disp_front, d, True, out, e))"
| "disp_step net g Disp_front d lk out e =
     Some (case request_queue d of [] \<Rightarrow> Disp_undefined | r # rs \<Rightarrow> Disp_pop r, d, lk, out, e)"
| "disp_step net g (Disp_pop r) d lk out e =
     Some (case request_queue d of
             [] \<Rightarrow> (Disp_undefined, d, lk, out, e)
           | q # rs \<Rightarrow> (Disp_unlock r, d\<lparr>request_queue := rs\<rparr>, lk, out, e))"
| "disp_step net g (Disp_unlock r) d lk out e = Some (Disp_dispatch r, d, False, out, e)"
| "disp_step net g (Disp_dispatch r) d lk out e =
     (let (res, d', e') = dispatch_request net g r d e in Some (Disp_alive, d', lk, out @ [(r, res)], e'))"
| "disp_step net g Disp_close d lk out e = Some (Disp_ended, d, lk, out, e)"
| "disp_step net g Disp_ended d lk out e = None"
| "disp_step net g Disp_undefined d lk out e = None"

text \<open>Both threads. An exception that leaves the main thread ends the process.\<close>

type_synonym 'e client = "main_pc \<times> disp_pc \<times> dispatcher \<times> bool \<times> report list \<times> 'e"

fun crashed :: "main_pc \<Rightarrow> bool" where
  "crashed (Main_crashed e) = True"
| "crashed m = False"

inductive client_step :: "'e network \<Rightarrow> string \<times> i32 \<Rightarrow> 'e client \<Rightarrow> 'e client \<Rightarrow> bool" for net g where
  main: "main_step m t d lk = Some (m', d', lk') \<Longrightarrow>
    client_step net g (m, t, d, lk, out, e) (m', t, d', lk', out, e)"
| dispatcher: "disp_step net g t d lk out e = Some (t', d', lk', out', e') \<Longrightarrow> \<not> crashed m \<Longrightarrow>
    client_step net g (m, t, d, lk, out, e) (m, t', d', lk', out', e')"

inductive_cases client_step_elim: "client_step net g (m, t, d, lk, out, e) c"

section \<open>The sequential run\<close>

text \<open>What the input queues before the program ends or an exception leaves \<open>main\<close>.\<close>

fun input_requests :: "string list \<Rightarrow> request_t list" where
  "input_requests [] = [kill_request]"
| "input_requests (input # inputs) =
     (case line_requests input of Inl e \<Rightarrow> [] | Inr rs \<Rightarrow> rs @ input_requests inputs)"

definition valid_requests :: "request_t list \<Rightarrow> request_t list" where
  "valid_requests rs = filter (\<lambda>r. request_kind r \<noteq> ERROR_REQUEST) rs"

lemma valid_requests_simps [simp]:
  "valid_requests [] = []"
  "valid_requests (r # rs) = (if request_kind r = ERROR_REQUEST then valid_requests rs else r # valid_requests rs)"
  "valid_requests (rs @ rs') = valid_requests rs @ valid_requests rs'"
  by (simp_all add: valid_requests_def)

lemma queue_requests: "fold queue_request rs d = d\<lparr>request_queue := request_queue d @ valid_requests rs\<rparr>"
  by (induction rs arbitrary: d) (simp_all add: queue_request_def)

lemma fold_replicate_funpow: "fold f (replicate n x) = f x ^^ n"
  by (induction n) (simp_all add: funpow_swap1 fun_eq_iff comp_def)

lemma main_line_requests:
  "main_line input d =
     (case line_requests input of
        Inl e \<Rightarrow> Inl e | Inr rs \<Rightarrow> Inr (d\<lparr>request_queue := request_queue d @ valid_requests rs\<rparr>))"
proof (cases "take 4 input = ''TEST''")
  case True
  then show ?thesis
    using queue_requests [of "replicate TEST_REQUESTS _" d]
    by (simp add: main_line_def line_requests_def queue_test_def Let_def TEST_REQUESTS_def
        fold_replicate_funpow split: sum.split)
next
  case False
  then show ?thesis using queue_requests [of "[_]" d]
    by (simp add: main_line_def line_requests_def split: sum.split)
qed

text \<open>The exception that ends \<open>main\<close>, if a line causes one.\<close>

fun input_crash :: "string list \<Rightarrow> cpp_error option" where
  "input_crash [] = None"
| "input_crash (input # inputs) =
     (case line_requests input of Inl e \<Rightarrow> Some e | Inr rs \<Rightarrow> input_crash inputs)"

lemma main_loop_requests:
  "main_loop inputs d =
     (case input_crash inputs of Some e \<Rightarrow> Inl e
      | None \<Rightarrow> Inr (d\<lparr>is_alive := False, request_queue := request_queue d @ valid_requests (input_requests inputs)\<rparr>))"
  by (induction inputs arbitrary: d)
    (auto simp: main_line_requests queue_request_def kill_request_def split: sum.splits option.splits)

text \<open>A dispatch neither reads nor changes \<open>is_alive\<close> and the queue.\<close>

definition idle :: "dispatcher \<Rightarrow> dispatcher" where
  "idle d = d\<lparr>is_alive := False, request_queue := []\<rparr>"

lemma idle_simps [simp]:
  "idle (d\<lparr>request_queue := q\<rparr>) = idle d" "idle (d\<lparr>is_alive := b\<rparr>) = idle d"
  "idle (d\<lparr>servaddr := a\<rparr>) = (idle d)\<lparr>servaddr := a\<rparr>"
  "idle (d\<lparr>current_request := k\<rparr>) = (idle d)\<lparr>current_request := k\<rparr>"
  "servaddr (idle d) = servaddr d" "current_request (idle d) = current_request d"
  "location_service_port (idle d) = location_service_port d"
  "\<not> is_alive (idle d)" "request_queue (idle d) = []"
  by (simp_all add: idle_def)

lemma idle_same: "\<not> is_alive d \<Longrightarrow> request_queue d = [] \<Longrightarrow> idle d = d"
  by (simp add: idle_def)

lemma idle_locate:
  "locate_request_server net g (idle d) e = apfst idle (locate_request_server net g d e)"
  by (simp add: locate_request_server_def split_beta)

lemma idle_response: "handle_response a (idle d) = apsnd idle (handle_response a d)"
  by (simp add: handle_response_def)

lemma idle_serialized: "serialized_request r (idle d) = serialized_request r d"
  by (simp add: serialized_request_def cong: request_type.case_cong)

lemma idle_dispatch_loop:
  "dispatch_loop net g k r (idle d) e = apsnd (apfst idle) (dispatch_loop net g k r d e)"
proof (induction k arbitrary: d e)
  case (Suc k)
  have addr: "(idle d)\<lparr>servaddr := a\<rparr> = idle (d\<lparr>servaddr := a\<rparr>)" for a by simp
  show ?case
    by (simp add: idle_serialized idle_locate idle_response Suc.IH addr split_beta Let_def
        del: idle_simps(3) split: received.split sum.split)
qed simp

text \<open>The requests of a list, one after the other, by an idle dispatcher.\<close>

fun serve :: "'e network \<Rightarrow> string \<times> i32 \<Rightarrow> request_t list \<Rightarrow> dispatcher \<Rightarrow> 'e \<Rightarrow> report list \<times> dispatcher \<times> 'e" where
  "serve net g [] d e = ([], d, e)"
| "serve net g (r # rs) d e =
     (let (res, d1, e1) = dispatch_request net g r d e; (out, d2, e2) = serve net g rs d1 e1
      in ((r, res) # out, d2, e2))"

lemma serve_snoc:
  "serve net g (rs @ [r]) d e =
     (let (out, d1, e1) = serve net g rs d e; (res, d2, e2) = dispatch_request net g r d1 e1
      in (out @ [(r, res)], d2, e2))"
  by (induction rs arbitrary: d e) (simp_all add: split_beta Let_def)

lemma idle_dispatch:
  "dispatch_request net g r (idle d) e = apsnd (apfst idle) (dispatch_request net g r d e)"
  by (simp add: dispatch_request_def idle_dispatch_loop)

lemma dispatch_all_serve:
  "serve net g rs (idle d) e =
     (case dispatch_all net g rs d e of (out, d', e') \<Rightarrow> (zip rs out, idle d', e'))"
proof (induction rs arbitrary: d e)
  case (Cons r rs)
  have same: "dispatch_request net g r (idle d) e = apsnd (apfst idle) (dispatch_request net g r (d\<lparr>request_queue := rs\<rparr>) e)"
    using idle_dispatch [of net g r "d\<lparr>request_queue := rs\<rparr>" e] by simp
  show ?case by (simp add: same Cons.IH split_beta Let_def)
qed simp

section \<open>Every interleaving\<close>

text \<open>What the main thread has still to queue, and the exception it is heading for.\<close>

fun after_line :: "string list option \<Rightarrow> request_t list" where
  "after_line None = []"
| "after_line (Some inputs) = input_requests inputs"

fun to_queue :: "main_pc \<Rightarrow> request_t list" where
  "to_queue (Main_read inputs) = input_requests inputs"
| "to_queue (Main_lock rs n) = rs @ after_line n"
| "to_queue (Main_push rs n) = rs @ after_line n"
| "to_queue (Main_unlock rs n) = rs @ after_line n"
| "to_queue m = []"

fun crash_after :: "string list option \<Rightarrow> cpp_error option" where
  "crash_after None = None"
| "crash_after (Some inputs) = input_crash inputs"

fun crash_ahead :: "main_pc \<Rightarrow> cpp_error option" where
  "crash_ahead (Main_read inputs) = input_crash inputs"
| "crash_ahead (Main_lock rs n) = crash_after n"
| "crash_ahead (Main_push rs n) = crash_after n"
| "crash_ahead (Main_unlock rs n) = crash_after n"
| "crash_ahead (Main_crashed e) = Some e"
| "crash_ahead m = None"

fun main_holds :: "main_pc \<Rightarrow> bool" where
  "main_holds (Main_push rs n) = True"
| "main_holds (Main_unlock rs n) = True"
| "main_holds m = False"

fun disp_holds :: "disp_pc \<Rightarrow> bool" where
  "disp_holds Disp_front = True"
| "disp_holds (Disp_pop r) = True"
| "disp_holds (Disp_unlock r) = True"
| "disp_holds t = False"

fun closed :: "main_pc \<Rightarrow> bool" where
  "closed Main_join = True"
| "closed Main_done = True"
| "closed m = False"

fun main_fits :: "main_pc \<Rightarrow> disp_pc \<Rightarrow> bool" where
  "main_fits (Main_push rs n) t = (rs \<noteq> [] \<and> request_kind (hd rs) \<noteq> ERROR_REQUEST)"
| "main_fits Main_done t = (t = Disp_ended)"
| "main_fits m t = True"

text \<open>What the dispatcher knows about the queue at each point.\<close>

fun disp_fits :: "disp_pc \<Rightarrow> dispatcher \<Rightarrow> bool" where
  "disp_fits Disp_lock d = (request_queue d \<noteq> [])"
| "disp_fits Disp_front d = (request_queue d \<noteq> [])"
| "disp_fits (Disp_pop r) d = (request_queue d \<noteq> [] \<and> hd (request_queue d) = r)"
| "disp_fits Disp_pending d = (\<not> is_alive d)"
| "disp_fits Disp_close d = (\<not> is_alive d \<and> request_queue d = [])"
| "disp_fits Disp_ended d = (\<not> is_alive d \<and> request_queue d = [])"
| "disp_fits Disp_undefined d = False"
| "disp_fits t d = True"

fun in_hand :: "disp_pc \<Rightarrow> request_t list" where
  "in_hand (Disp_unlock r) = [r]"
| "in_hand (Disp_dispatch r) = [r]"
| "in_hand t = []"

text \<open>
  The invariant, for the input \<open>inputs\<close>: nothing is lost or reordered on the way from the
  input to the reports, the mutex has one holder, and what was dispatched so far is what an
  undisturbed dispatcher does.
\<close>

definition client_ok ::
  "'e network \<Rightarrow> string \<times> i32 \<Rightarrow> string list \<Rightarrow> dispatcher \<Rightarrow> 'e \<Rightarrow> 'e client \<Rightarrow> bool" where
  "client_ok net g inputs d0 e0 c \<longleftrightarrow> (case c of (m, t, d, lk, out, e) \<Rightarrow>
     map fst out @ in_hand t @ request_queue d @ valid_requests (to_queue m) =
       valid_requests (input_requests inputs) \<and>
     crash_ahead m = input_crash inputs \<and>
     lk = (main_holds m \<or> disp_holds t) \<and> \<not> (main_holds m \<and> disp_holds t) \<and>
     is_alive d = (\<not> closed m) \<and> main_fits m t \<and> disp_fits t d \<and>
     serve net g (map fst out) (idle d0) e0 = (out, idle d, e))"

definition client_start :: "string list \<Rightarrow> dispatcher \<Rightarrow> 'e \<Rightarrow> 'e client \<Rightarrow> bool" where
  "client_start inputs d0 e0 c \<longleftrightarrow>
     is_alive d0 \<and> request_queue d0 = [] \<and> c = (Main_read inputs, Disp_alive, d0, False, [], e0)"

lemma client_ok_crash: "client_ok net g inputs d0 e0 (m, t, d, lk, out, e) \<Longrightarrow> input_crash inputs = crash_ahead m"
  by (simp add: client_ok_def)

lemma main_step_ok:
  assumes "client_ok net g inputs d0 e0 (m, t, d, lk, out, e)" "main_step m t d lk = Some (m', d', lk')"
  shows "client_ok net g inputs d0 e0 (m', t, d', lk', out, e)"
proof (cases m)
  case (Main_read ls)
  then show ?thesis using assms
    by (cases ls) (auto simp: client_ok_def kill_request_def split: sum.splits)
next
  case (Main_lock rs n)
  then show ?thesis using assms
    by (cases rs; cases n) (auto simp: client_ok_def split: if_splits)
next
  case (Main_push rs n)
  then show ?thesis using assms by (cases rs; cases t) (auto simp: client_ok_def)
qed (use assms in \<open>cases t; auto simp: client_ok_def split: if_splits\<close>)+

lemma disp_step_ok:
  assumes "client_ok net g inputs d0 e0 (m, t, d, lk, out, e)" "disp_step net g t d lk out e = Some (t', d', lk', out', e')"
    and "\<not> crashed m"
  shows "client_ok net g inputs d0 e0 (m, t', d', lk', out', e')"
proof (cases t)
  case (Disp_dispatch r)
  obtain res d1 e1 where dis: "dispatch_request net g r d e = (res, d1, e1)" by (metis prod_cases3)
  have frame: "is_alive d1 = is_alive d" "request_queue d1 = request_queue d"
    using dispatch_request_frame [of net g r d e] dis by simp_all
  have "dispatch_request net g r (idle d) e = (res, idle d1, e1)" by (simp add: idle_dispatch dis)
  then show ?thesis using assms Disp_dispatch dis frame
    by (cases m) (auto simp: client_ok_def serve_snoc)
qed (use assms in \<open>cases m; auto simp: client_ok_def neq_Nil_conv split: if_splits list.splits\<close>)+

interpretation client_threads: invariant_system "client_start inputs d0 e0" "client_step net g"
  "client_ok net g inputs d0 e0" for net g inputs d0 e0
proof
  fix c :: "'a client" assume "client_start inputs d0 e0 c"
  then show "client_ok net g inputs d0 e0 c" by (simp add: client_start_def client_ok_def)
next
  fix c c' :: "'a client" assume "client_ok net g inputs d0 e0 c" "client_step net g c c'"
  then show "client_ok net g inputs d0 e0 c'"
    by (cases c) (auto elim!: client_step_elim intro: main_step_ok disp_step_ok)
qed

section \<open>Progress\<close>

fun lines_left :: "string list \<Rightarrow> nat" where
  "lines_left [] = 7"
| "lines_left (input # inputs) =
     (case line_requests input of Inl e \<Rightarrow> 1 | Inr rs \<Rightarrow> 3 * length rs + 2 + lines_left inputs)"

fun next_left :: "string list option \<Rightarrow> nat" where
  "next_left None = 2"
| "next_left (Some inputs) = lines_left inputs"

fun main_left :: "main_pc \<Rightarrow> nat" where
  "main_left (Main_read inputs) = lines_left inputs"
| "main_left (Main_lock rs n) = 3 * length rs + 1 + next_left n"
| "main_left (Main_push rs n) = 3 * length rs + next_left n"
| "main_left (Main_unlock rs n) = 3 * length rs + 2 + next_left n"
| "main_left Main_close = 2"
| "main_left Main_join = 1"
| "main_left m = 0"

fun disp_left :: "disp_pc \<Rightarrow> dispatcher \<Rightarrow> nat" where
  "disp_left t d = 10 * length (request_queue d) +
     (case t of
        Disp_unlock r \<Rightarrow> 11 | Disp_dispatch r \<Rightarrow> 10 | Disp_lock \<Rightarrow> 6 | Disp_front \<Rightarrow> 5 | Disp_pop r \<Rightarrow> 4
      | Disp_alive \<Rightarrow> if request_queue d = [] then 3 else 9
      | Disp_pending \<Rightarrow> if request_queue d = [] then 2 else 8
      | Disp_empty \<Rightarrow> if request_queue d = [] then 4 else 7
      | Disp_close \<Rightarrow> 1
      | _ \<Rightarrow> 0)"

definition client_order :: "('e client \<times> 'e client) set" where
  "client_order = measures [\<lambda>(m, t, d, lk, out, e). main_left m, \<lambda>(m, t, d, lk, out, e). disp_left t d]"

lemma wf_client_order: "wf client_order"
  by (simp add: client_order_def)

lemma main_step_left:
  assumes "main_step m t d lk = Some (m', d', lk')" "main_fits m t"
  shows "main_left m' < main_left m"
proof (cases m)
  case (Main_read ls)
  then show ?thesis using assms by (cases ls) (auto split: sum.splits)
next
  case (Main_lock rs n)
  then show ?thesis using assms by (cases rs; cases n) (auto split: if_splits)
next
  case (Main_push rs n)
  then show ?thesis using assms by (cases rs) auto
qed (use assms in \<open>auto split: if_splits\<close>)

text \<open>When the dispatcher holds the mutex, or when the client is closed, it can go on.\<close>

lemma disp_step_left:
  assumes "disp_fits t d" "disp_holds t \<or> \<not> is_alive d \<and> \<not> lk" "t \<noteq> Disp_ended"
  shows "\<exists>t' d' lk' out' e'. disp_step net g t d lk out e = Some (t', d', lk', out', e') \<and>
    disp_left t' d' < disp_left t d"
proof (cases t)
  case (Disp_dispatch r)
  then show ?thesis
    using dispatch_request_frame [of net g r d e] by (simp add: split_beta)
next
  case (Disp_pop r)
  then obtain rs where "request_queue d = r # rs" using assms(1) by (auto simp: neq_Nil_conv)
  then show ?thesis using Disp_pop by simp
qed (use assms in \<open>auto simp: neq_Nil_conv split: list.split\<close>)

lemma client_progress:
  assumes ok: "client_ok net g inputs d0 e0 (m, t, d, lk, out, e)" and going: "\<not> crashed m" "m \<noteq> Main_done"
  shows "\<exists>c. client_step net g (m, t, d, lk, out, e) c \<and> (c, (m, t, d, lk, out, e)) \<in> client_order"
proof (cases "main_step m t d lk")
  case (Some p)
  then obtain m' d' lk' where step: "main_step m t d lk = Some (m', d', lk')" by (metis prod_cases3)
  have "main_left m' < main_left m"
    using main_step_left [OF step] ok by (simp add: client_ok_def)
  then have "((m', t, d', lk', out, e), (m, t, d, lk, out, e)) \<in> client_order"
    by (simp add: client_order_def)
  with client_step.main [OF step, of net g out e] show ?thesis by blast
next
  case None
  have "(disp_holds t \<or> \<not> is_alive d \<and> \<not> lk) \<and> t \<noteq> Disp_ended"
  proof (cases m)
    case (Main_lock rs n)
    then show ?thesis using None ok
      by (cases rs; cases t) (auto simp: client_ok_def split: if_splits)
  next
    case Main_join
    then show ?thesis using None ok by (cases t) (auto simp: client_ok_def split: if_splits)
  next
    case (Main_read ls)
    then show ?thesis using None by (cases ls) auto
  qed (use None going in auto)
  then obtain t' d' lk' out' e' where
      step: "disp_step net g t d lk out e = Some (t', d', lk', out', e')" and less: "disp_left t' d' < disp_left t d"
    using disp_step_left [of t d lk net g out e] ok by (auto simp: client_ok_def)
  have "((m, t', d', lk', out', e'), (m, t, d, lk, out, e)) \<in> client_order"
    using less by (simp add: client_order_def)
  then show ?thesis using client_step.dispatcher [OF step going(1)] by blast
qed

fun client_over :: "'e client \<Rightarrow> bool" where
  "client_over (m, t, d, lk, out, e) = (m = Main_done \<or> crashed m)"

interpretation client_ends: progress_system "client_start inputs d0 e0" "client_step net g"
  "client_ok net g inputs d0 e0" client_over client_order for net g inputs d0 e0
proof
  show "wf client_order" by (rule wf_client_order)
next
  fix c :: "'a client" assume c: "client_ok net g inputs d0 e0 c" "\<not> client_over c"
  obtain m t d lk out e where split: "c = (m, t, d, lk, out, e)" by (rule prod_cases6)
  show "\<exists>c'. client_step net g c c' \<and> (c', c) \<in> client_order"
    unfolding split by (rule client_progress [of net g inputs d0 e0]) (use c split in auto)
qed

text \<open>What a finished run has done is the sequential run.\<close>

lemma client_done:
  assumes ok: "client_ok net g inputs d0 e0 (Main_done, t, d, lk, out, e)" and queue: "request_queue d0 = []"
  shows "t = Disp_ended \<and> (\<exists>d1. main_loop inputs d0 = Inr d1 \<and>
    process_requests net g ([], d1, e0) = Some (map snd out, d, e))"
proof -
  let ?rs = "valid_requests (input_requests inputs)"
  let ?d1 = "d0\<lparr>is_alive := False, request_queue := ?rs\<rparr>"
  have t: "t = Disp_ended" and still: "\<not> is_alive d" "request_queue d = []"
    and sent: "map fst out = ?rs" and served: "serve net g ?rs (idle d0) e0 = (out, idle d, e)"
    and no_crash: "input_crash inputs = None"
    using ok by (auto simp: client_ok_def)
  obtain res d' e' where all: "dispatch_all net g ?rs ?d1 e0 = (res, d', e')" by (metis prod_cases3)
  have frame: "length res = length ?rs" "\<not> is_alive d'" "request_queue d' = []"
    using dispatch_all_frame [of net g ?rs ?d1 e0] all by simp_all
  have "serve net g ?rs (idle d0) e0 = (zip ?rs res, d', e')"
    using dispatch_all_serve [of net g ?rs ?d1 e0] all idle_same [OF frame(2,3)] by simp
  then have "out = zip ?rs res" "d = d'" "e = e'" using served idle_same [OF still] by simp_all
  moreover have "process_requests net g ([], ?d1, e0) = Some (res, d', e')"
    using process_requests_drains [of ?d1 ?rs net g "[]" e0] all by simp
  ultimately show ?thesis
    using t no_crash queue frame(1) by (simp add: main_loop_requests)
qed

text \<open>A client whose user types one word and ends the input.\<close>

definition open_client :: dispatcher where
  "open_client = \<lparr>is_alive = True, servaddr = \<lparr>sin_port = 0, sin_addr = 0\<rparr>,
     location_service_port = 4000, request_queue = [], current_request = 1\<rparr>"

lemma open_client_state: "is_alive open_client" "request_queue open_client = []"
  by (simp_all add: open_client_def)

lemma word_line: "line_requests ''hello'' = Inr [error_request]"
proof -
  have "no_space ''hello''" by (simp add: no_space_def isspace_def)
  then show ?thesis by (simp add: line_requests_def request_from_string_def tokens_last)
qed

lemma open_client_runs:
  "client_ok scripted ([], 0) [''hello''] open_client ([], [])
     (Main_read [''hello''], Disp_alive, open_client, False, [], ([], []))"
  by (rule client_threads.inv_start) (simp add: client_start_def open_client_def)

lemma open_client_done:
  obtains t d lk out e where "(client_step scripted ([], 0))\<^sup>*\<^sup>*
      (Main_read [''hello''], Disp_alive, open_client, False, [], ([], [])) (Main_done, t, d, lk, out, e)"
proof -
  obtain m t d lk out e where run: "(client_step scripted ([], 0))\<^sup>*\<^sup>*
      (Main_read [''hello''], Disp_alive, open_client, False, [], ([], [])) (m, t, d, lk, out, e)"
    and final: "client_over (m, t, d, lk, out, e)"
    using client_ends.finishes [OF open_client_runs] by (metis prod_cases6)
  have "crash_ahead m = None"
    using client_ok_crash [OF client_threads.inv_steps [OF run open_client_runs]] by (simp add: word_line)
  then have "m = Main_done" using final by (cases m) simp_all
  with run that show thesis by blast
qed

section \<open>Properties\<close>

text \<open>
  C33. The two threads of the client never get in each other's way. In every interleaving, no
  request is lost, repeated or reordered between the input and the dispatcher, the front of
  an empty queue is never taken, and \<open>main\<close> ends with an exception only where the sequential
  loop does; when the program has ended, all requests were dispatched, and the reports, the
  dispatcher and the network are those of the sequential run.
\<close>

theorem client_threads_agree:
  assumes "is_alive d0" and "request_queue d0 = []"
    and "(client_step net g)\<^sup>*\<^sup>* (Main_read inputs, Disp_alive, d0, False, [], e0) (m, t, d, lk, out, e)"
  shows "t \<noteq> Disp_undefined \<and>
    (\<exists>later. map fst out @ later = valid_requests (input_requests inputs)) \<and>
    (\<forall>err. m = Main_crashed err \<longrightarrow> main_loop inputs d0 = Inl err) \<and>
    (m = Main_done \<longrightarrow> t = Disp_ended \<and> (\<exists>d1. main_loop inputs d0 = Inr d1 \<and>
       process_requests net g ([], d1, e0) = Some (map snd out, d, e)))"
proof -
  have ok: "client_ok net g inputs d0 e0 (m, t, d, lk, out, e)"
    using assms by (intro client_threads.inv_reachable [OF _ assms(3)]) (simp add: client_start_def)
  then have "t \<noteq> Disp_undefined" by (auto simp: client_ok_def)
  moreover have "\<exists>later. map fst out @ later = valid_requests (input_requests inputs)"
    using ok by (auto simp: client_ok_def)
  moreover have "main_loop inputs d0 = Inl err" if "m = Main_crashed err" for err
    using client_ok_crash [OF ok] that by (simp add: main_loop_requests)
  moreover have "t = Disp_ended \<and> (\<exists>d1. main_loop inputs d0 = Inr d1 \<and>
      process_requests net g ([], d1, e0) = Some (map snd out, d, e))" if "m = Main_done"
    using ok that assms(2) client_done [of net g inputs d0 e0 t d lk out e] by simp
  ultimately show ?thesis by blast
qed

theorem client_threads_agree_witness:
  "\<exists>t d lk out e. (client_step scripted ([], 0))\<^sup>*\<^sup>*
      (Main_read [''hello''], Disp_alive, open_client, False, [], ([], [])) (Main_done, t, d, lk, out, e) \<and>
    process_requests scripted ([], 0)
      ([], open_client\<lparr>is_alive := False, request_queue := [kill_request]\<rparr>, ([], [])) = Some (map snd out, d, e)"
proof -
  obtain t d lk out e where run: "(client_step scripted ([], 0))\<^sup>*\<^sup>*
      (Main_read [''hello''], Disp_alive, open_client, False, [], ([], [])) (Main_done, t, d, lk, out, e)"
    by (rule open_client_done)
  have "main_loop [''hello''] open_client = Inr (open_client\<lparr>is_alive := False, request_queue := [kill_request]\<rparr>)"
    by (simp add: main_loop_requests word_line error_request_def kill_request_def open_client_def)
  then have "process_requests scripted ([], 0)
      ([], open_client\<lparr>is_alive := False, request_queue := [kill_request]\<rparr>, ([], [])) = Some (map snd out, d, e)"
    using client_threads_agree [OF open_client_state run] by simp
  with run show ?thesis by blast
qed

text \<open>
  C34. The client can always finish: from every state that an interleaving reaches, some
  continuation ends the program, with all requests dispatched and the mutex free, unless a
  line of the input ends it with an exception. Nothing but the scheduler can keep it from
  ending.
\<close>

theorem client_can_always_finish:
  assumes "is_alive d0" and "request_queue d0 = []"
    and "(client_step net g)\<^sup>*\<^sup>* (Main_read inputs, Disp_alive, d0, False, [], e0) c"
  shows "\<exists>m t d lk out e. (client_step net g)\<^sup>*\<^sup>* c (m, t, d, lk, out, e) \<and>
    (case main_loop inputs d0 of
       Inl err \<Rightarrow> m = Main_crashed err
     | Inr d1 \<Rightarrow> m = Main_done \<and> t = Disp_ended \<and> \<not> lk \<and> map fst out = valid_requests (input_requests inputs))"
proof -
  have ok: "client_ok net g inputs d0 e0 c"
    using assms by (intro client_threads.inv_reachable [OF _ assms(3)]) (simp add: client_start_def)
  then obtain m t d lk out e where run: "(client_step net g)\<^sup>*\<^sup>* c (m, t, d, lk, out, e)"
    and final: "client_over (m, t, d, lk, out, e)"
    using client_ends.finishes [OF ok] by (metis prod_cases6)
  have "client_ok net g inputs d0 e0 (m, t, d, lk, out, e)" by (rule client_threads.inv_steps [OF run ok])
  then have "case main_loop inputs d0 of
       Inl err \<Rightarrow> m = Main_crashed err
     | Inr d1 \<Rightarrow> m = Main_done \<and> t = Disp_ended \<and> \<not> lk \<and> map fst out = valid_requests (input_requests inputs)"
    using client_ok_crash final by (cases m) (fastforce simp: client_ok_def main_loop_requests)+
  with run show ?thesis by blast
qed

theorem client_can_always_finish_witness:
  "\<exists>t d out e. (client_step scripted ([], 0))\<^sup>*\<^sup>*
      (Main_read [''hello''], Disp_alive, open_client, False, [], ([], [])) (Main_done, t, d, False, out, e) \<and>
    map fst out = [kill_request]"
proof -
  have "main_loop [''hello''] open_client = Inr (open_client\<lparr>is_alive := False, request_queue := [kill_request]\<rparr>)"
    by (simp add: main_loop_requests word_line error_request_def kill_request_def open_client_def)
  moreover have "valid_requests (input_requests [''hello'']) = [kill_request]"
    by (simp add: word_line error_request_def kill_request_def)
  ultimately show ?thesis
    using client_can_always_finish [of open_client scripted "([], 0)" "[''hello'']" "([], [])"
        "(Main_read [''hello''], Disp_alive, open_client, False, [], ([], []))"]
    by (fastforce simp: open_client_def)
qed

end
