(* ===== verification/Client_Server.thy ===== *)
theory Client_Server
  imports Client_Dispatcher Server_Threads
begin

text \<open>
  The client and the coordinator together: the network parameter of the client is the
  server's model, its discovery service on one port and its multiplexer with the request
  handlers on the next. Each datagram is served to the end before the client goes on, and a
  schedule says for each datagram of the client whether it is lost, its reply is lost, or its
  reply is held back and arrives with a later one.
\<close>

section \<open>The server as a network\<close>

fun reply_to :: "sockaddr_in \<Rightarrow> server_output list \<Rightarrow> string option" where
  "reply_to cli [] = None"
| "reply_to cli (Reply a text # outs) = (if a = cli then Some text else reply_to cli outs)"
| "reply_to cli (Broadcast_update snap # outs) = reply_to cli outs"

text \<open>
  The line between them: the fates of the datagrams to come (all are delivered after the end
  of the list), the replies that wait in the socket of the dispatcher, and those that are held
  back and arrive before the next reply that is delivered.
\<close>

datatype fate = Delivered | Request_lost | Reply_lost | Reply_held

type_synonym line = "fate list \<times> (sockaddr_in \<times> string) list \<times> (sockaddr_in \<times> string) list"

type_synonym link = "line \<times> db_manager"

definition quiet :: line where
  "quiet = ([], [], [])"

definition next_fate :: "fate list \<Rightarrow> fate" where
  "next_fate fates = (case fates of [] \<Rightarrow> Delivered | f # _ \<Rightarrow> f)"

lemma next_fate_simps [simp]: "next_fate [] = Delivered" "next_fate (f # fates) = f"
  by (simp_all add: next_fate_def)

definition answer_of ::
  "sockaddr_in \<Rightarrow> sockaddr_in \<Rightarrow> handler_outcome \<Rightarrow> received \<times> db_manager" where
  "answer_of cli server out =
     (case out of
        (Inl e, s) \<Rightarrow> (Nothing_received, s)
      | (Inr outs, s) \<Rightarrow>
          (case reply_to cli outs of None \<Rightarrow> (Nothing_received, s)
           | Some text \<Rightarrow> (Datagram server text, s)))"

definition requests_addr :: "in_addr \<Rightarrow> i32 \<Rightarrow> sockaddr_in" where
  "requests_addr host port = create_sockaddr (inet_ntop host) (port + 1)"

definition greeter_addr :: "in_addr \<Rightarrow> i32 \<Rightarrow> sockaddr_in" where
  "greeter_addr host port = create_sockaddr (inet_ntop host) port"

text \<open>
  What reaches the server. Nothing can be sent to port 0: \<open>bind\<close> takes a 0 for any free port,
  which no client learns, so a discovery service started with 0 is never reached. The
  multiplexer's port would be 0 after 65535 alone, and no client gets that address, since it
  refuses the location.
\<close>

definition server_answer ::
  "sockaddr_in \<Rightarrow> in_addr \<Rightarrow> i32 \<Rightarrow> sockaddr_in \<Rightarrow> string \<Rightarrow> db_manager \<Rightarrow> received \<times> db_manager" where
  "server_answer cli host port addr msg s =
     (if addr = requests_addr host port
      then answer_of cli (requests_addr host port) (serve_datagram cli msg s)
      else if sin_port addr \<noteq> 0 \<and>
        (addr = create_sockaddr ''255.255.255.255'' port \<or> addr = greeter_addr host port)
      then answer_of cli (greeter_addr host port)
             (discovery_step (greeter_reply (inet_ntop host) port) True cli msg s)
      else (Nothing_received, s))"

fun datagrams :: "received \<Rightarrow> (sockaddr_in \<times> string) list" where
  "datagrams Nothing_received = []"
| "datagrams (Datagram src text) = [(src, text)]"

fun first_datagram :: "(sockaddr_in \<times> string) list \<Rightarrow> received" where
  "first_datagram [] = Nothing_received"
| "first_datagram ((src, text) # _) = Datagram src text"

text \<open>
  The client has two sockets: the one of the discovery protocol is opened for each search and
  sends nothing but the discovery message, so a reply that comes too late for it is gone; the
  one of the dispatcher stays open and keeps what has arrived.
\<close>

definition server_network ::
  "sockaddr_in \<Rightarrow> in_addr \<Rightarrow> i32 \<Rightarrow> sockaddr_in \<Rightarrow> string \<Rightarrow> link \<Rightarrow> received \<times> link" where
  "server_network cli host port addr msg e =
     (case e of ((fates, inbox, held), s) \<Rightarrow>
        let fate = next_fate fates;
            (ev, s') = (if fate = Request_lost then (Nothing_received, s)
                        else server_answer cli host port addr msg s)
        in if msg = discovery_message
           then (if fate = Delivered then ev else Nothing_received, (tl fates, inbox, held), s')
           else let arrived = (if fate = Delivered then inbox @ held @ datagrams ev else inbox);
                    held' = (if fate = Delivered then []
                             else if fate = Reply_held then held @ datagrams ev else held)
                in (first_datagram arrived, (tl fates, tl arrived, held'), s'))"

lemma network_quiet [simp]:
  "server_network cli host port addr msg (quiet, s) =
     (case server_answer cli host port addr msg s of (ev, s') \<Rightarrow> (ev, quiet, s'))"
  by (cases "fst (server_answer cli host port addr msg s)")
    (auto simp: server_network_def quiet_def split_beta Let_def)

section \<open>What travels fits the buffers\<close>

lemma result_texts [simp]:
  "no_nul (transaction_text d)" "no_nul (status_to_string st)"
  "length (transaction_text d) \<le> 30" "length (status_to_string st) \<le> 30"
  by (cases d; cases st; simp)+

lemma ack_received:
  assumes "ack_encodable ack" "no_nul (result ack)" "length (result ack) \<le> 30"
  shows "to_ACK_Packet (buffer_text CLIENT_MAXLINE (ACK_Packet_to_string ack)) = Inr ack"
proof -
  have "length (ACK_Packet_to_string ack) \<le> CLIENT_MAXLINE"
    using assms(3) length_show_i64 [of "seq_num ack"] length_show_u64 [of "new_balance ack"]
      length_inet_ntop [of "ack_sender_ip ack"] length_inet_ntop [of "ack_receiver_ip ack"]
      length_show_u64 [of "ack_transfer_amount ack"]
    by (simp add: ACK_Packet_to_string_def addr_to_string_def CLIENT_MAXLINE_def)
  moreover have "no_nul (ACK_Packet_to_string ack)"
    using assms(2) by (simp add: ACK_Packet_to_string_def addr_to_string_def)
  ultimately show ?thesis
    using ack_wire.decode_encode [OF assms(1)] by (simp add: buffer_text_id)
qed

lemma ucast_int_16: "(ucast (x + y :: i32) :: 16 word) = ucast x + ucast y"
  by (rule word_eq_iff_unsigned [where 'a = int, THEN iffD2])
    (simp add: unsigned_ucast_eq take_bit_add uint_word_arith_bintrs flip: take_bit_eq_mod)

lemma ports_differ: "requests_addr host port \<noteq> create_sockaddr ip_text port"
proof
  assume "requests_addr host port = create_sockaddr ip_text port"
  then have "htons (ucast (port + 1)) = htons (ucast port)"
    by (simp add: requests_addr_def create_sockaddr_def)
  then have "(ucast (port + 1) :: 16 word) = ucast port" by (metis htons_htons)
  then show False by (simp add: ucast_int_16)
qed

lemma greeter_port:
  assumes "0 < sint port" "sint port \<le> 65535"
  shows "sin_port (create_sockaddr ip_text port) \<noteq> 0"
proof
  assume "sin_port (create_sockaddr ip_text port) = 0"
  then have "htons (ucast port) = htons 0" by (simp add: create_sockaddr_def htons_def)
  then have "(ucast port :: 16 word) = 0" by (metis htons_htons)
  moreover have "uint (ucast port :: 16 word) = uint port mod 65536"
    by (simp add: unsigned_ucast_eq take_bit_eq_mod)
  ultimately have "uint port mod 65536 = 0" by simp
  moreover have "uint (word_of_int (sint port) :: i32) = sint port mod 2 ^ 32"
    by (simp only: uint_word_of_int len_num0 len_bit0 len_num1) simp
  then have "uint port = sint port" using assms by simp
  ultimately show False using assms by simp
qed

lemma low_ucast: "(ucast (ucast (w :: u32) + 1 :: i64) :: u32) = w + 1"
  by (simp add: ucast_add_64 ucast_up_ucast_id is_up)

lemma sint_add_1_small: "0 \<le> sint w \<Longrightarrow> sint w < 65536 \<Longrightarrow> sint (w + 1) = sint w + 1" for w :: i32
  using sint_word_of_int_31 [of "sint w" 1] by (simp add: signed_take_bit_int_eq_self)

section \<open>One try\<close>

text \<open>The number the server expects next from a client.\<close>

definition expected :: "sockaddr_in \<Rightarrow> db_manager \<Rightarrow> i32" where
  "expected cli s = last_request (known_record (sin_addr cli) s) + 1"

definition transfer_request :: "in_addr \<Rightarrow> u64 \<Rightarrow> request_t" where
  "transfer_request b amount = \<lparr>dest_ip = b, request_amount = amount, request_kind = REQ_REQUEST\<rparr>"

lemma serve_request:
  "serve_datagram cli (serialized_request (transfer_request b amount) d) s =
     process_req_packet cli (REQ_Packet (scast (current_request d)) b amount) s"
  by (simp add: serve_datagram_def serialized_request_def transfer_request_def multiplex_REQ)

lemma check_expected:
  "check_packet_status (REQ_Packet (scast c) b amount) (known_record (sin_addr cli) s) = VALID
     \<longleftrightarrow> c = expected cli s"
  by (simp add: check_valid_iff REQ_Packet_def ucast_scast_id expected_def)

lemma known_record_refusal:
  "ack_encodable (refusal a p r)" "no_nul (result (refusal a p r))" "length (result (refusal a p r)) \<le> 30"
  "seq_num (refusal a p r) = ucast (last_request r)"
  "result (refusal a p r) = status_to_string (check_packet_status p r)"
  by (auto simp: refusal_def text_simps) (simp_all add: ACK_Packet_def)

lemma status_not_final:
  "check_packet_status p r \<noteq> VALID \<Longrightarrow>
   status_to_string (check_packet_status p r) \<notin> {''SUCCESS'', ''BALANCE_CHECK'', ''KILL''}"
  by (cases "check_packet_status p r") simp_all

text \<open>
  One exchange: what the server's answer to a try is, that the client reads it, and what
  \<open>handle_response\<close> makes of it. First a try with a number the server does not expect.
\<close>

lemma refused_exchange:
  assumes addr: "servaddr d = requests_addr host port" and "current_request d \<noteq> expected cli s"
  obtains ack where "server_network cli host port (servaddr d)
      (serialized_request (transfer_request b amount) d) (quiet, s) =
      (Datagram (servaddr d) (ACK_Packet_to_string ack), (quiet, s))"
    and "to_ACK_Packet (buffer_text CLIENT_MAXLINE (ACK_Packet_to_string ack)) = Inr ack"
    and "handle_response ack d = (False, d\<lparr>current_request := expected cli s\<rparr>)"
proof -
  let ?p = "REQ_Packet (scast (current_request d)) b amount"
  let ?r = "known_record (sin_addr cli) s"
  let ?ack = "refusal (sin_addr cli) ?p ?r"
  have refused: "check_packet_status ?p ?r \<noteq> VALID"
    using assms(2) by (simp add: check_expected)
  have "server_network cli host port (servaddr d)
      (serialized_request (transfer_request b amount) d) (quiet, s) =
      (Datagram (servaddr d) (ACK_Packet_to_string ?ack), (quiet, s))"
    using process_req_refusal [OF refused] addr
    by (simp add: server_answer_def serve_request answer_of_def)
  moreover have "to_ACK_Packet (buffer_text CLIENT_MAXLINE (ACK_Packet_to_string ?ack)) = Inr ?ack"
    by (rule ack_received) (rule known_record_refusal)+
  moreover have "handle_response ?ack d = (False, d\<lparr>current_request := expected cli s\<rparr>)"
    using status_not_final [OF refused]
    by (simp add: handle_response_def known_record_refusal expected_def low_ucast)
  ultimately show thesis by (rule that)
qed

text \<open>A try with the expected number: the database settles the transfer.\<close>

lemma transaction_text_final:
  "transaction_text c = ''SUCCESS'' \<or> transaction_text c = ''BALANCE_CHECK'' \<or> transaction_text c = ''KILL''
     \<longleftrightarrow> c = SUCCESS \<or> c = BALANCE_CHECK"
  by (cases c) simp_all

lemma settled_exchange:
  assumes addr: "servaddr d = requests_addr host port" and step: "current_request d = expected cli s"
    and ok: "db_ok s" and settle: "settle (sin_addr cli) b amount s = (Inr res, s')"
    and ack: "ack = transaction_reply (sin_addr cli) (REQ_Packet (scast (current_request d)) b amount) res"
  shows "server_network cli host port (servaddr d)
      (serialized_request (transfer_request b amount) d) (quiet, s) =
      (Datagram (servaddr d) (ACK_Packet_to_string ack), (quiet, s'))"
    and "to_ACK_Packet (buffer_text CLIENT_MAXLINE (ACK_Packet_to_string ack)) = Inr ack"
    and "status_code res \<noteq> UNKNOWN_SENDER \<Longrightarrow> status_code res \<noteq> NOT_FOUND \<Longrightarrow>
      handle_response ack d = (status_code res = SUCCESS \<or> status_code res = BALANCE_CHECK,
        d\<lparr>current_request := last_request (response_record res) + 1\<rparr>)"
proof -
  let ?p = "REQ_Packet (scast (current_request d)) b amount"
  have valid: "check_packet_status ?p (known_record (sin_addr cli) s) = VALID"
    using step by (simp add: check_expected)
  show "server_network cli host port (servaddr d)
      (serialized_request (transfer_request b amount) d) (quiet, s) =
      (Datagram (servaddr d) (ACK_Packet_to_string ack), (quiet, s'))"
    using process_req_settles [OF ok valid, of res s'] settle addr ack
    by (simp add: REQ_Packet_def server_answer_def serve_request answer_of_def)
  show "to_ACK_Packet (buffer_text CLIENT_MAXLINE (ACK_Packet_to_string ack)) = Inr ack"
    unfolding ack by (rule ack_received) (simp_all add: ack_encodable_replies)
  assume known: "status_code res \<noteq> UNKNOWN_SENDER" "status_code res \<noteq> NOT_FOUND"
  then have "ucast (seq_num ack + 1) = last_request (response_record res) + 1"
    by (simp add: ack transaction_reply_def ACK_Packet_def low_ucast)
  moreover have "result ack = transaction_text (status_code res)" by (simp add: ack)
  ultimately show "handle_response ack d = (status_code res = SUCCESS \<or> status_code res = BALANCE_CHECK,
      d\<lparr>current_request := last_request (response_record res) + 1\<rparr>)"
    by (simp add: handle_response_def transaction_text_final)
qed

text \<open>The tries of \<open>dispatch_loop\<close>.\<close>

lemma try_out_of_step:
  assumes "servaddr d = requests_addr host port" and "current_request d \<noteq> expected cli s"
  shows "dispatch_loop (server_network cli host port) g (Suc k) (transfer_request b amount) d (quiet, s) =
    dispatch_loop (server_network cli host port) g k (transfer_request b amount)
      (d\<lparr>current_request := expected cli s\<rparr>) (quiet, s)"
  by (rule refused_exchange [OF assms, of b amount]) simp

lemma try_in_step:
  assumes "servaddr d = requests_addr host port" and "current_request d = expected cli s"
    and "db_ok s" and "settle (sin_addr cli) b amount s = (Inr res, s')" and "status_code res = SUCCESS"
  shows "dispatch_loop (server_network cli host port) g (Suc k) (transfer_request b amount) d (quiet, s) =
    (Some (transaction_reply (sin_addr cli) (REQ_Packet (scast (current_request d)) b amount) res),
     d\<lparr>current_request := last_request (response_record res) + 1\<rparr>, (quiet, s'))"
  using settled_exchange [OF assms(1-4) refl] assms(5) by simp

section \<open>Losing a reply\<close>

lemma location_received:
  assumes "0 \<le> sint port" "sint port < 65535"
  shows "extract_ip_and_port_from_response
      (buffer_text DISCOVERY_MAXLINE (greeter_reply (inet_ntop host) port)) True =
    (0, Some (inet_ntop host, port + 1))"
proof -
  let ?t = "greeter_reply (inet_ntop host) port"
  have succ: "sint (port + 1) = sint port + 1"
    using assms by (intro sint_add_1_small) auto
  have "no_nul ?t" "length ?t \<le> DISCOVERY_MAXLINE"
    using length_inet_ntop [of host] length_show_i32 [of "port + 1"]
    by (simp_all add: greeter_reply_def discovery_reply_def DISCOVERY_MAXLINE_def)
  moreover have "extract_ip_and_port_from_response ?t True = (0, Some (inet_ntop host, port + 1))"
    using extract_location [of "port + 1" host] assms succ
    by (simp add: greeter_reply_def discovery_reply_def)
  ultimately show ?thesis by (simp add: buffer_text_id)
qed

text \<open>The line with the next datagram gone, and an exchange of the discovery protocol on it.\<close>

definition after_next :: "line \<Rightarrow> line" where
  "after_next line = (case line of (fates, inbox, held) \<Rightarrow> (tl fates, inbox, held))"

definition delivers :: "line \<Rightarrow> bool" where
  "delivers line \<longleftrightarrow> next_fate (fst line) = Delivered"

lemma line_simps [simp]:
  "after_next quiet = quiet" "delivers quiet"
  "after_next (f # fates, inbox, held) = (fates, inbox, held)"
  "delivers (f # fates, inbox, held) \<longleftrightarrow> f = Delivered"
  by (simp_all add: after_next_def delivers_def quiet_def)

lemma greeter_answers:
  assumes "db_ok s" and "delivers line" and port: "0 < sint port" "sint port \<le> 65535"
    and addr: "addr = create_sockaddr ''255.255.255.255'' port \<or> addr = greeter_addr host port"
  obtains s' where "server_network cli host port addr discovery_message (line, s) =
      (Datagram (greeter_addr host port) (greeter_reply (inet_ntop host) port), (after_next line, s'))"
    and "db_ok s'" and "ledger_of s' = ledger_open (sin_addr cli) (ledger_of s)"
    and "database_records s (sin_addr cli) \<noteq> None \<longrightarrow> s' = s"
proof -
  let ?reply = "greeter_reply (inet_ntop host) port"
  obtain s' where s': "discovery_step ?reply True cli discovery_message s =
      (Inr [Reply cli ?reply, Broadcast_update (get_db_snapshot s')], s')"
    "db_ok s'" "ledger_of s' = ledger_open (sin_addr cli) (ledger_of s)"
    "database_records s (sin_addr cli) \<noteq> None \<longrightarrow> s' = s"
    using discovery_step_answers [OF assms(1)] by metis
  have "addr \<noteq> requests_addr host port" "sin_port addr \<noteq> 0"
    using addr ports_differ greeter_port [OF port] unfolding greeter_addr_def by metis+
  then have "server_network cli host port addr discovery_message (line, s) =
      (Datagram (greeter_addr host port) ?reply, (after_next line, s'))"
    using assms(2) addr s'(1) by (cases line)
      (simp add: server_network_def server_answer_def answer_of_def delivers_def after_next_def)
  with s'(2-4) that show thesis by blast
qed

lemma discovery_succeeds:
  assumes "db_ok s" "delivers line" "0 < sint port" "sint port < 65535"
  obtains s' where "client_discovery_protocol (server_network cli host port) ''255.255.255.255'' port
      (Suc k) (line, s) = (Some (inet_ntop host, port + 1), (after_next line, s'))"
    and "db_ok s'" and "ledger_of s' = ledger_open (sin_addr cli) (ledger_of s)"
    and "database_records s (sin_addr cli) \<noteq> None \<longrightarrow> s' = s"
proof -
  obtain s' where s': "server_network cli host port (create_sockaddr ''255.255.255.255'' port)
      discovery_message (line, s) =
      (Datagram (greeter_addr host port) (greeter_reply (inet_ntop host) port), (after_next line, s'))"
    "db_ok s'" "ledger_of s' = ledger_open (sin_addr cli) (ledger_of s)"
    "database_records s (sin_addr cli) \<noteq> None \<longrightarrow> s' = s"
    by (rule greeter_answers [OF assms(1-3)]) (use assms(4) in auto)
  then have "client_discovery_protocol (server_network cli host port) ''255.255.255.255'' port
      (Suc k) (line, s) = (Some (inet_ntop host, port + 1), (after_next line, s'))"
    using location_received [OF less_imp_le [OF assms(3)] assms(4), of host] by (simp add: client_discovery_protocol_def)
  with s'(2-4) that show thesis by blast
qed

lemma locate_succeeds:
  assumes ok: "db_ok s" "delivers line"
    and port: "0 < sint port" "sint port < 65535" "location_service_port d = port"
  obtains s' where "locate_request_server (server_network cli host port) g d (line, s) =
      (d\<lparr>servaddr := requests_addr host port\<rparr>, (after_next line, s'))"
    and "db_ok s'" and "ledger_of s' = ledger_open (sin_addr cli) (ledger_of s)"
    and "database_records s (sin_addr cli) \<noteq> None \<longrightarrow> s' = s"
proof -
  obtain s' where s': "client_discovery_protocol (server_network cli host port) ''255.255.255.255'' port
      (Suc 4) (line, s) = (Some (inet_ntop host, port + 1), (after_next line, s'))"
    "db_ok s'" "ledger_of s' = ledger_open (sin_addr cli) (ledger_of s)"
    "database_records s (sin_addr cli) \<noteq> None \<longrightarrow> s' = s"
    by (rule discovery_succeeds [OF ok port(1,2)])
  then show thesis
    using port(3) that by (simp add: locate_request_server_def requests_addr_def)
qed

text \<open>Location messages with a port the client refuses.\<close>

lemma location_refused:
  assumes "sint port = 65535"
  shows "fst (extract_ip_and_port_from_response
      (buffer_text DISCOVERY_MAXLINE (greeter_reply (inet_ntop host) port)) True) \<noteq> 0"
proof -
  let ?t = "greeter_reply (inet_ntop host) port"
  have succ: "sint (port + 1) = 65536"
    using assms sint_add_1_small [of port] by simp
  have "no_nul ?t" "length ?t \<le> DISCOVERY_MAXLINE"
    using length_inet_ntop [of host] length_show_i32 [of "port + 1"]
    by (simp_all add: greeter_reply_def discovery_reply_def DISCOVERY_MAXLINE_def)
  moreover have "extract_ip_and_port_from_response ?t True = (-3, None)"
    using extract_location [of "port + 1" host] succ
    by (simp add: greeter_reply_def discovery_reply_def)
  ultimately show ?thesis by (simp add: buffer_text_id)
qed

lemma ledger_open_again [simp]: "ledger_open a (ledger_open a L) = ledger_open a L"
  by (simp add: ledger_open_def)

lemma discovery_refused:
  assumes "sint port = 65535"
  shows "db_ok s \<Longrightarrow>
    addr = create_sockaddr ''255.255.255.255'' port \<or> addr = greeter_addr host port \<Longrightarrow>
    \<exists>s'. discovery_loop (server_network cli host port) (Suc k) addr (quiet, s) = (None, (quiet, s')) \<and>
      db_ok s' \<and> ledger_of s' = ledger_open (sin_addr cli) (ledger_of s)"
proof (induction k arbitrary: addr s)
  case 0
  obtain s' where "server_network cli host port addr discovery_message (quiet, s) =
      (Datagram (greeter_addr host port) (greeter_reply (inet_ntop host) port), (after_next quiet, s'))"
    "db_ok s'" "ledger_of s' = ledger_open (sin_addr cli) (ledger_of s)"
    by (rule greeter_answers [OF 0(1) _ _ _ 0(2), of quiet]) (use assms in simp_all)
  then show ?case
    using location_refused [OF assms, of host] by (auto simp: split_beta)
next
  case (Suc k)
  obtain s1 where s1: "server_network cli host port addr discovery_message (quiet, s) =
      (Datagram (greeter_addr host port) (greeter_reply (inet_ntop host) port), (after_next quiet, s1))"
    "db_ok s1" "ledger_of s1 = ledger_open (sin_addr cli) (ledger_of s)"
    by (rule greeter_answers [OF Suc.prems(1) _ _ _ Suc.prems(2), of quiet]) (use assms in simp_all)
  have "discovery_loop (server_network cli host port) (Suc (Suc k)) addr (quiet, s) =
      discovery_loop (server_network cli host port) (Suc k) (greeter_addr host port) (quiet, s1)"
    using s1(1) location_refused [OF assms, of host]
    by (subst discovery_loop.simps(2)) (simp add: split_beta del: discovery_loop.simps)
  then show ?case
    using Suc.IH [OF s1(2), of "greeter_addr host port"] s1(3) by simp
qed

text \<open>A discovery service that nothing can be sent to.\<close>

lemma discovery_unreached:
  "discovery_loop (server_network cli host 0) k (create_sockaddr ''255.255.255.255'' 0) (quiet, s) = (None, (quiet, s))"
proof (induction k)
  case (Suc k)
  have "create_sockaddr ''255.255.255.255'' 0 \<noteq> requests_addr host 0" using ports_differ by metis
  moreover have "sin_port (create_sockaddr ''255.255.255.255'' 0) = 0" by (simp add: create_sockaddr_def htons_def)
  ultimately have "server_answer cli host 0 (create_sockaddr ''255.255.255.255'' 0) discovery_message s = (Nothing_received, s)"
    by (simp add: server_answer_def)
  then show ?case using Suc by simp
qed simp

text \<open>A transfer that the database settles with SUCCESS, whatever number the client has reached.\<close>

lemma covered_dispatch:
  assumes "db_ok s" and s': "settle (sin_addr cli) b amount s =
      (Inr (respond True (debited amount r) SUCCESS), s')"
    and addr: "servaddr d = requests_addr host port"
  shows "dispatch_request (server_network cli host port) g (transfer_request b amount) d (quiet, s) =
    (Some (transaction_reply (sin_addr cli) (REQ_Packet (scast (expected cli s)) b amount)
       (respond True (debited amount r) SUCCESS)),
     d\<lparr>current_request := last_request r + 1 + 1\<rparr>, (quiet, s'))"
proof -
  let ?net = "server_network cli host port"
  let ?d = "d\<lparr>current_request := expected cli s\<rparr>"
  let ?p = "REQ_Packet (scast (expected cli s)) b amount"
  let ?ack = "transaction_reply (sin_addr cli) ?p (respond True (debited amount r) SUCCESS)"
  have done_at: "dispatch_loop ?net g (Suc k) (transfer_request b amount) ?d (quiet, s) =
      (Some ?ack, ?d\<lparr>current_request := last_request r + 1 + 1\<rparr>, (quiet, s'))" for k
    using try_in_step [of ?d host port cli s b amount _ s' g k] assms(1) addr s' by simp
  show ?thesis
  proof (cases "current_request d = expected cli s")
    case True
    then have "?d = d" by (cases d) simp
    then show ?thesis
      using done_at [of 4] by (simp add: dispatch_request_def MAX_RETRIES_def del: dispatch_loop.simps)
  next
    case False
    then show ?thesis
      using done_at [of 3] try_out_of_step [OF addr False, of g 4 b amount]
      by (simp add: dispatch_request_def MAX_RETRIES_def del: dispatch_loop.simps)
  qed
qed

text \<open>A transfer the database refuses, and the state in which it is refused again.\<close>

definition refused :: "in_addr \<Rightarrow> in_addr \<Rightarrow> u64 \<Rightarrow> db_manager \<Rightarrow> bool" where
  "refused a b amount s \<longleftrightarrow> amount \<noteq> 0 \<and>
     (\<exists>r. database_records s a = Some r \<and>
       (a = b \<or> database_records s b = None \<or> balance r < amount))"

definition refusal_charge :: "in_addr \<Rightarrow> in_addr \<Rightarrow> db_manager \<Rightarrow> u32" where
  "refusal_charge a b s = (if a \<noteq> b \<and> database_records s b \<noteq> None then 1 else 0)"

lemma balance_charged [simp]: "balance (charged r) = balance r" "last_request (charged r) = last_request r + 1"
  by (simp_all add: charged_def)

lemma settle_refused:
  assumes "refused a b amount s"
  obtains res s' where "settle a b amount s = (Inr res, s')"
    and "status_code res \<notin> {SUCCESS, BALANCE_CHECK, UNKNOWN_SENDER, NOT_FOUND}"
    and "database_records s' a = Some (response_record res)"
    and "last_request (response_record res) = last_request (known_record a s) + refusal_charge a b s"
    and "refused a b amount s'" and "refusal_charge a b s' = refusal_charge a b s"
    and "ledger_of s' = ledger_of s"
proof -
  obtain r where r: "amount \<noteq> 0" "database_records s a = Some r"
    "a = b \<or> database_records s b = None \<or> balance r < amount"
    using assms by (auto simp: refused_def)
  show thesis
  proof (cases "a = b \<or> database_records s b = None")
    case True
    then show thesis
      using r assms that [of "respond False r (if a = b then DUPLICATE_IP else UNKNOWN_RECEIVER)" s]
      by (auto simp: settle_def refusal_charge_def)
  next
    case False
    let ?s = "s\<lparr>database_records := (database_records s)(a \<mapsto> charged r)\<rparr>"
    have "ledger_of ?s = ledger_of s"
      using r(2) by (auto simp: ledger_of_def)
    then show thesis
      using r False that [of "respond False (charged r) INSUFFICIENT_BALANCE" ?s]
      by (auto simp: settle_def refused_def refusal_charge_def)
  qed
qed

section \<open>Properties\<close>

text \<open>
  A transfer, end to end. When no datagram is lost, a registered client that asks for a
  transfer it can pay gets it executed exactly once, whatever number its requests have
  reached: the server's database is the one of a single \<open>make_transaction\<close>, the user sees
  SUCCESS with the new balance, and client and server agree on the next number.
\<close>

lemma transfer_end_to_end:
  assumes "db_ok s" and "database_records s (sin_addr cli) = Some r"
    and "database_records s b = Some q" and "sin_addr cli \<noteq> b"
    and "amount \<noteq> 0" and "amount \<le> balance r" and "servaddr d = requests_addr host port"
  shows "\<exists>ack d' s'.
    dispatch_request (server_network cli host port) g (transfer_request b amount) d (quiet, s) =
      (Some ack, d', (quiet, s')) \<and>
    s' = snd (make_transaction (sin_addr cli) b amount s) \<and> result ack = ''SUCCESS'' \<and>
    new_balance ack = balance r - amount \<and> current_request d' = expected cli s'"
proof -
  obtain s' where s': "settle (sin_addr cli) b amount s =
      (Inr (respond True (debited amount r) SUCCESS), s')"
      "database_records s' (sin_addr cli) = Some (debited amount r)"
    by (rule settle_covered [OF assms(2-6)]) blast
  moreover have "s' = snd (make_transaction (sin_addr cli) b amount s)"
    using assms(1) s'(1) by (simp add: make_transaction_settle db_ok_def)
  ultimately show ?thesis
    using covered_dispatch [OF assms(1) s'(1) assms(7), of g]
    by (simp add: expected_def transaction_reply_def ACK_Packet_def)
qed

text \<open>A client of the two-account database, with the server on 10.0.0.1 and port 4000.\<close>

definition sample_host :: in_addr where
  "sample_host = 0x0100000a"

definition sample_client :: dispatcher where
  "sample_client =
     \<lparr>is_alive = True, servaddr = requests_addr sample_host 4000, location_service_port = 4000,
      request_queue = [], current_request = 1\<rparr>"

lemma sample_records:
  "database_records two_clients (sin_addr \<lparr>sin_port = 5, sin_addr = 1\<rparr>) =
     Some \<lparr>ip = 1, balance = 100000, last_request = 0\<rparr>"
  "database_records two_clients 2 = Some \<lparr>ip = 2, balance = 100000, last_request = 0\<rparr>"
  by (simp_all add: two_clients_records)

text \<open>
  C31. Discovery, end to end. A client that starts with the number of the greeter's port finds
  the multiplexer of a coordinator that is up: its requests then go to the server's address
  and the port after the greeter's. Starting registers the client and changes nothing for a
  client that is registered already. Both programs accept the ports 0 and 65535 too, and then
  the dispatcher goes on with an uninitialised address: on 65535 no location is valid, though
  the client is registered, and on 0 nothing is reached.
\<close>

theorem client_finds_server:
  assumes "db_ok s" and "0 \<le> sint port" and "sint port \<le> 65535"
  shows "servaddr (fst (RequestDispatcher (server_network cli host port) g port (quiet, s))) =
      (if 0 < sint port \<and> sint port < 65535 then requests_addr host port else create_sockaddr (fst g) (snd g)) \<and>
    ledger_of (snd (snd (RequestDispatcher (server_network cli host port) g port (quiet, s)))) =
      (if 0 < sint port then ledger_open (sin_addr cli) (ledger_of s) else ledger_of s) \<and>
    db_ok (snd (snd (RequestDispatcher (server_network cli host port) g port (quiet, s))))"
proof -
  let ?net = "server_network cli host port"
  let ?res = "client_discovery_protocol ?net ''255.255.255.255'' port (Suc 4) (quiet, s)"
  have "\<exists>s'. ?res = (if 0 < sint port \<and> sint port < 65535 then Some (inet_ntop host, port + 1) else None, (quiet, s')) \<and>
      db_ok s' \<and> ledger_of s' = (if 0 < sint port then ledger_open (sin_addr cli) (ledger_of s) else ledger_of s)"
  proof -
    consider "sint port = 0" | "0 < sint port" "sint port < 65535" | "sint port = 65535" using assms(2,3) by linarith
    then show ?thesis
    proof cases
      case 1
      then have "port = 0" by (metis sint_0 signed_word_eqI)
      then show ?thesis
        using discovery_unreached [of cli host "Suc 4" s] assms(1)
        by (simp add: client_discovery_protocol_def del: discovery_loop.simps)
    next
      case 2
      then show ?thesis
        by (rule_tac discovery_succeeds [OF assms(1) _ 2, of quiet cli host 4]) auto
    next
      case 3
      then show ?thesis
        using discovery_refused [of port s _ host cli 4] assms
        by (simp add: client_discovery_protocol_def del: discovery_loop.simps)
    qed
  qed
  then show ?thesis
    by (auto simp: RequestDispatcher_def locate_request_server_def requests_addr_def split_beta)
qed

theorem client_finds_server_witness:
  "servaddr (fst (RequestDispatcher (server_network \<lparr>sin_port = 5, sin_addr = 1\<rparr> sample_host 4000)
     ([], 0) 4000 (quiet, two_clients))) = requests_addr sample_host 4000"
  using client_finds_server [OF two_clients_ok, of 4000 "\<lparr>sin_port = 5, sin_addr = 1\<rparr>" sample_host "([], 0)"]
  by simp

end
