(* ===== verification/Client_Session.thy ===== *)
theory Client_Session
  imports Client_Threads Client_Server
begin

text \<open>
  A whole session: a client that starts, finds the coordinator, is given any list of transfers
  as its input and ends, with its two threads in any interleaving, against the server of
  \<open>Client_Server\<close> on a network that loses nothing. What the session does to the balances and
  what the user is told is a function of the abstract ledger.
\<close>

section \<open>What a session should do\<close>

text \<open>The line a user types for a transfer.\<close>

definition transfer_line :: "in_addr \<times> u64 \<Rightarrow> string" where
  "transfer_line p = (case p of (b, amount) \<Rightarrow> inet_ntop b @ '' '' @ show_nat (unat amount))"

definition covered :: "in_addr \<Rightarrow> in_addr \<Rightarrow> nat \<Rightarrow> ledger \<Rightarrow> bool" where
  "covered a b n L \<longleftrightarrow> a \<noteq> b \<and> L b \<noteq> None \<and> (\<exists>x. L a = Some x \<and> n \<le> x)"

text \<open>What the user is told: the result and the balance after it, or nothing.\<close>

definition verdict :: "in_addr \<Rightarrow> in_addr \<Rightarrow> nat \<Rightarrow> ledger \<Rightarrow> (string \<times> nat) option" where
  "verdict a b n L =
     (if n = 0 then Some (''BALANCE_CHECK'', the (L a))
      else if covered a b n L then Some (''SUCCESS'', the (L a) - n) else None)"

fun session_ledger :: "in_addr \<Rightarrow> (in_addr \<times> u64) list \<Rightarrow> ledger \<Rightarrow> ledger" where
  "session_ledger a [] L = L"
| "session_ledger a ((b, amount) # ts) L = session_ledger a ts (ledger_transfer a b (unat amount) L)"

fun session_verdicts :: "in_addr \<Rightarrow> (in_addr \<times> u64) list \<Rightarrow> ledger \<Rightarrow> (string \<times> nat) option list" where
  "session_verdicts a [] L = [Some (''KILL'', the (L a))]"
| "session_verdicts a ((b, amount) # ts) L =
     verdict a b (unat amount) L # session_verdicts a ts (ledger_transfer a b (unat amount) L)"

definition told :: "ack_packet option \<Rightarrow> (string \<times> nat) option" where
  "told res = map_option (\<lambda>ack. (result ack, unat (new_balance ack))) res"

section \<open>One transfer\<close>

lemma settle_cases:
  assumes r: "database_records s a = Some r"
  obtains (accepted) res s' where "settle a b amount s = (Inr res, s')"
      and "status_code res = SUCCESS \<or> status_code res = BALANCE_CHECK"
      and "verdict a b (unat amount) (ledger_of s) =
        Some (transaction_text (status_code res), unat (balance (response_record res)))"
    | (refused) "refused a b amount s" and "verdict a b (unat amount) (ledger_of s) = None"
proof (cases "amount = 0")
  case True
  then show thesis
    using r accepted [of "respond True r BALANCE_CHECK" s]
    by (simp add: settle_def verdict_def ledger_of_def)
next
  case False
  then have pos: "unat amount \<noteq> 0" by (simp add: unat_eq_0)
  show thesis
  proof (cases "a = b \<or> database_records s b = None \<or> balance r < amount")
    case True
    then show thesis
      using r pos False refused
      by (auto simp: refused_def verdict_def covered_def ledger_of_def word_less_nat_alt)
  next
    case pays: False
    then obtain q where q: "database_records s b = Some q" by auto
    have enough: "amount \<le> balance r" using pays by (simp add: not_less)
    obtain s' where "settle a b amount s = (Inr (respond True (debited amount r) SUCCESS), s')"
      using settle_covered [OF r q _ False enough] pays by auto
    moreover have "verdict a b (unat amount) (ledger_of s) = Some (''SUCCESS'', unat (balance r - amount))"
      using pays q r pos enough
      by (simp add: verdict_def covered_def ledger_of_def word_le_nat_alt unat_sub)
    ultimately show thesis using accepted by simp
  qed
qed

lemma refused_keeps_ledger: "refused a b amount s \<Longrightarrow> ledger_transfer a b (unat amount) (ledger_of s) = ledger_of s"
  by (auto simp: refused_def ledger_transfer_def ledger_of_def word_less_nat_alt split: option.split)

lemma refused_tries:
  "db_ok s \<Longrightarrow> refused (sin_addr cli) b amount s \<Longrightarrow> current_request d = expected cli s \<Longrightarrow>
    servaddr d = requests_addr host port \<Longrightarrow>
    \<exists>d' s'. dispatch_loop (server_network cli host port) g k (transfer_request b amount) d (quiet, s) =
        (None, d', (quiet, s')) \<and>
      db_ok s' \<and> ledger_of s' = ledger_of s \<and> servaddr d' = requests_addr host port"
proof (induction k arbitrary: d s)
  case (Suc k)
  let ?a = "sin_addr cli" and ?net = "server_network cli host port" and ?r = "transfer_request b amount"
  obtain res t where t: "settle ?a b amount s = (Inr res, t)"
    "status_code res \<notin> {SUCCESS, BALANCE_CHECK, UNKNOWN_SENDER, NOT_FOUND}"
    "database_records t ?a = Some (response_record res)" "refused ?a b amount t" "ledger_of t = ledger_of s"
    by (rule settle_refused [OF Suc.prems(2)]) blast
  let ?d = "d\<lparr>current_request := last_request (response_record res) + 1\<rparr>"
  note exchange = settled_exchange [OF Suc.prems(4,3,1) t(1) refl]
  have "dispatch_loop ?net g (Suc k) ?r d (quiet, s) = dispatch_loop ?net g k ?r ?d (quiet, t)"
    using exchange t(2) by simp
  moreover have "db_ok t" using db_ok_settle [OF Suc.prems(1), of ?a b amount] t(1) by simp
  moreover have "current_request ?d = expected cli t" using t(3) by (simp add: expected_def)
  ultimately show ?case using Suc.IH [of t ?d] t(4,5) Suc.prems(4) by auto
qed simp

text \<open>A client and a server between two requests of a session.\<close>

definition in_session :: "sockaddr_in \<Rightarrow> in_addr \<Rightarrow> i32 \<Rightarrow> dispatcher \<Rightarrow> db_manager \<Rightarrow> bool" where
  "in_session cli host port d s \<longleftrightarrow> db_ok s \<and> money s < 2 ^ 64 \<and> ledger_of s (sin_addr cli) \<noteq> None \<and>
     servaddr d = requests_addr host port"

lemma ledger_known: "ledger_of s a \<noteq> None \<longleftrightarrow> database_records s a \<noteq> None"
  by (simp add: ledger_of_def)

lemma transfer_known: "ledger_transfer a b n L c \<noteq> None \<longleftrightarrow> L c \<noteq> None"
  by (auto simp: ledger_transfer_def split: option.split)

lemma money_of_ledger: "ledger_of s' = ledger_of s \<Longrightarrow> money s' = money s"
proof -
  assume same: "ledger_of s' = ledger_of s"
  have "money u = value_sum id (ledger_of u)" for u
    by (auto simp: money_def value_sum_def ledger_of_def dom_def intro!: sum.cong)
  with same show ?thesis by simp
qed

text \<open>Some tries with the right number: the first one decides.\<close>

lemma tries_in_step:
  assumes session: "in_session cli host port d s" and step: "current_request d = expected cli s"
  shows "\<exists>res d' s'. dispatch_loop (server_network cli host port) g (Suc k) (transfer_request b amount) d (quiet, s) =
      (res, d', (quiet, s')) \<and>
    in_session cli host port d' s' \<and>
    ledger_of s' = ledger_transfer (sin_addr cli) b (unat amount) (ledger_of s) \<and>
    told res = verdict (sin_addr cli) b (unat amount) (ledger_of s)"
proof -
  let ?a = "sin_addr cli" and ?r = "transfer_request b amount"
  have ok: "db_ok s" "money s < 2 ^ 64" "servaddr d = requests_addr host port"
    and known: "ledger_of s ?a \<noteq> None"
    using session by (simp_all add: in_session_def)
  obtain r where r: "database_records s ?a = Some r" using known using ledger_known [of s ?a] by auto
  from r show ?thesis
  proof (cases rule: settle_cases [where b = b and amount = amount])
    case (accepted res s')
    let ?ack = "transaction_reply ?a (REQ_Packet (scast (current_request d)) b amount) res"
    let ?d = "d\<lparr>current_request := last_request (response_record res) + 1\<rparr>"
    note exchange = settled_exchange [OF ok(3) step ok(1) accepted(1) refl]
    have loop: "dispatch_loop (server_network cli host port) g (Suc k) ?r d (quiet, s) = (Some ?ack, ?d, (quiet, s'))"
      using exchange accepted(2) by auto
    have s': "s' = snd (settle ?a b amount s)" using accepted(1) by simp
    have "in_session cli host port ?d s'"
      using ok known db_ok_settle [OF ok(1)] money_settle [OF ok(1,2)] ledger_settle [OF ok(1,2), of ?a b amount]
        transfer_known [of ?a b "unat amount" "ledger_of s" ?a]
      unfolding in_session_def s' by simp
    moreover have "told (Some ?ack) = verdict ?a b (unat amount) (ledger_of s)"
      using accepted(2,3) by (auto simp: told_def transaction_reply_def ACK_Packet_def)
    ultimately show ?thesis
      using loop ledger_settle [OF ok(1,2), of ?a b amount] s' by blast
  next
    case refused
    obtain d' s' where over: "dispatch_loop (server_network cli host port) g (Suc k) ?r d (quiet, s) = (None, d', (quiet, s'))"
      "db_ok s'" "ledger_of s' = ledger_of s" "servaddr d' = requests_addr host port"
      using refused_tries [OF ok(1) refused(1) step ok(3)] by blast
    have "in_session cli host port d' s'"
      using over ok known money_of_ledger [OF over(3)] by (simp add: in_session_def)
    then show ?thesis
      using over refused refused_keeps_ledger [OF refused(1)] by (auto simp: told_def)
  qed
qed

lemma session_transfer:
  assumes "in_session cli host port d s"
  obtains res d' s' where
    "dispatch_request (server_network cli host port) g (transfer_request b amount) d (quiet, s) = (res, d', (quiet, s'))"
    "in_session cli host port d' s'"
    "ledger_of s' = ledger_transfer (sin_addr cli) b (unat amount) (ledger_of s)"
    "told res = verdict (sin_addr cli) b (unat amount) (ledger_of s)"
proof (cases "current_request d = expected cli s")
  case True
  then show thesis
    using tries_in_step [OF assms True, of g 4 b amount] that by (auto simp: dispatch_request_def MAX_RETRIES_def)
next
  case False
  let ?d = "d\<lparr>current_request := expected cli s\<rparr>"
  have "in_session cli host port ?d s" "servaddr d = requests_addr host port"
    using assms by (simp_all add: in_session_def)
  then show thesis
    using tries_in_step [of cli host port ?d s g 3 b amount] try_out_of_step [OF _ False, of host port g 4 b amount] that
    by (auto simp: dispatch_request_def MAX_RETRIES_def)
qed

section \<open>The end of a session\<close>

lemma multiplex_KIL: "multiplex cli ''KIL END'' = Start (Kil_message cli KIL_Packet)"
  by (simp add: multiplex_def MAX_PACKET_SIZE_def Let_def string_packet_type_def text_simps)

lemma kill_answer:
  assumes ok: "db_ok s" and r: "database_records s (sin_addr cli) = Some r"
  obtains t where "server_answer cli host port (requests_addr host port) (serialized_request kill_request d) s =
      (Datagram (requests_addr host port)
         (ACK_Packet_to_string (ACK_Packet (-1) ''KILL'' (balance r) (sin_addr cli) 0 (balance r))), t)"
    and "db_ok t" and "ledger_of t = ledger_close (sin_addr cli) (ledger_of s)"
proof -
  obtain t where removed: "remove_client (sin_addr cli) s = (Inr (respond True r SUCCESS), t)"
    using remove_client_known [of s "sin_addr cli" r] ok r by (simp add: db_ok_def)
  have "serve_datagram cli (serialized_request kill_request d) s =
      (Inr [Reply cli (ACK_Packet_to_string (ACK_Packet (-1) ''KILL'' (balance r) (sin_addr cli) 0 (balance r))),
            Broadcast_update (get_db_snapshot t)], t)"
    using removed
    by (simp add: serve_datagram_def serialized_request_def kill_request_def multiplex_KIL
        process_kill_packet_def kill_reply_def KIL_Packet_def respond_def Let_def)
  then show thesis
    using that [of t] db_ok_remove [OF ok, of "sin_addr cli"] ledger_remove [OF ok, of "sin_addr cli"] removed
    by (simp add: server_answer_def answer_of_def)
qed

lemma kill_try:
  assumes ok: "db_ok s" and r: "database_records s (sin_addr cli) = Some r"
    and addr: "servaddr d = requests_addr host port"
  obtains ack d' s' where
    "dispatch_loop (server_network cli host port) g (Suc k) kill_request d (quiet, s) = (Some ack, d', (quiet, s'))"
    "db_ok s'" "ledger_of s' = ledger_close (sin_addr cli) (ledger_of s)"
    "told (Some ack) = Some (''KILL'', unat (balance r))"
proof -
  let ?ack = "ACK_Packet (-1) ''KILL'' (balance r) (sin_addr cli) 0 (balance r)"
  obtain t where t: "server_answer cli host port (requests_addr host port) (serialized_request kill_request d) s =
      (Datagram (requests_addr host port) (ACK_Packet_to_string ?ack), t)"
    "db_ok t" "ledger_of t = ledger_close (sin_addr cli) (ledger_of s)"
    by (rule kill_answer [OF ok r])
  have "to_ACK_Packet (buffer_text CLIENT_MAXLINE (ACK_Packet_to_string ?ack)) = Inr ?ack"
    by (rule ack_received) (auto simp: ack_encodable_def ACK_Packet_def text_simps no_space_def isspace_def)
  then have "dispatch_loop (server_network cli host port) g (Suc k) kill_request d (quiet, s) =
      (Some ?ack, d\<lparr>current_request := 0\<rparr>, (quiet, t))"
    using t(1) addr by (simp add: handle_response_def ACK_Packet_def)
  then show thesis using that t by (simp add: told_def ACK_Packet_def)
qed

lemma session_kill:
  assumes "in_session cli host port d s"
  obtains ack d' s' where
    "dispatch_request (server_network cli host port) g kill_request d (quiet, s) = (Some ack, d', (quiet, s'))"
    "db_ok s'" "ledger_of s' = ledger_close (sin_addr cli) (ledger_of s)"
    "told (Some ack) = Some (''KILL'', the (ledger_of s (sin_addr cli)))"
proof -
  have pre: "db_ok s" "servaddr d = requests_addr host port" using assms by (simp_all add: in_session_def)
  obtain r where r: "database_records s (sin_addr cli) = Some r"
    using assms by (auto simp: in_session_def ledger_of_def)
  obtain ack d' s' where "dispatch_loop (server_network cli host port) g (Suc 4) kill_request d (quiet, s) = (Some ack, d', (quiet, s'))"
    "db_ok s'" "ledger_of s' = ledger_close (sin_addr cli) (ledger_of s)"
    "told (Some ack) = Some (''KILL'', unat (balance r))"
    by (rule kill_try [OF pre(1) r pre(2)])
  then show thesis
    using that r by (simp add: dispatch_request_def MAX_RETRIES_def ledger_of_def)
qed

lemma session_serves:
  assumes "in_session cli host port d s"
  shows "\<exists>out d' s'. serve (server_network cli host port) g
      (map (\<lambda>(b, amount). transfer_request b amount) ts @ [kill_request]) d (quiet, s) = (out, d', (quiet, s')) \<and>
    db_ok s' \<and>
    ledger_of s' = ledger_close (sin_addr cli) (session_ledger (sin_addr cli) ts (ledger_of s)) \<and>
    map (told \<circ> snd) out = session_verdicts (sin_addr cli) ts (ledger_of s)"
  using assms
proof (induction ts arbitrary: d s)
  case Nil
  obtain ack d' s' where
    "dispatch_request (server_network cli host port) g kill_request d (quiet, s) = (Some ack, d', (quiet, s'))"
    "db_ok s'" "ledger_of s' = ledger_close (sin_addr cli) (ledger_of s)"
    "told (Some ack) = Some (''KILL'', the (ledger_of s (sin_addr cli)))"
    by (rule session_kill [OF Nil])
  then show ?case by simp
next
  case (Cons t ts)
  obtain b amount where t: "t = (b, amount)" by force
  obtain res d1 s1 where one:
    "dispatch_request (server_network cli host port) g (transfer_request b amount) d (quiet, s) = (res, d1, (quiet, s1))"
    "in_session cli host port d1 s1" "ledger_of s1 = ledger_transfer (sin_addr cli) b (unat amount) (ledger_of s)"
    "told res = verdict (sin_addr cli) b (unat amount) (ledger_of s)"
    by (rule session_transfer [OF Cons.prems])
  show ?case using Cons.IH [OF one(2)] one t by auto
qed

section \<open>The start of a session\<close>

lemma session_start:
  assumes ok: "db_ok s" and small: "money s + 100000 < 2 ^ 64" and port: "0 < sint port" "sint port < 65535"
    and start: "RequestDispatcher (server_network cli host port) g port (quiet, s) = (d, e)"
  obtains s1 where "e = (quiet, s1)" "in_session cli host port d s1" "is_alive d" "request_queue d = []"
    "ledger_of s1 = ledger_open (sin_addr cli) (ledger_of s)"
proof -
  let ?a = "sin_addr cli" and ?net = "server_network cli host port"
  obtain s1 where s1: "client_discovery_protocol ?net ''255.255.255.255'' port (Suc 4) (quiet, s) =
      (Some (inet_ntop host, port + 1), (quiet, s1))" "db_ok s1" "ledger_of s1 = ledger_open ?a (ledger_of s)"
    by (rule discovery_succeeds [OF ok _ port, of quiet cli host 4]) simp_all
  have "ledger_of s1 = ledger_of (snd (register_client ?a s))"
    using s1(3) ledger_register [OF ok, of ?a] by simp
  then have "money s1 < 2 ^ 64"
    using money_of_ledger [of s1 "snd (register_client ?a s)"] money_register [OF ok, of ?a] small by simp
  moreover have "ledger_of s1 ?a \<noteq> None" using s1(3) by (simp add: ledger_open_def)
  ultimately show thesis
    using that start s1
    by (simp add: RequestDispatcher_def locate_request_server_def requests_addr_def in_session_def
        split: prod.splits) auto
qed

text \<open>What the input queues.\<close>

lemma transfer_line_requests: "line_requests (transfer_line (b, amount)) = Inr [transfer_request b amount]"
proof -
  let ?line = "inet_ntop b @ '' '' @ show_nat (unat amount)"
  obtain c cs where "inet_ntop b = c # cs" "isdigit c"
    unfolding inet_ntop_def by (metis append_Cons show_nat_split)
  then have "take 4 ?line \<noteq> ''TEST''" by (auto simp: isdigit_def)
  moreover have "request_from_string ?line = Inr (transfer_request b amount)"
    using request_input_checks [OF inet_ntop_no_space, of b "unat amount"] unat_less_64 [of amount]
    by (simp add: transfer_request_def inet_addr_inet_ntop)
  ultimately show ?thesis by (simp add: line_requests_def transfer_line_def)
qed

lemma session_requests:
  "valid_requests (input_requests (map transfer_line ts)) =
     map (\<lambda>(b, amount). transfer_request b amount) ts @ [kill_request]"
proof (induction ts)
  case (Cons t ts)
  then show ?case by (cases t) (simp add: transfer_line_requests transfer_request_def)
qed (simp add: kill_request_def)

lemma session_no_crash: "input_crash (map transfer_line ts) = None"
proof (induction ts)
  case (Cons t ts)
  then show ?case by (cases t) (simp add: transfer_line_requests)
qed simp

text \<open>No line of a session ends the program with an exception, so it comes to its end.\<close>

lemma session_ends:
  assumes "client_ok net g (map transfer_line ts) d0 e0 c"
  shows "\<exists>c'. (client_step net g)\<^sup>*\<^sup>* c c' \<and> fst c' = Main_done"
proof -
  obtain m t d lk out e where run: "(client_step net g)\<^sup>*\<^sup>* c (m, t, d, lk, out, e)"
    and over: "client_over (m, t, d, lk, out, e)"
    using client_ends.finishes [OF assms] by (metis prod_cases6)
  have "crash_ahead m = None"
    using client_ok_crash [OF client_threads.inv_steps [OF run assms]] session_no_crash [of ts] by simp
  then have "m = Main_done" using over by (cases m) simp_all
  with run show ?thesis by fastforce
qed

section \<open>Properties\<close>

text \<open>
  C1. The whole program, end to end. A client that starts with the port of a coordinator,
  whose user types any list of transfers, covered or not, and ends the input, implements the
  abstract ledger: whatever its two threads have done so far, in whatever order, the program
  can come to its end, and when it is there, the accounts of the server are the ones after
  opening the client's account, executing each covered transfer once, in order, and closing
  the account; and the user was told SUCCESS and the new balance for each of these, the
  balance for each amount 0, nothing for the others, and the balance that was removed.
\<close>

theorem session_implements_ledger:
  fixes cli :: sockaddr_in
  assumes "db_ok s" and "money s + 100000 < 2 ^ 64" and "0 < sint port" and "sint port < 65535"
    and "RequestDispatcher (server_network cli host port) g port (quiet, s) = (d0, e0)"
    and "(client_step (server_network cli host port) g)\<^sup>*\<^sup>*
      (Main_read (map transfer_line ts), Disp_alive, d0, False, [], e0) (m, t, d, lk, out, losses, s')"
  shows "(\<exists>c. (client_step (server_network cli host port) g)\<^sup>*\<^sup>* (m, t, d, lk, out, losses, s') c \<and> fst c = Main_done) \<and>
    (m = Main_done \<longrightarrow> (let a = sin_addr cli; L = ledger_open a (ledger_of s)
      in db_ok s' \<and> ledger_of s' = ledger_close a (session_ledger a ts L) \<and>
        map (told \<circ> snd) out = session_verdicts a ts L))"
proof -
  let ?net = "server_network cli host port" and ?rs = "map (\<lambda>(b, amount). transfer_request b amount) ts @ [kill_request]"
  obtain s1 where s1: "e0 = (quiet, s1)" "in_session cli host port d0 s1" "is_alive d0" "request_queue d0 = []"
    "ledger_of s1 = ledger_open (sin_addr cli) (ledger_of s)"
    by (rule session_start [OF assms(1-5)])
  have ok: "client_ok ?net g (map transfer_line ts) d0 e0 (m, t, d, lk, out, losses, s')"
    using s1(3,4) by (intro client_threads.inv_reachable [OF _ assms(6)]) (simp add: client_start_def)
  have idle: "in_session cli host port (idle d0) s1" using s1(2) by (simp add: in_session_def)
  have "serve ?net g ?rs (idle d0) (quiet, s1) = (out, idle d, losses, s')" if "m = Main_done"
    using ok s1(1) that by (auto simp: client_ok_def session_requests)
  then show ?thesis
    using session_ends [OF ok] session_serves [OF idle, of g ts] s1(5) by (auto simp: Let_def)
qed

theorem session_implements_ledger_witness:
  "\<exists>d0 e0 t d lk out losses s'.
    RequestDispatcher (server_network \<lparr>sin_port = 5, sin_addr = 1\<rparr> sample_host 4000) ([], 0) 4000 (quiet, two_clients) = (d0, e0) \<and>
    (client_step (server_network \<lparr>sin_port = 5, sin_addr = 1\<rparr> sample_host 4000) ([], 0))\<^sup>*\<^sup>*
      (Main_read [transfer_line (2, 30), transfer_line (2, 200000)], Disp_alive, d0, False, [], e0)
      (Main_done, t, d, lk, out, losses, s') \<and>
    ledger_of s' = [2 \<mapsto> 100030] \<and>
    map (told \<circ> snd) out = [Some (''SUCCESS'', 99970), None, Some (''KILL'', 99970)]"
proof -
  let ?cli = "\<lparr>sin_port = 5, sin_addr = 1\<rparr> :: sockaddr_in" and ?ts = "[(2, 30), (2, 200000)] :: (in_addr \<times> u64) list"
  let ?net = "server_network ?cli sample_host 4000"
  obtain d0 e0 where start: "RequestDispatcher ?net ([], 0) 4000 (quiet, two_clients) = (d0, e0)" by (metis prod.exhaust)
  have pre: "db_ok two_clients" "money two_clients + 100000 < 2 ^ 64" "0 < sint (4000 :: i32)" "sint (4000 :: i32) < 65535"
    using two_clients_ok two_clients_money by simp_all
  obtain s1 where s1: "is_alive d0" "request_queue d0 = []"
    using session_start [OF pre start] by blast
  have ok: "client_ok ?net ([], 0) (map transfer_line ?ts) d0 e0
      (Main_read (map transfer_line ?ts), Disp_alive, d0, False, [], e0)"
    using s1 by (intro client_threads.inv_start) (simp add: client_start_def)
  obtain t d lk out losses s' where run: "(client_step ?net ([], 0))\<^sup>*\<^sup>*
      (Main_read (map transfer_line ?ts), Disp_alive, d0, False, [], e0) (Main_done, t, d, lk, out, losses, s')"
    using session_ends [OF ok] by (metis fst_conv prod_cases6 prod.exhaust)
  have ledger: "ledger_of two_clients = [1 \<mapsto> 100000, 2 \<mapsto> 100000]"
    by (auto simp: ledger_of_def two_clients_records fun_eq_iff)
  have steps: "ledger_open 1 [1 \<mapsto> 100000, 2 \<mapsto> 100000] = [1 \<mapsto> 100000, 2 \<mapsto> 100000]"
    "ledger_transfer 1 2 30 [1 \<mapsto> 100000, 2 \<mapsto> 100000] = [1 \<mapsto> 99970, 2 \<mapsto> 100030]"
    "ledger_transfer 1 2 200000 [1 \<mapsto> 99970, 2 \<mapsto> 100030] = [1 \<mapsto> 99970, 2 \<mapsto> 100030]"
    "ledger_close 1 [1 \<mapsto> 99970, 2 \<mapsto> 100030] = [2 \<mapsto> 100030]"
    by (auto simp: ledger_open_def ledger_transfer_def ledger_close_def fun_eq_iff)
  have "ledger_of s' = [2 \<mapsto> 100030] \<and> map (told \<circ> snd) out = [Some (''SUCCESS'', 99970), None, Some (''KILL'', 99970)]"
    using session_implements_ledger [OF pre start run]
    by (simp add: ledger steps verdict_def covered_def Let_def)
  then show ?thesis using start run by fastforce
qed

end
