(* ===== verification/Lossy_Link.thy ===== *)
theory Lossy_Link
  imports Client_Session
begin

text \<open>
  The client and the coordinator of \<open>Client_Server\<close> on a line that loses datagrams or holds
  replies back: how often a transfer can be executed and what the user is then told, what
  becomes of an account whose closing reply is lost, and what a late reply does to the
  requests after it.
\<close>

section \<open>Losing datagrams\<close>

lemma serialized_not_discovery [simp]: "serialized_request r d \<noteq> discovery_message"
  by (cases "request_kind r")
    (simp_all add: serialized_request_def discovery_message_def REQ_Packet_to_string_def)

lemma snd_answer_of [simp]: "snd (answer_of cli server out) = snd out"
  by (simp add: answer_of_def split: prod.split sum.split option.split)

lemma serialized_frame [simp]: "serialized_request r (d\<lparr>servaddr := addr\<rparr>) = serialized_request r d"
  by (cases "request_kind r") (simp_all add: serialized_request_def)

text \<open>What a datagram of the dispatcher brings, when no reply waits or is held back.\<close>

lemma network_request:
  assumes "Reply_held \<notin> set fates"
  shows "server_network cli host port addr (serialized_request r d) ((fates, [], []), s) =
    (let (ev, s') = server_answer cli host port addr (serialized_request r d) s
     in (if next_fate fates = Delivered then ev else Nothing_received, (tl fates, [], []),
         if next_fate fates = Request_lost then s else s'))"
proof -
  have "first_datagram (datagrams ev) = ev" "tl (datagrams ev) = []" for ev
    by (cases ev; simp)+
  moreover have "next_fate fates \<noteq> Reply_held" using assms by (cases fates) auto
  ultimately show ?thesis
    by (auto simp: server_network_def split_beta Let_def)
qed

text \<open>Looking for the server changes nothing for a registered client, whatever is lost.\<close>

lemma greeter_keeps:
  assumes "db_ok s" "database_records s (sin_addr cli) \<noteq> None"
    and "addr = create_sockaddr ''255.255.255.255'' port \<or> addr = greeter_addr host port"
  shows "server_answer cli host port addr msg s =
    (if sin_port addr = 0 then Nothing_received
     else Datagram (greeter_addr host port) (greeter_reply (inet_ntop host) port), s)"
proof -
  have "addr \<noteq> requests_addr host port"
    using assms(3) ports_differ unfolding greeter_addr_def by metis
  then show ?thesis
    using discovery_step_answers [OF assms(1), of "greeter_reply (inet_ntop host) port" cli msg] assms(2,3)
    by (auto simp: server_answer_def answer_of_def)
qed

lemma search_keeps:
  assumes "db_ok s" "database_records s (sin_addr cli) \<noteq> None"
  shows "addr = create_sockaddr ''255.255.255.255'' port \<or> addr = greeter_addr host port \<Longrightarrow>
    \<exists>fates'. snd (discovery_loop (server_network cli host port) k addr ((fates, inbox, held), s)) =
      ((fates', inbox, held), s) \<and> set fates' \<subseteq> set fates"
proof (induction k arbitrary: addr fates)
  case (Suc k)
  have tl: "set (tl fates) \<subseteq> set fates" by (cases fates) auto
  have "\<exists>ev. server_network cli host port addr discovery_message ((fates, inbox, held), s) =
      (ev, ((tl fates, inbox, held), s)) \<and> (ev = Nothing_received \<or> (\<exists>text. ev = Datagram (greeter_addr host port) text))"
    using greeter_keeps [OF assms Suc.prems, of discovery_message]
    by (auto simp: server_network_def Let_def)
  then obtain ev where ev: "server_network cli host port addr discovery_message ((fates, inbox, held), s) =
      (ev, ((tl fates, inbox, held), s))" "ev = Nothing_received \<or> (\<exists>text. ev = Datagram (greeter_addr host port) text)"
    by blast
  have "\<exists>fates'. snd (discovery_loop (server_network cli host port) k to ((tl fates, inbox, held), s)) =
      ((fates', inbox, held), s) \<and> set fates' \<subseteq> set fates"
    if "to = create_sockaddr ''255.255.255.255'' port \<or> to = greeter_addr host port" for to
    using Suc.IH [OF that, of "tl fates"] tl by (meson subset_trans)
  then show ?case
    using ev tl Suc.prems by (auto simp: split_beta)
qed auto

lemma locate_keeps:
  assumes "db_ok s" "database_records s (sin_addr cli) \<noteq> None" "location_service_port d = port"
  obtains fates' where "snd (locate_request_server (server_network cli host port) g d ((fates, inbox, held), s)) =
      ((fates', inbox, held), s)" and "set fates' \<subseteq> set fates"
  using search_keeps [OF assms(1,2), of "create_sockaddr ''255.255.255.255'' port" port host 5 fates inbox held]
    that assms(3)
  by (auto simp: locate_request_server_def client_discovery_protocol_def split_beta)

text \<open>
  A try of a transfer, as the server takes it: it is executed, or it leaves the ledger as it
  is and its reply, if any, does not read as a success.
\<close>

definition reads_success :: "received \<Rightarrow> ack_packet \<Rightarrow> bool" where
  "reads_success ev ack \<longleftrightarrow> (case ev of Nothing_received \<Rightarrow> False
     | Datagram src text \<Rightarrow> to_ACK_Packet (buffer_text CLIENT_MAXLINE text) = Inr ack \<and> result ack = ''SUCCESS'')"

definition executes :: "sockaddr_in \<Rightarrow> in_addr \<Rightarrow> u64 \<Rightarrow> i32 \<Rightarrow> db_manager \<Rightarrow> received \<Rightarrow> db_manager \<Rightarrow> bool" where
  "executes cli b amount c s ev s' \<longleftrightarrow> c = expected cli s \<and> c \<noteq> expected cli s' \<and>
     ledger_of s' = ledger_transfer (sin_addr cli) b (unat amount) (ledger_of s) \<and>
     (\<exists>ack. reads_success ev ack \<and> ledger_of s' (sin_addr cli) = Some (unat (new_balance ack)))"

definition ignores :: "db_manager \<Rightarrow> received \<Rightarrow> db_manager \<Rightarrow> bool" where
  "ignores s ev s' \<longleftrightarrow> ledger_of s' = ledger_of s \<and> (\<forall>ack. \<not> reads_success ev ack)"

lemma greeter_reply_no_ack:
  "to_ACK_Packet (buffer_text CLIENT_MAXLINE (greeter_reply (inet_ntop host) port)) = Inl Invalid_argument"
proof -
  let ?words = "[''LOC'', inet_ntop host, show_int (sint (port + 1)), ''END'']"
  have reply: "greeter_reply (inet_ntop host) port = unwords ?words"
    by (simp add: greeter_reply_def discovery_reply_def)
  have "no_nul (unwords ?words)" "length (unwords ?words) \<le> CLIENT_MAXLINE"
    using length_inet_ntop [of host] length_show_i32 [of "port + 1"] by (simp_all add: CLIENT_MAXLINE_def)
  moreover have "tokens (unwords ?words) = ?words"
    by (rule tokens_unwords) (simp add: text_simps)
  ultimately show ?thesis unfolding reply by (simp add: buffer_text_id to_ACK_Packet_def)
qed

lemma settle_not_accepted:
  "settle a b amount s = (Inr res, s') \<Longrightarrow> status_code res \<noteq> SUCCESS \<Longrightarrow> ledger_of s' = ledger_of s"
  by (auto simp: settle_def ledger_of_def fun_eq_iff split: option.splits if_splits)

lemma settle_success:
  assumes "settle a b amount s = (Inr res, s')" "status_code res = SUCCESS"
  shows "last_request (known_record a s') = last_request (known_record a s) + 1 \<and>
    ledger_of s' a = Some (unat (balance (response_record res)))"
  using assms by (auto simp: settle_def ledger_of_def split: option.splits if_splits)

lemma accepted_reply:
  assumes "transaction_text (status_code res) = ''SUCCESS''"
  shows "status_code res = SUCCESS"
  using assms by (cases "status_code res") simp_all

lemma try_outcome:
  assumes ok: "db_ok s" "money s < 2 ^ 64" and known: "database_records s (sin_addr cli) \<noteq> None"
    and answer: "server_answer cli host port addr (serialized_request (transfer_request b amount) d) s = (ev, s')"
  shows "(executes cli b amount (current_request d) s ev s' \<or> ignores s ev s') \<and>
    (s' = s \<or> s' = snd (settle (sin_addr cli) b amount s))"
proof -
  let ?a = "sin_addr cli"
  consider (other) "addr \<noteq> requests_addr host port"
    | (late) "addr = requests_addr host port" "current_request d \<noteq> expected cli s"
    | (now) "addr = requests_addr host port" "current_request d = expected cli s" by blast
  then show ?thesis
  proof cases
    case other
    then have same: "s' = s" "(ev = Nothing_received \<or> ev = Datagram (greeter_addr host port) (greeter_reply (inet_ntop host) port))"
      using answer greeter_keeps [OF ok(1) known, of addr port host]
      by (auto simp: server_answer_def split: if_splits)
    then have "ignores s ev s'" using greeter_reply_no_ack by (auto simp: ignores_def reads_success_def)
    with same show ?thesis by blast
  next
    case late
    let ?d = "d\<lparr>servaddr := addr\<rparr>"
    have pre: "servaddr ?d = requests_addr host port" "current_request ?d \<noteq> expected cli s"
      using late by simp_all
    obtain ack where ack: "server_network cli host port (servaddr ?d)
        (serialized_request (transfer_request b amount) ?d) (quiet, s) =
        (Datagram (servaddr ?d) (ACK_Packet_to_string ack), (quiet, s))"
      "to_ACK_Packet (buffer_text CLIENT_MAXLINE (ACK_Packet_to_string ack)) = Inr ack"
      "handle_response ack ?d = (False, ?d\<lparr>current_request := expected cli s\<rparr>)"
      by (rule refused_exchange [OF pre, of b amount])
    have "ev = Datagram addr (ACK_Packet_to_string ack)" "s' = s"
      using ack(1) answer by simp_all
    moreover have "result ack \<noteq> ''SUCCESS''" using ack(3) by (auto simp: handle_response_def)
    ultimately have "ignores s ev s'" "s' = s" using ack(2) by (simp_all add: ignores_def reads_success_def)
    then show ?thesis by blast
  next
    case now
    let ?d = "d\<lparr>servaddr := addr\<rparr>"
    obtain res t where settled: "settle ?a b amount s = (Inr res, t)" by (rule settle_returns)
    let ?ack = "transaction_reply ?a (REQ_Packet (scast (current_request ?d)) b amount) res"
    note exchange = settled_exchange [of ?d host port cli s b amount res t ?ack, OF _ _ ok(1) settled refl]
    have "server_answer cli host port addr (serialized_request (transfer_request b amount) d) s =
        (Datagram addr (ACK_Packet_to_string ?ack), t)"
      using exchange(1) now by (auto split: prod.splits)
    then have ev: "ev = Datagram addr (ACK_Packet_to_string ?ack)" "s' = t" using answer by simp_all
    have reads: "to_ACK_Packet (buffer_text CLIENT_MAXLINE (ACK_Packet_to_string ?ack)) = Inr ?ack"
      using exchange(2) now by simp
    show ?thesis
    proof (cases "status_code res = SUCCESS")
      case True
      have "ledger_of t = ledger_transfer ?a b (unat amount) (ledger_of s)"
        using ledger_settle [OF ok, of ?a b amount] settled by simp
      moreover have "new_balance ?ack = balance (response_record res)"
        using True by (simp add: transaction_reply_def ACK_Packet_def)
      ultimately have "executes cli b amount (current_request d) s ev s'"
        using settle_success [OF settled True] ev reads now True
        by (auto simp: executes_def reads_success_def expected_def)
      then show ?thesis using ev settled by simp
    next
      case False
      then have "ignores s ev s'"
        using settle_not_accepted [OF settled] ev reads accepted_reply [of res]
        by (auto simp: ignores_def reads_success_def)
      then show ?thesis using ev settled by simp
    qed
  qed
qed

definition sound :: "sockaddr_in \<Rightarrow> db_manager \<Rightarrow> bool" where
  "sound cli s \<longleftrightarrow> db_ok s \<and> money s < 2 ^ 64 \<and> database_records s (sin_addr cli) \<noteq> None"

lemma sound_settle: "sound cli s \<Longrightarrow> sound cli (snd (settle (sin_addr cli) b amount s))"
  using db_ok_settle [of s "sin_addr cli" b amount] money_settle [of s "sin_addr cli" b amount]
    ledger_settle [of s "sin_addr cli" b amount]
    transfer_known [of "sin_addr cli" b "unat amount" "ledger_of s" "sin_addr cli"]
  unfolding sound_def ledger_known [symmetric] by auto

text \<open>
  One try on a line that loses what it likes: it ends with a reply that was understood, or
  the next try goes on from a server that has executed the transfer or ignored the datagram.
\<close>

definition progressed :: "sockaddr_in \<Rightarrow> in_addr \<Rightarrow> u64 \<Rightarrow> i32 \<Rightarrow> db_manager \<Rightarrow> db_manager \<Rightarrow> bool" where
  "progressed cli b amount c s s' \<longleftrightarrow> c = expected cli s \<and> c \<noteq> expected cli s' \<and>
     ledger_of s' = ledger_transfer (sin_addr cli) b (unat amount) (ledger_of s)"

lemma lossy_try:
  assumes port: "location_service_port d = port" and fates: "Reply_held \<notin> set fates" and s: "sound cli s"
  obtains (answered) ack d' fates' s' where
      "dispatch_loop (server_network cli host port) g (Suc k) (transfer_request b amount) d ((fates, [], []), s) =
        (Some ack, d', (fates', [], []), s')"
      "sound cli s'"
      "result ack \<noteq> ''SUCCESS'' \<and> ledger_of s' = ledger_of s \<or>
       progressed cli b amount (current_request d) s s' \<and> ledger_of s' (sin_addr cli) = Some (unat (new_balance ack))"
  | (again) d' fates' s' where
      "dispatch_loop (server_network cli host port) g (Suc k) (transfer_request b amount) d ((fates, [], []), s) =
        dispatch_loop (server_network cli host port) g k (transfer_request b amount) d' ((fates', [], []), s')"
      "sound cli s'" "location_service_port d' = port" "Reply_held \<notin> set fates'"
      "ledger_of s' = ledger_of s \<or>
       progressed cli b amount (current_request d) s s' \<and> current_request d' = current_request d"
proof -
  let ?net = "server_network cli host port" and ?r = "transfer_request b amount"
  obtain ev t where answer: "server_answer cli host port (servaddr d) (serialized_request ?r d) s = (ev, t)" by force
  have outcome: "executes cli b amount (current_request d) s ev t \<or> ignores s ev t"
    and sound: "sound cli t"
    using try_outcome [OF _ _ _ answer] sound_settle [OF s, of b amount] s by (auto simp: sound_def)
  define u where "u = (if next_fate fates = Request_lost then s else t)"
  have u: "sound cli u" using s sound by (simp add: u_def)
  have net: "?net (servaddr d) (serialized_request ?r d) ((fates, [], []), s) =
      (if next_fate fates = Delivered then ev else Nothing_received, (tl fates, [], []), u)"
    using network_request [OF fates] answer by (simp add: u_def)
  have rest: "Reply_held \<notin> set (tl fates)" using fates by (cases fates) auto
  show thesis
  proof (cases "if next_fate fates = Delivered then ev else Nothing_received")
    case Nothing_received
    obtain fates' where "snd (locate_request_server ?net g d ((tl fates, [], []), u)) = ((fates', [], []), u)"
      "set fates' \<subseteq> set (tl fates)"
      using locate_keeps [OF _ _ port, of u cli host g "tl fates" "[]" "[]"] u by (auto simp: sound_def)
    moreover obtain d' where d': "d' = fst (locate_request_server ?net g d ((tl fates, [], []), u))" by blast
    ultimately have "dispatch_loop ?net g (Suc k) ?r d ((fates, [], []), s) = dispatch_loop ?net g k ?r d' ((fates', [], []), u)"
      "Reply_held \<notin> set fates'" using net Nothing_received rest by (auto simp: split_beta)
    moreover have "ledger_of u = ledger_of s \<or> progressed cli b amount (current_request d) s u"
      using outcome by (auto simp: u_def ignores_def executes_def progressed_def)
    ultimately show thesis using again [of d' fates' u] u d' port by simp
  next
    case (Datagram src msg)
    then have got: "next_fate fates = Delivered" "ev = Datagram src msg" "u = t"
      by (simp_all add: u_def split: if_splits)
    show thesis
    proof (cases "to_ACK_Packet (buffer_text CLIENT_MAXLINE msg)")
      case (Inl e)
      then have "ledger_of t = ledger_of s"
        using outcome got by (auto simp: ignores_def executes_def reads_success_def)
      then show thesis
        using again [of "d\<lparr>servaddr := src\<rparr>" "tl fates" t] net got Inl u port rest by simp
    next
      case (Inr ack)
      let ?h = "handle_response ack (d\<lparr>servaddr := src\<rparr>)"
      have "result ack = ''SUCCESS'' \<Longrightarrow> executes cli b amount (current_request d) s ev t"
        "result ack \<noteq> ''SUCCESS'' \<Longrightarrow> ledger_of t = ledger_of s"
        using outcome got Inr by (auto simp: ignores_def executes_def reads_success_def)
      then have effect: "result ack \<noteq> ''SUCCESS'' \<and> ledger_of t = ledger_of s \<or>
          progressed cli b amount (current_request d) s t \<and> ledger_of t (sin_addr cli) = Some (unat (new_balance ack))"
        using got Inr by (auto simp: executes_def progressed_def reads_success_def)
      show thesis
      proof (cases "fst ?h")
        case True
        then show thesis
          using answered [of ack "snd ?h" "tl fates" t] net got Inr u effect by (simp add: split_beta)
      next
        case False
        then have "result ack \<noteq> ''SUCCESS''" by (simp add: handle_response_def)
        then have "ledger_of t = ledger_of s"
          using \<open>result ack \<noteq> ''SUCCESS'' \<Longrightarrow> _\<close> by blast
        then show thesis
          using again [of "snd ?h" "tl fates" t] net got Inr u port rest False
          by (simp add: split_beta) (simp add: handle_response_def)
      qed
    qed
  qed
qed

text \<open>
  The tries of a transfer on a line that loses what it likes. An execution needs the number
  the server expects, and the client gets the next one only from a reply: two executions are
  never consecutive tries.
\<close>

lemma lossy_tries:
  assumes "location_service_port d = port" "Reply_held \<notin> set fates" "sound cli s"
  shows "\<exists>j res d' fates' s'.
    dispatch_loop (server_network cli host port) g k (transfer_request b amount) d ((fates, [], []), s) =
      (res, d', (fates', [], []), s') \<and>
    2 * j \<le> k + of_bool (current_request d = expected cli s) \<and> sound cli s' \<and>
    ledger_of s' = (ledger_transfer (sin_addr cli) b (unat amount) ^^ j) (ledger_of s) \<and>
    (\<forall>ack. res = Some ack \<longrightarrow> result ack = ''SUCCESS'' \<longrightarrow>
       0 < j \<and> ledger_of s' (sin_addr cli) = Some (unat (new_balance ack)))"
  using assms
proof (induction k arbitrary: d fates s)
  case 0
  then show ?case by (intro exI [of _ 0]) simp
next
  case (Suc k)
  let ?T = "ledger_transfer (sin_addr cli) b (unat amount)"
  let ?c = "current_request d" and ?run = "dispatch_loop (server_network cli host port) g"
  from Suc.prems show ?case
  proof (cases rule: lossy_try [where host = host and g = g and k = k and b = b and amount = amount])
    case (answered ack d' fates' s')
    from answered(3) show ?thesis
    proof
      assume "result ack \<noteq> ''SUCCESS'' \<and> ledger_of s' = ledger_of s"
      then show ?thesis using answered(1,2) by (intro exI [of _ 0]) (simp del: dispatch_loop.simps)
    next
      assume "progressed cli b amount ?c s s' \<and> ledger_of s' (sin_addr cli) = Some (unat (new_balance ack))"
      then show ?thesis using answered(1,2)
        by (intro exI [of _ 1]) (auto simp: progressed_def simp del: dispatch_loop.simps)
    qed
  next
    case (again d' fates' s')
    obtain j res d2 fates2 s2 where rest: "?run k (transfer_request b amount) d' ((fates', [], []), s') =
        (res, d2, (fates2, [], []), s2)"
      "2 * j \<le> k + of_bool (current_request d' = expected cli s')" "sound cli s2"
      "ledger_of s2 = (?T ^^ j) (ledger_of s')"
      "\<forall>ack. res = Some ack \<longrightarrow> result ack = ''SUCCESS'' \<longrightarrow>
         0 < j \<and> ledger_of s2 (sin_addr cli) = Some (unat (new_balance ack))"
      using Suc.IH [OF again(3,4,2)] by blast
    from again(5) show ?thesis
    proof
      assume same: "ledger_of s' = ledger_of s"
      have "2 * j \<le> Suc k" using rest(2) by (auto simp: of_bool_def split: if_splits)
      then show ?thesis using rest same again(1) by (intro exI [of _ j]) (simp del: dispatch_loop.simps)
    next
      assume "progressed cli b amount ?c s s' \<and> current_request d' = ?c"
      then have "?c = expected cli s" "2 * Suc j \<le> Suc k + 1" "ledger_of s2 = (?T ^^ Suc j) (ledger_of s)"
        using rest(2,4) by (auto simp: progressed_def funpow_swap1)
      then show ?thesis using rest again(1) by (intro exI [of _ "Suc j"]) (simp del: dispatch_loop.simps funpow.simps)
    qed
  qed
qed

section \<open>Tries with a known fate\<close>

lemma quiet_line: "([], [], []) = quiet"
  by (simp add: quiet_def)

text \<open>A try whose reply does not arrive, and the search for the server after it.\<close>

lemma unanswered_try:
  assumes addr: "servaddr d = requests_addr host port" and fate: "f = Reply_lost \<or> f = Reply_held"
    and answer: "server_answer cli host port (requests_addr host port) (serialized_request r d) s = (ev, t)"
    and ok: "db_ok t" and port: "0 < sint port" "sint port < 65535" "location_service_port d = port"
  obtains u where "dispatch_loop (server_network cli host port) g (Suc k) r d ((f # Delivered # fates, [], held), s) =
      dispatch_loop (server_network cli host port) g k r d
        ((fates, [], held @ (if f = Reply_held then datagrams ev else [])), u)"
    and "db_ok u" and "ledger_of u = ledger_open (sin_addr cli) (ledger_of t)"
    and "database_records t (sin_addr cli) \<noteq> None \<longrightarrow> u = t"
proof -
  let ?net = "server_network cli host port" and ?held = "held @ (if f = Reply_held then datagrams ev else [])"
  have same: "d\<lparr>servaddr := requests_addr host port\<rparr> = d" using addr by (cases d) simp
  have lost: "?net (servaddr d) (serialized_request r d) ((f # Delivered # fates, [], held), s) =
      (Nothing_received, ((Delivered # fates, [], ?held), t))"
    using fate answer addr by (auto simp: server_network_def)
  obtain u where u: "locate_request_server ?net g d ((Delivered # fates, [], ?held), t) =
      (d\<lparr>servaddr := requests_addr host port\<rparr>, (after_next (Delivered # fates, [], ?held), u))"
    "db_ok u" "ledger_of u = ledger_open (sin_addr cli) (ledger_of t)"
    "database_records t (sin_addr cli) \<noteq> None \<longrightarrow> u = t"
    by (rule locate_succeeds [OF ok _ port, of "(Delivered # fates, [], ?held)" cli host g]) simp_all
  show thesis
    by (rule that [of u]) (use lost u same in simp_all)
qed

text \<open>A delivered try that the server refuses for its number.\<close>

lemma refused_answer:
  assumes "servaddr d = requests_addr host port" "current_request d \<noteq> expected cli s"
  obtains ack where "server_answer cli host port (requests_addr host port)
      (serialized_request (transfer_request b amount) d) s = (Datagram (requests_addr host port) (ACK_Packet_to_string ack), s)"
    and "to_ACK_Packet (buffer_text CLIENT_MAXLINE (ACK_Packet_to_string ack)) = Inr ack"
    and "handle_response ack d = (False, d\<lparr>current_request := expected cli s\<rparr>)"
proof -
  obtain ack where "server_network cli host port (servaddr d) (serialized_request (transfer_request b amount) d) (quiet, s) =
      (Datagram (servaddr d) (ACK_Packet_to_string ack), (quiet, s))"
    "to_ACK_Packet (buffer_text CLIENT_MAXLINE (ACK_Packet_to_string ack)) = Inr ack"
    "handle_response ack d = (False, d\<lparr>current_request := expected cli s\<rparr>)"
    by (rule refused_exchange [OF assms, of b amount])
  then show thesis using that assms(1) by (auto split: prod.splits)
qed

lemma refused_try:
  assumes addr: "servaddr d = requests_addr host port" and late: "current_request d \<noteq> expected cli s"
    and fate: "next_fate fates = Delivered"
  shows "dispatch_loop (server_network cli host port) g (Suc k) (transfer_request b amount) d ((fates, [], []), s) =
    dispatch_loop (server_network cli host port) g k (transfer_request b amount)
      (d\<lparr>current_request := expected cli s\<rparr>) ((tl fates, [], []), s)"
proof -
  obtain ack where "server_answer cli host port (requests_addr host port)
      (serialized_request (transfer_request b amount) d) s = (Datagram (requests_addr host port) (ACK_Packet_to_string ack), s)"
    "to_ACK_Packet (buffer_text CLIENT_MAXLINE (ACK_Packet_to_string ack)) = Inr ack"
    "handle_response ack d = (False, d\<lparr>current_request := expected cli s\<rparr>)"
    by (rule refused_answer [OF addr late])
  moreover have same: "d\<lparr>servaddr := requests_addr host port\<rparr> = d" using addr by (cases d) simp
  ultimately show ?thesis using addr fate by (simp add: server_network_def same)
qed

text \<open>What the server makes of a covered transfer with the number it expects.\<close>

lemma covered_answer:
  assumes ok: "sound cli s" and addr: "servaddr d = requests_addr host port" and step: "current_request d = expected cli s"
    and pay: "amount \<noteq> 0" "covered (sin_addr cli) b (unat amount) (ledger_of s)"
  obtains t ack where "server_answer cli host port (requests_addr host port)
      (serialized_request (transfer_request b amount) d) s = (Datagram (requests_addr host port) (ACK_Packet_to_string ack), t)"
    and "sound cli t" and "ledger_of t = ledger_transfer (sin_addr cli) b (unat amount) (ledger_of s)"
    and "expected cli t \<noteq> expected cli s"
    and "to_ACK_Packet (buffer_text CLIENT_MAXLINE (ACK_Packet_to_string ack)) = Inr ack"
    and "result ack = ''SUCCESS''" and "ack_receiver_ip ack = b" and "ack_transfer_amount ack = amount"
    and "ledger_of t (sin_addr cli) = Some (unat (new_balance ack))"
proof -
  let ?a = "sin_addr cli"
  obtain r q where r: "database_records s ?a = Some r" "database_records s b = Some q" "?a \<noteq> b" "amount \<le> balance r"
    using pay(2) by (auto simp: covered_def ledger_of_def word_le_nat_alt)
  obtain t where t: "settle ?a b amount s = (Inr (respond True (debited amount r) SUCCESS), t)"
    "database_records t ?a = Some (debited amount r)"
    by (rule settle_covered [OF r(1,2,3) pay(1) r(4)])
  let ?ack = "transaction_reply ?a (REQ_Packet (scast (current_request d)) b amount) (respond True (debited amount r) SUCCESS)"
  have db: "db_ok s" "money s < 2 ^ 64" using ok by (simp_all add: sound_def)
  note exchange = settled_exchange [OF addr step db(1) t(1) refl]
  have "server_answer cli host port (requests_addr host port) (serialized_request (transfer_request b amount) d) s =
      (Datagram (requests_addr host port) (ACK_Packet_to_string ?ack), t)"
    using exchange(1) addr by (auto split: prod.splits)
  moreover have "sound cli t" using sound_settle [OF ok, of b amount] t(1) by simp
  moreover have "ledger_of t = ledger_transfer ?a b (unat amount) (ledger_of s)"
    using ledger_settle [OF db, of ?a b amount] t(1) by simp
  moreover have "expected cli t \<noteq> expected cli s" using r(1) t(2) by (simp add: expected_def)
  moreover note exchange(2)
  moreover have "result ?ack = ''SUCCESS''" "ack_receiver_ip ?ack = b" "ack_transfer_amount ?ack = amount"
    by (simp_all add: transaction_reply_def ACK_Packet_def REQ_Packet_def)
  moreover have "ledger_of t ?a = Some (unat (new_balance ?ack))"
    using t(2) by (simp add: ledger_of_def transaction_reply_def ACK_Packet_def)
  ultimately show thesis by (rule that)
qed

text \<open>An execution whose reply is lost, and the refusal after it: two tries and one transfer.\<close>

lemma executed_unheard:
  assumes addr: "servaddr d = requests_addr host port" and step: "current_request d = expected cli s"
    and ok: "sound cli s" and pay: "amount \<noteq> 0" "covered (sin_addr cli) b (unat amount) (ledger_of s)"
    and port: "0 < sint port" "sint port < 65535" "location_service_port d = port"
    and fate: "next_fate fates = Delivered"
  obtains d' s' where
    "dispatch_loop (server_network cli host port) g (Suc (Suc k)) (transfer_request b amount) d
       ((Reply_lost # Delivered # fates, [], []), s) =
     dispatch_loop (server_network cli host port) g k (transfer_request b amount) d' ((tl fates, [], []), s')"
    and "sound cli s'" and "ledger_of s' = ledger_transfer (sin_addr cli) b (unat amount) (ledger_of s)"
    and "servaddr d' = requests_addr host port" and "current_request d' = expected cli s'"
    and "location_service_port d' = port"
proof -
  let ?run = "dispatch_loop (server_network cli host port) g" and ?r = "transfer_request b amount"
  obtain t ack where t: "server_answer cli host port (requests_addr host port) (serialized_request ?r d) s =
      (Datagram (requests_addr host port) (ACK_Packet_to_string ack), t)"
    "sound cli t" "ledger_of t = ledger_transfer (sin_addr cli) b (unat amount) (ledger_of s)"
    "expected cli t \<noteq> expected cli s"
    by (rule covered_answer [OF ok addr step pay])
  have db: "db_ok t" "database_records t (sin_addr cli) \<noteq> None" using t(2) by (simp_all add: sound_def)
  obtain u where u: "?run (Suc (Suc k)) ?r d ((Reply_lost # Delivered # fates, [], []), s) =
      ?run (Suc k) ?r d ((fates, [], [] @ (if Reply_lost = Reply_held then datagrams (Datagram (requests_addr host port) (ACK_Packet_to_string ack)) else [])), u)"
    "database_records t (sin_addr cli) \<noteq> None \<longrightarrow> u = t"
    by (rule unanswered_try [OF addr _ t(1) db(1) port, of Reply_lost g "Suc k" fates "[]"]) simp_all
  have "current_request d \<noteq> expected cli t" using step t(4) by simp
  from refused_try [OF addr this fate, of g k b amount] u db(2)
  have "?run (Suc (Suc k)) ?r d ((Reply_lost # Delivered # fates, [], []), s) =
      ?run k ?r (d\<lparr>current_request := expected cli t\<rparr>) ((tl fates, [], []), t)"
    by (simp del: dispatch_loop.simps)
  then show thesis using t port addr by (intro that [of "d\<lparr>current_request := expected cli t\<rparr>" t]) simp_all
qed

lemma covered_more:
  assumes "covered a b (Suc m * n) L"
  shows "covered a b n L" and "covered a b (m * n) (ledger_transfer a b n L)"
    and "the (ledger_transfer a b n L a) + n = the (L a)"
  using assms by (auto simp: covered_def ledger_transfer_def)

lemma covered_success:
  assumes addr: "servaddr d = requests_addr host port" and step: "current_request d = expected cli s"
    and ok: "sound cli s" and pay: "amount \<noteq> 0" "covered (sin_addr cli) b (unat amount) (ledger_of s)"
  obtains ack d' s' where
    "dispatch_loop (server_network cli host port) g (Suc k) (transfer_request b amount) d (quiet, s) = (Some ack, d', (quiet, s'))"
    and "ledger_of s' = ledger_transfer (sin_addr cli) b (unat amount) (ledger_of s)"
    and "result ack = ''SUCCESS''" and "ledger_of s' (sin_addr cli) = Some (unat (new_balance ack))"
proof -
  obtain t ack where t: "server_answer cli host port (requests_addr host port)
      (serialized_request (transfer_request b amount) d) s = (Datagram (requests_addr host port) (ACK_Packet_to_string ack), t)"
    "sound cli t" "ledger_of t = ledger_transfer (sin_addr cli) b (unat amount) (ledger_of s)"
    "expected cli t \<noteq> expected cli s"
    "to_ACK_Packet (buffer_text CLIENT_MAXLINE (ACK_Packet_to_string ack)) = Inr ack"
    "result ack = ''SUCCESS''" "ack_receiver_ip ack = b" "ack_transfer_amount ack = amount"
    "ledger_of t (sin_addr cli) = Some (unat (new_balance ack))"
    by (rule covered_answer [OF ok addr step pay])
  then show thesis
    using that [of ack _ t] addr by (simp add: handle_response_def)
qed

section \<open>Properties\<close>

text \<open>
  C4. Whatever is lost. On a line that loses any datagrams, of the client or of the server, a
  request of a registered client for a transfer executes it at most three times in its five
  tries, from any state of the client and with any address for the server; and when the user
  is told SUCCESS, it was executed at least once and the balance told is the one the server
  has.
\<close>

theorem lossy_transfer_bounded:
  assumes "db_ok s" and "money s < 2 ^ 64" and "database_records s (sin_addr cli) \<noteq> None"
    and "location_service_port d = port" and "Reply_held \<notin> set fates"
  shows "\<exists>j res d' fates' s'.
    dispatch_request (server_network cli host port) g (transfer_request b amount) d ((fates, [], []), s) =
      (res, d', (fates', [], []), s') \<and>
    j \<le> 3 \<and> ledger_of s' = (ledger_transfer (sin_addr cli) b (unat amount) ^^ j) (ledger_of s) \<and>
    (\<forall>ack. res = Some ack \<longrightarrow> result ack = ''SUCCESS'' \<longrightarrow>
       0 < j \<and> ledger_of s' (sin_addr cli) = Some (unat (new_balance ack)))"
proof -
  have "sound cli s" using assms(1-3) by (simp add: sound_def)
  then obtain j res d' fates' s' where tries:
    "dispatch_loop (server_network cli host port) g 5 (transfer_request b amount) d ((fates, [], []), s) =
      (res, d', (fates', [], []), s')"
    "2 * j \<le> 5 + of_bool (current_request d = expected cli s)"
    "ledger_of s' = (ledger_transfer (sin_addr cli) b (unat amount) ^^ j) (ledger_of s)"
    "\<forall>ack. res = Some ack \<longrightarrow> result ack = ''SUCCESS'' \<longrightarrow>
       0 < j \<and> ledger_of s' (sin_addr cli) = Some (unat (new_balance ack))"
    using lossy_tries [OF assms(4,5), of cli s host g 5 b amount] by blast
  have "j \<le> 3" using tries(2) by (auto simp: of_bool_def split: if_splits)
  then show ?thesis
    using tries(1,3,4) by (auto simp: dispatch_request_def MAX_RETRIES_def)
qed

theorem lossy_transfer_bounded_witness:
  "\<exists>j. j \<le> 3 \<and> (\<exists>res d' fates' s'.
    dispatch_request (server_network \<lparr>sin_port = 5, sin_addr = 1\<rparr> sample_host 4000) ([], 0)
        (transfer_request 2 30) sample_client (([Request_lost, Reply_lost, Delivered, Reply_lost], [], []), two_clients) =
      (res, d', (fates', [], []), s') \<and>
    ledger_of s' = (ledger_transfer 1 2 30 ^^ j) (ledger_of two_clients))"
  using lossy_transfer_bounded [OF two_clients_ok, of "\<lparr>sin_port = 5, sin_addr = 1\<rparr>" sample_client 4000
      "[Request_lost, Reply_lost, Delivered, Reply_lost]" sample_host "([], 0)" 2 30]
    two_clients_money sample_records(1)
  by (force simp: sample_client_def)

text \<open>
  C16. Two lost replies triple the transfer. Three executions do happen: when the replies to
  the first and the third try are lost, and a client that can pay for three transfers asks for
  one, each execution is followed by a timeout, a search for the server and a refusal whose
  number the client adopts, and the transfer is sent again under the new number; the user sees
  one SUCCESS.
\<close>

theorem lost_replies_triple_transfer:
  assumes "db_ok s" and "money s < 2 ^ 64" and "amount \<noteq> 0"
    and "covered (sin_addr cli) b (3 * unat amount) (ledger_of s)"
    and "servaddr d = requests_addr host port" and "current_request d = expected cli s"
    and "location_service_port d = port" and "0 < sint port" and "sint port < 65535"
  shows "\<exists>ack d' s'.
    dispatch_request (server_network cli host port) g (transfer_request b amount) d
        (([Reply_lost, Delivered, Delivered, Reply_lost, Delivered], [], []), s) = (Some ack, d', (quiet, s')) \<and>
    result ack = ''SUCCESS'' \<and>
    ledger_of s' = (ledger_transfer (sin_addr cli) b (unat amount) ^^ 3) (ledger_of s) \<and>
    unat (new_balance ack) + 3 * unat amount = the (ledger_of s (sin_addr cli))"
proof -
  let ?run = "dispatch_loop (server_network cli host port) g" and ?r = "transfer_request b amount"
  let ?a = "sin_addr cli" and ?n = "unat amount"
  let ?T = "ledger_transfer ?a b ?n"
  have ok: "sound cli s"
    using assms(1,2,4) ledger_known [of s ?a] by (auto simp: sound_def covered_def)
  have three: "covered ?a b (Suc (Suc (Suc 0)) * ?n) (ledger_of s)"
    using assms(4) unfolding numeral_3_eq_3 .
  note one = covered_more [OF three]
  note two = covered_more [OF one(2)]
  note last = covered_more [OF two(2)]
  obtain d1 s1 where s1: "?run (Suc (Suc 3)) ?r d ((Reply_lost # Delivered # [Delivered, Reply_lost, Delivered], [], []), s) =
      ?run 3 ?r d1 ((tl [Delivered, Reply_lost, Delivered], [], []), s1)"
    "sound cli s1" "ledger_of s1 = ?T (ledger_of s)"
    "servaddr d1 = requests_addr host port" "current_request d1 = expected cli s1" "location_service_port d1 = port"
    by (rule executed_unheard [OF assms(5,6) ok assms(3) one(1) assms(8,9,7),
          of "[Delivered, Reply_lost, Delivered]" g 3]) simp
  have pay: "covered ?a b ?n (ledger_of s1)" using two(1) s1(3) by simp
  obtain d2 s2 where s2: "?run (Suc (Suc 1)) ?r d1 ((Reply_lost # Delivered # [], [], []), s1) =
      ?run 1 ?r d2 ((tl [], [], []), s2)"
    "sound cli s2" "ledger_of s2 = ?T (ledger_of s1)"
    "servaddr d2 = requests_addr host port" "current_request d2 = expected cli s2" "location_service_port d2 = port"
    by (rule executed_unheard [OF s1(4,5,2) assms(3) pay assms(8,9) s1(6), of "[]" g 1]) simp
  have "covered ?a b ?n (ledger_of s2)" using last(1) s1(3) s2(3) by simp
  then obtain ack d3 s3 where s3: "?run (Suc 0) ?r d2 (quiet, s2) = (Some ack, d3, (quiet, s3))"
    "ledger_of s3 = ?T (ledger_of s2)" "result ack = ''SUCCESS''" "ledger_of s3 ?a = Some (unat (new_balance ack))"
    by (rule covered_success [OF s2(4,5,2) assms(3)])
  have "?run 5 ?r d (([Reply_lost, Delivered, Delivered, Reply_lost, Delivered], [], []), s) = (Some ack, d3, (quiet, s3))"
    using s1(1) s2(1) s3(1) quiet_line by (simp add: eval_nat_numeral del: dispatch_loop.simps)
  moreover have "ledger_of s3 = (?T ^^ 3) (ledger_of s)"
    using s1(3) s2(3) s3(2) by (simp add: eval_nat_numeral)
  moreover have "unat (new_balance ack) + 3 * ?n = the (ledger_of s ?a)"
    using one(3) two(3) last(3) s1(3) s2(3) s3(2,4) by simp
  ultimately show ?thesis using s3(3) by (simp add: dispatch_request_def MAX_RETRIES_def del: dispatch_loop.simps)
qed

lemma two_clients_ledger: "ledger_of two_clients = [1 \<mapsto> 100000, 2 \<mapsto> 100000]"
  by (auto simp: ledger_of_def two_clients_records fun_eq_iff)

theorem lost_replies_triple_transfer_witness:
  "\<exists>ack d' s'.
    dispatch_request (server_network \<lparr>sin_port = 5, sin_addr = 1\<rparr> sample_host 4000) ([], 0)
        (transfer_request 2 30) sample_client
        (([Reply_lost, Delivered, Delivered, Reply_lost, Delivered], [], []), two_clients) =
      (Some ack, d', (quiet, s')) \<and>
    result ack = ''SUCCESS'' \<and> unat (new_balance ack) = 99910"
proof -
  have "covered 1 2 90 (ledger_of two_clients)" by (simp add: covered_def two_clients_ledger)
  moreover have "expected \<lparr>sin_port = 5, sin_addr = 1\<rparr> two_clients = 1"
    using sample_records(1) by (simp add: expected_def)
  ultimately show ?thesis
    using lost_replies_triple_transfer [OF two_clients_ok, of 30 "\<lparr>sin_port = 5, sin_addr = 1\<rparr>" 2 sample_client
        sample_host 4000 "([], 0)"] two_clients_money
    by (fastforce simp: sample_client_def two_clients_ledger)
qed

text \<open>The closing of an account whose first replies are lost.\<close>

definition lost_replies :: "nat \<Rightarrow> fate list" where
  "lost_replies n = concat (replicate n [Reply_lost, Delivered])"

lemma kill_unheard:
  assumes ok: "db_ok s" "database_records s (sin_addr cli) \<noteq> None"
    and addr: "servaddr d = requests_addr host port"
    and port: "0 < sint port" "sint port < 65535" "location_service_port d = port"
  obtains u where
    "dispatch_loop (server_network cli host port) g (Suc k) kill_request d ((Reply_lost # Delivered # fates, [], []), s) =
     dispatch_loop (server_network cli host port) g k kill_request d ((fates, [], []), u)"
    and "db_ok u" and "ledger_of u = (ledger_of s)(sin_addr cli \<mapsto> 100000)"
proof -
  obtain r where r: "database_records s (sin_addr cli) = Some r" using ok(2) by blast
  obtain t where t: "server_answer cli host port (requests_addr host port) (serialized_request kill_request d) s =
      (Datagram (requests_addr host port)
         (ACK_Packet_to_string (ACK_Packet (-1) ''KILL'' (balance r) (sin_addr cli) 0 (balance r))), t)"
    "db_ok t" "ledger_of t = ledger_close (sin_addr cli) (ledger_of s)"
    by (rule kill_answer [OF ok(1) r])
  have opened: "ledger_open (sin_addr cli) (ledger_of t) = (ledger_of s)(sin_addr cli \<mapsto> 100000)"
    using t(3) by (simp add: ledger_open_def ledger_close_def)
  obtain u where "dispatch_loop (server_network cli host port) g (Suc k) kill_request d ((Reply_lost # Delivered # fates, [], []), s) =
     dispatch_loop (server_network cli host port) g k kill_request d
       ((fates, [], [] @ (if Reply_lost = Reply_held then datagrams (Datagram (requests_addr host port)
         (ACK_Packet_to_string (ACK_Packet (-1) ''KILL'' (balance r) (sin_addr cli) 0 (balance r)))) else [])), u)"
    "db_ok u" "ledger_of u = ledger_open (sin_addr cli) (ledger_of t)"
    by (rule unanswered_try [OF addr _ t(1,2) port, of Reply_lost g k fates "[]"]) simp_all
  then show thesis using that [of u] opened by (simp del: dispatch_loop.simps)
qed

lemma kills_unheard:
  assumes "db_ok s" "database_records s (sin_addr cli) \<noteq> None"
    and addr: "servaddr d = requests_addr host port"
    and port: "0 < sint port" "sint port < 65535" "location_service_port d = port"
  shows "\<exists>u. dispatch_loop (server_network cli host port) g (n + k) kill_request d ((lost_replies n, [], []), s) =
      dispatch_loop (server_network cli host port) g k kill_request d (quiet, u) \<and> db_ok u \<and>
    ledger_of u = (if n = 0 then ledger_of s else (ledger_of s)(sin_addr cli \<mapsto> 100000))"
  using assms(1,2)
proof (induction n arbitrary: s)
  case 0
  then show ?case by (auto simp: lost_replies_def quiet_line)
next
  case (Suc n)
  obtain u where u: "dispatch_loop (server_network cli host port) g (Suc (n + k)) kill_request d
      ((Reply_lost # Delivered # lost_replies n, [], []), s) =
     dispatch_loop (server_network cli host port) g (n + k) kill_request d ((lost_replies n, [], []), u)"
    "db_ok u" "ledger_of u = (ledger_of s)(sin_addr cli \<mapsto> 100000)"
    by (rule kill_unheard [OF Suc.prems addr port])
  have "database_records u (sin_addr cli) \<noteq> None" using u(3) ledger_known [of u "sin_addr cli"] by simp
  from Suc.IH [OF u(2) this] obtain v where
    "dispatch_loop (server_network cli host port) g (n + k) kill_request d ((lost_replies n, [], []), u) =
      dispatch_loop (server_network cli host port) g k kill_request d (quiet, v)"
    "db_ok v" "ledger_of v = (if n = 0 then ledger_of u else (ledger_of u)(sin_addr cli \<mapsto> 100000))"
    by blast
  then show ?case using u(1,3)
    by (intro exI [of _ v]) (simp add: lost_replies_def fun_eq_iff del: dispatch_loop.simps)
qed

text \<open>
  C17. Lost replies to the closing of an account reopen it. After each timeout the client
  looks for the server, and the discovery service registers it anew; the next KIL closes the
  new account. If one to four replies are lost, the account is closed, but the user is told
  100000 as the balance that was removed, whatever it was. If all five are lost, the user is
  told nothing, and the account is open again with 100000.
\<close>

theorem lost_kill_replies_reopen_account:
  assumes "db_ok s" and "ledger_of s (sin_addr cli) = Some x" and "servaddr d = requests_addr host port"
    and "location_service_port d = port" and "0 < sint port" and "sint port < 65535" and "n \<le> 5"
  shows "\<exists>res d' s'.
    dispatch_request (server_network cli host port) g kill_request d ((lost_replies n, [], []), s) = (res, d', (quiet, s')) \<and>
    told res = (if n = 0 then Some (''KILL'', x) else if n < 5 then Some (''KILL'', 100000) else None) \<and>
    ledger_of s' = (if n < 5 then ledger_close (sin_addr cli) (ledger_of s)
                    else (ledger_of s)(sin_addr cli \<mapsto> 100000))"
proof -
  let ?run = "dispatch_loop (server_network cli host port) g" and ?a = "sin_addr cli"
  have known: "database_records s ?a \<noteq> None" using assms(2) ledger_known [of s ?a] by simp
  obtain k where k: "5 = n + k" using assms(7) le_Suc_ex by blast
  obtain u where u: "?run 5 kill_request d ((lost_replies n, [], []), s) = ?run k kill_request d (quiet, u)" "db_ok u"
    "ledger_of u = (if n = 0 then ledger_of s else (ledger_of s)(?a \<mapsto> 100000))"
    using kills_unheard [OF assms(1) known assms(3,5,6,4), of g n k] k by metis
  show ?thesis
  proof (cases k)
    case 0
    then show ?thesis using u k by (auto simp: dispatch_request_def MAX_RETRIES_def told_def)
  next
    case (Suc j)
    have "ledger_of u ?a = Some (if n = 0 then x else 100000)" using u(3) assms(2) by simp
    then obtain r where r: "database_records u ?a = Some r" "unat (balance r) = (if n = 0 then x else 100000)"
      by (auto simp: ledger_of_def)
    obtain ack d' s' where kill: "?run (Suc j) kill_request d (quiet, u) = (Some ack, d', (quiet, s'))"
      "ledger_of s' = ledger_close ?a (ledger_of u)" "told (Some ack) = Some (''KILL'', unat (balance r))"
      by (rule kill_try [OF u(2) r(1) assms(3)])
    have "n < 5" using k Suc by simp
    then show ?thesis
      using u(1,3) kill r(2) Suc
      by (auto simp: dispatch_request_def MAX_RETRIES_def ledger_close_def simp del: dispatch_loop.simps)
  qed
qed

theorem lost_kill_replies_reopen_account_witness:
  "\<exists>res d' s'.
    dispatch_request (server_network \<lparr>sin_port = 5, sin_addr = 1\<rparr> sample_host 4000) ([], 0)
        kill_request sample_client ((lost_replies 5, [], []), snd (make_transaction 1 2 30 two_clients)) =
      (res, d', (quiet, s')) \<and>
    told res = None \<and> ledger_of s' = [1 \<mapsto> 100000, 2 \<mapsto> 100030]"
proof -
  let ?s = "snd (make_transaction 1 2 30 two_clients)"
  have ok: "db_ok ?s" by (rule db_ok_transaction) (rule two_clients_ok)
  have "ledger_of ?s = ledger_transfer 1 2 30 (ledger_of two_clients)"
    using ledger_settle [OF two_clients_ok, of 1 2 30] two_clients_ok two_clients_money
    by (simp add: make_transaction_settle db_ok_def)
  also have "\<dots> = [1 \<mapsto> 99970, 2 \<mapsto> 100030]"
    by (auto simp: two_clients_ledger ledger_transfer_def fun_eq_iff)
  finally have ledger: "ledger_of ?s = [1 \<mapsto> 99970, 2 \<mapsto> 100030]" .
  show ?thesis
    using lost_kill_replies_reopen_account [OF ok, of "\<lparr>sin_port = 5, sin_addr = 1\<rparr>" 99970 sample_client
        sample_host 4000 5 "([], 0)"]
    by (simp add: sample_client_def ledger fun_upd_twist)
qed

section \<open>Late replies\<close>

text \<open>
  A transfer of which all replies are held back: the server executes the first try and refuses
  the others, and the client gives up.
\<close>

lemma refused_held:
  assumes addr: "servaddr d = requests_addr host port" and late: "current_request d \<noteq> expected cli s"
    and ok: "sound cli s" and port: "0 < sint port" "sint port < 65535" "location_service_port d = port"
  shows "\<exists>more. dispatch_loop (server_network cli host port) g k (transfer_request b amount) d
      ((concat (replicate k [Reply_held, Delivered]), [], held), s) = (None, d, (([], [], held @ more), s))"
proof (induction k arbitrary: held)
  case (Suc k)
  obtain ack where ack: "server_answer cli host port (requests_addr host port)
      (serialized_request (transfer_request b amount) d) s = (Datagram (requests_addr host port) (ACK_Packet_to_string ack), s)"
    by (rule refused_answer [OF addr late])
  have db: "db_ok s" "database_records s (sin_addr cli) \<noteq> None" using ok by (simp_all add: sound_def)
  obtain u where "dispatch_loop (server_network cli host port) g (Suc k) (transfer_request b amount) d
      ((Reply_held # Delivered # concat (replicate k [Reply_held, Delivered]), [], held), s) =
    dispatch_loop (server_network cli host port) g k (transfer_request b amount) d
      ((concat (replicate k [Reply_held, Delivered]), [], held @ (if Reply_held = Reply_held then
         datagrams (Datagram (requests_addr host port) (ACK_Packet_to_string ack)) else [])), u)"
    "database_records s (sin_addr cli) \<noteq> None \<longrightarrow> u = s"
    by (rule unanswered_try [OF addr _ ack db(1) port, of Reply_held g k _ held]) simp_all
  then show ?case
    using Suc.IH [of "held @ datagrams (Datagram (requests_addr host port) (ACK_Packet_to_string ack))"] db(2)
    by (auto simp del: dispatch_loop.simps)
qed simp

lemma executed_late:
  assumes addr: "servaddr d = requests_addr host port" and step: "current_request d = expected cli s"
    and ok: "sound cli s" and pay: "amount \<noteq> 0" "covered (sin_addr cli) b (unat amount) (ledger_of s)"
    and port: "0 < sint port" "sint port < 65535" "location_service_port d = port"
  obtains ack more s' where
    "dispatch_loop (server_network cli host port) g (Suc k) (transfer_request b amount) d
       ((concat (replicate (Suc k) [Reply_held, Delivered]), [], []), s) =
     (None, d, (([], [], (requests_addr host port, ACK_Packet_to_string ack) # more), s'))"
    and "current_request d \<noteq> expected cli s'"
    and "ledger_of s' = ledger_transfer (sin_addr cli) b (unat amount) (ledger_of s)"
    and "to_ACK_Packet (buffer_text CLIENT_MAXLINE (ACK_Packet_to_string ack)) = Inr ack"
    and "result ack = ''SUCCESS''" and "ack_receiver_ip ack = b" and "ack_transfer_amount ack = amount"
proof -
  let ?run = "dispatch_loop (server_network cli host port) g" and ?r = "transfer_request b amount"
  let ?addr = "requests_addr host port"
  obtain t ack where t: "server_answer cli host port ?addr (serialized_request ?r d) s =
      (Datagram ?addr (ACK_Packet_to_string ack), t)"
    "sound cli t" "ledger_of t = ledger_transfer (sin_addr cli) b (unat amount) (ledger_of s)"
    "expected cli t \<noteq> expected cli s"
    "to_ACK_Packet (buffer_text CLIENT_MAXLINE (ACK_Packet_to_string ack)) = Inr ack"
    "result ack = ''SUCCESS''" "ack_receiver_ip ack = b" "ack_transfer_amount ack = amount"
    by (rule covered_answer [OF ok addr step pay])
  have db: "db_ok t" "database_records t (sin_addr cli) \<noteq> None" using t(2) by (simp_all add: sound_def)
  let ?fates = "concat (replicate k [Reply_held, Delivered])"
  obtain u where u: "?run (Suc k) ?r d ((Reply_held # Delivered # ?fates, [], []), s) =
      ?run k ?r d ((?fates, [], [] @ (if Reply_held = Reply_held then datagrams (Datagram ?addr (ACK_Packet_to_string ack)) else [])), u)"
    "database_records t (sin_addr cli) \<noteq> None \<longrightarrow> u = t"
    by (rule unanswered_try [OF addr _ t(1) db(1) port, of Reply_held g k ?fates "[]"]) simp_all
  have late: "current_request d \<noteq> expected cli t" using step t(4) by simp
  obtain more where "?run k ?r d ((?fates, [], [(?addr, ACK_Packet_to_string ack)]), t) =
      (None, d, (([], [], [(?addr, ACK_Packet_to_string ack)] @ more), t))"
    using refused_held [OF addr late t(2) port] by blast
  then show thesis
    using that [of ack more t] u db(2) t late by (simp del: dispatch_loop.simps)
qed

text \<open>
  C18. A late reply confirms the wrong transfer. When the replies to all five tries of a
  transfer arrive only after the client has given it up, the transfer was executed and the
  user was told nothing; the next request, whatever transfer it asks for, reads the first of
  these replies, is taken to have succeeded, and is never executed: the result that the user
  is shown carries the receiver and the amount of the transfer before it.
\<close>

theorem late_reply_confirms_another_transfer:
  assumes "db_ok s" and "money s < 2 ^ 64" and "amount \<noteq> 0"
    and "covered (sin_addr cli) b (unat amount) (ledger_of s)"
    and "servaddr d = requests_addr host port" and "current_request d = expected cli s"
    and "location_service_port d = port" and "0 < sint port" and "sint port < 65535"
  shows "\<exists>line s1 ack d' line' s2.
    dispatch_request (server_network cli host port) g (transfer_request b amount) d
        ((concat (replicate 5 [Reply_held, Delivered]), [], []), s) = (None, d, (line, s1)) \<and>
    ledger_of s1 = ledger_transfer (sin_addr cli) b (unat amount) (ledger_of s) \<and>
    dispatch_request (server_network cli host port) g (transfer_request b2 amount2) d (line, s1) =
      (Some ack, d', (line', s2)) \<and>
    s2 = s1 \<and> result ack = ''SUCCESS'' \<and> ack_receiver_ip ack = b \<and> ack_transfer_amount ack = amount"
proof -
  let ?net = "server_network cli host port" and ?a = "sin_addr cli" and ?addr = "requests_addr host port"
  have ok: "sound cli s" using assms(1,2,4) ledger_known [of s ?a] by (auto simp: sound_def covered_def)
  obtain ack more s1 where first: "dispatch_loop ?net g (Suc 4) (transfer_request b amount) d
       ((concat (replicate (Suc 4) [Reply_held, Delivered]), [], []), s) =
     (None, d, (([], [], (?addr, ACK_Packet_to_string ack) # more), s1))"
    "current_request d \<noteq> expected cli s1" "ledger_of s1 = ledger_transfer ?a b (unat amount) (ledger_of s)"
    "to_ACK_Packet (buffer_text CLIENT_MAXLINE (ACK_Packet_to_string ack)) = Inr ack"
    "result ack = ''SUCCESS''" "ack_receiver_ip ack = b" "ack_transfer_amount ack = amount"
    by (rule executed_late [OF assms(5,6) ok assms(3,4,8,9,7)])
  obtain ack2 where "server_answer cli host port ?addr (serialized_request (transfer_request b2 amount2) d) s1 =
      (Datagram ?addr (ACK_Packet_to_string ack2), s1)"
    by (rule refused_answer [OF assms(5) first(2)])
  then have "?net (servaddr d) (serialized_request (transfer_request b2 amount2) d)
      (([], [], (?addr, ACK_Packet_to_string ack) # more), s1) =
      (Datagram ?addr (ACK_Packet_to_string ack), (([], more @ [(?addr, ACK_Packet_to_string ack2)], []), s1))"
    using assms(5) by (simp add: server_network_def)
  then have "\<exists>d'. dispatch_loop ?net g (Suc k) (transfer_request b2 amount2) d
      (([], [], (?addr, ACK_Packet_to_string ack) # more), s1) =
      (Some ack, d', (([], more @ [(?addr, ACK_Packet_to_string ack2)], []), s1))" for k
    using first(4,5) by (simp add: handle_response_def)
  from this [of 4] obtain d' where "dispatch_loop ?net g (Suc 4) (transfer_request b2 amount2) d
      (([], [], (?addr, ACK_Packet_to_string ack) # more), s1) =
      (Some ack, d', (([], more @ [(?addr, ACK_Packet_to_string ack2)], []), s1))" by blast
  then show ?thesis
    using first by (auto simp: dispatch_request_def MAX_RETRIES_def eval_nat_numeral simp del: dispatch_loop.simps)
qed

theorem late_reply_confirms_another_transfer_witness:
  "\<exists>line s1 ack d' line' s2.
    dispatch_request (server_network \<lparr>sin_port = 5, sin_addr = 1\<rparr> sample_host 4000) ([], 0)
        (transfer_request 2 30) sample_client
        ((concat (replicate 5 [Reply_held, Delivered]), [], []), two_clients) = (None, sample_client, (line, s1)) \<and>
    dispatch_request (server_network \<lparr>sin_port = 5, sin_addr = 1\<rparr> sample_host 4000) ([], 0)
        (transfer_request 2 70) sample_client (line, s1) = (Some ack, d', (line', s2)) \<and>
    result ack = ''SUCCESS'' \<and> ack_transfer_amount ack = 30 \<and> ledger_of s2 = [1 \<mapsto> 99970, 2 \<mapsto> 100030]"
proof -
  have "covered 1 2 30 (ledger_of two_clients)" by (simp add: covered_def two_clients_ledger)
  moreover have "expected \<lparr>sin_port = 5, sin_addr = 1\<rparr> two_clients = 1"
    using sample_records(1) by (simp add: expected_def)
  moreover have "ledger_transfer 1 2 30 (ledger_of two_clients) = [1 \<mapsto> 99970, 2 \<mapsto> 100030]"
    by (auto simp: two_clients_ledger ledger_transfer_def fun_eq_iff)
  ultimately show ?thesis
    using late_reply_confirms_another_transfer [OF two_clients_ok, of 30 "\<lparr>sin_port = 5, sin_addr = 1\<rparr>" 2 sample_client
        sample_host 4000 "([], 0)" 2 70] two_clients_money
    by (fastforce simp: sample_client_def)
qed

end
