(* ===== verification/Db_Memory.thy ===== *)
theory Db_Memory
  imports Db_Snapshot
begin

text \<open>
  The client mutexes of \<open>db_manager.cpp\<close> as objects on the heap. \<open>client_locks\<close> maps addresses
  to pointers; a pointer leads to an allocated block that holds an initialised mutex or not.
  Every \<open>malloc\<close>, \<open>pthread_mutex_init\<close>, \<open>lock\<close>, \<open>unlock\<close>, \<open>destroy\<close> and \<open>free\<close> of the code is made, and
  what POSIX and C leave undefined (initialising a mutex in a block that is too small for one,
  using a block that holds no mutex, unlocking a mutex that is not held, destroying a held one,
  freeing what is not allocated) is \<open>Undefined_behaviour\<close>. The code asks for \<open>sizeof(sem_t)\<close> bytes
  and puts a \<open>pthread_mutex_t\<close> there, so the two sizes of the platform are a parameter. Where the
  block is large enough the operations are shown to compute what those of \<open>Db_Manager\<close> do,
  without undefined behaviour, and the blocks they leave behind are counted; where it is not,
  as on x86-64 Linux, nothing can be registered or loaded without undefined behaviour. That
  \<open>malloc\<close> returns null is not modelled.
\<close>

section \<open>The platform\<close>

record platform =
  sizeof_sem_t :: nat
  sizeof_pthread_mutex_t :: nat

definition mutex_fits :: "platform \<Rightarrow> bool" where
  "mutex_fits P \<longleftrightarrow> sizeof_pthread_mutex_t P \<le> sizeof_sem_t P"

text \<open>The sizes of the GNU C library on x86-64.\<close>

definition x86_64_linux :: platform where
  "x86_64_linux = \<lparr>sizeof_sem_t = 32, sizeof_pthread_mutex_t = 40\<rparr>"

section \<open>The heap\<close>

datatype block = Raw | Mutex bool

record mutex_heap =
  blocks :: "nat \<rightharpoonup> block"
  block_size :: "nat \<Rightarrow> nat"
  next_block :: nat
  lock_ptrs :: "in_addr \<rightharpoonup> nat"

definition malloc_block :: "nat \<Rightarrow> mutex_heap \<Rightarrow> nat \<times> mutex_heap" where
  "malloc_block bytes h = (next_block h,
     h\<lparr>blocks := (blocks h)(next_block h \<mapsto> Raw), block_size := (block_size h)(next_block h := bytes),
       next_block := Suc (next_block h)\<rparr>)"

text \<open>Initialising writes a whole \<open>pthread_mutex_t\<close>.\<close>

definition mutex_init :: "platform \<Rightarrow> nat \<Rightarrow> mutex_heap \<Rightarrow> cpp_error + mutex_heap" where
  "mutex_init P p h =
     (case blocks h p of
        Some Raw \<Rightarrow>
          if block_size h p < sizeof_pthread_mutex_t P then Inl Undefined_behaviour
          else Inr (h\<lparr>blocks := (blocks h)(p \<mapsto> Mutex False)\<rparr>)
      | _ \<Rightarrow> Inl Undefined_behaviour)"

text \<open>Locking says whether the mutex was held, in which case the caller would wait.\<close>

definition mutex_lock :: "nat \<Rightarrow> mutex_heap \<Rightarrow> cpp_error + bool \<times> mutex_heap" where
  "mutex_lock p h =
     (case blocks h p of
        Some (Mutex held) \<Rightarrow> Inr (held, h\<lparr>blocks := (blocks h)(p \<mapsto> Mutex True)\<rparr>)
      | _ \<Rightarrow> Inl Undefined_behaviour)"

definition mutex_unlock :: "nat \<Rightarrow> mutex_heap \<Rightarrow> cpp_error + mutex_heap" where
  "mutex_unlock p h =
     (case blocks h p of
        Some (Mutex True) \<Rightarrow> Inr (h\<lparr>blocks := (blocks h)(p \<mapsto> Mutex False)\<rparr>)
      | _ \<Rightarrow> Inl Undefined_behaviour)"

definition mutex_destroy :: "nat \<Rightarrow> mutex_heap \<Rightarrow> cpp_error + mutex_heap" where
  "mutex_destroy p h =
     (case blocks h p of
        Some (Mutex False) \<Rightarrow> Inr (h\<lparr>blocks := (blocks h)(p \<mapsto> Raw)\<rparr>)
      | _ \<Rightarrow> Inl Undefined_behaviour)"

definition free_block :: "nat \<Rightarrow> mutex_heap \<Rightarrow> cpp_error + mutex_heap" where
  "free_block p h =
     (case blocks h p of
        Some _ \<Rightarrow> Inr (h\<lparr>blocks := (blocks h)(p := None)\<rparr>)
      | None \<Rightarrow> Inl Undefined_behaviour)"

section \<open>The operations on the heap\<close>

text \<open>
  The state: the heap of the client mutexes, and everything else as in \<open>Db_Manager\<close>, whose own
  \<open>client_locks\<close> plays no part here.
\<close>

type_synonym memory = "mutex_heap \<times> db_manager"

type_synonym 'a mem_result = "(cpp_error + 'a) \<times> memory"

definition lock_client_ptr :: "in_addr \<Rightarrow> memory \<Rightarrow> cpp_error + memory" where
  "lock_client_ptr client_ip m =
     (case m of (h, s) \<Rightarrow>
        (case lock_ptrs h client_ip of
           None \<Rightarrow> Inl Out_of_range
         | Some p \<Rightarrow>
             (case mutex_lock p h of
                Inl e \<Rightarrow> Inl e
              | Inr (held, h) \<Rightarrow> Inr (h, s\<lparr>self_deadlock := self_deadlock s \<or> held\<rparr>))))"

text \<open>\<open>unlock_client\<close> catches \<open>out_of_range\<close>.\<close>

definition unlock_client_ptr :: "in_addr \<Rightarrow> memory \<Rightarrow> cpp_error + memory" where
  "unlock_client_ptr client_ip m =
     (case m of (h, s) \<Rightarrow>
        (case lock_ptrs h client_ip of
           None \<Rightarrow> Inr (h, s)
         | Some p \<Rightarrow> (case mutex_unlock p h of Inl e \<Rightarrow> Inl e | Inr h \<Rightarrow> Inr (h, s))))"

text \<open>Sequencing: an error ends the operation in the state in which it happened.\<close>

definition proceed :: "cpp_error + memory \<Rightarrow> memory \<Rightarrow> (memory \<Rightarrow> 'a mem_result) \<Rightarrow> 'a mem_result" where
  "proceed r m f = (case r of Inl e \<Rightarrow> (Inl e, m) | Inr m' \<Rightarrow> f m')"

definition on_heap :: "(mutex_heap \<Rightarrow> cpp_error + mutex_heap) \<Rightarrow> memory \<Rightarrow> cpp_error + memory" where
  "on_heap f m = (case f (fst m) of Inl e \<Rightarrow> Inl e | Inr h \<Rightarrow> Inr (h, snd m))"

text \<open>A call whose \<open>out_of_range\<close> is caught by the operation; any other error is not.\<close>

definition or_else ::
  "cpp_error + memory \<Rightarrow> memory \<Rightarrow> 'a mem_result \<Rightarrow> (memory \<Rightarrow> 'a mem_result) \<Rightarrow> 'a mem_result" where
  "or_else r m caught f =
     (case r of Inl Out_of_range \<Rightarrow> caught | Inl e \<Rightarrow> (Inl e, m) | Inr m' \<Rightarrow> f m')"

definition register_client_mem :: "platform \<Rightarrow> in_addr \<Rightarrow> memory \<Rightarrow> db_record_response mem_result" where
  "register_client_mem P client_ip m0 =
     (let new_client = \<lparr>ip = client_ip, balance = STARTING_BALANCE, last_request = STARTING_REQUEST\<rparr>;
          (p, h) = malloc_block (sizeof_sem_t P) (fst m0)
      in proceed (on_heap (mutex_init P p) (h, snd m0)) (h, snd m0) (\<lambda>(h, s).
           let s = lock_database s;
               inserted = (lock_ptrs h client_ip = None);
               h = (if inserted then h\<lparr>lock_ptrs := (lock_ptrs h)(client_ip \<mapsto> p)\<rparr> else h)
           in proceed (lock_client_ptr client_ip (h, s)) (h, s) (\<lambda>(h, s).
             let s = unlock_database s
             in if \<not> inserted
                then proceed (on_heap (mutex_destroy p) (h, s)) (h, s) (\<lambda>m.
                       proceed (on_heap (free_block p) m) m (\<lambda>m.
                         proceed (unlock_client_ptr client_ip m) m (\<lambda>m.
                           (Inr (respond False no_record DUPLICATE_IP), m))))
                else if database_records s client_ip \<noteq> None
                then proceed (on_heap (mutex_destroy p) (h, s)) (h, s) (\<lambda>m.
                       proceed (on_heap (free_block p) m) m (\<lambda>m.
                         proceed (unlock_client_ptr client_ip m) m (\<lambda>m.
                           (Inr (respond False no_record DUPLICATE_IP), m))))
                else
                  let s = s\<lparr>database_records := (database_records s)(client_ip \<mapsto> new_client)\<rparr>
                  in proceed (unlock_client_ptr client_ip (h, s)) (h, s) (\<lambda>(h, s).
                    let s = lock_database s;
                        s = s\<lparr>total_balance := int_plus_ulong (total_balance s) STARTING_BALANCE\<rparr>
                    in (Inr (respond True new_client SUCCESS), (h, unlock_database s))))))"

definition release_ptrs ::
  "in_addr \<Rightarrow> in_addr \<Rightarrow> memory \<Rightarrow> (memory \<Rightarrow> db_record_response mem_result) \<Rightarrow> db_record_response mem_result" where
  "release_ptrs sender_ip recv_ip m f =
     proceed (unlock_client_ptr sender_ip m) m (\<lambda>m. proceed (unlock_client_ptr recv_ip m) m f)"

definition transfer_locked_mem ::
  "in_addr \<Rightarrow> in_addr \<Rightarrow> u64 \<Rightarrow> memory \<Rightarrow> db_record_response mem_result" where
  "transfer_locked_mem sender_ip recv_ip amount m =
     (case m of (h, s) \<Rightarrow>
        (case database_records s sender_ip of
           None \<Rightarrow> release_ptrs sender_ip recv_ip m
                     (\<lambda>m. (Inr (respond False no_record UNKNOWN_SENDER), m))
         | Some sender \<Rightarrow>
          (case database_records s recv_ip of
             None \<Rightarrow> release_ptrs sender_ip recv_ip m
                       (\<lambda>m. (Inr (respond False sender UNKNOWN_RECEIVER), m))
           | Some receiver \<Rightarrow>
              (let sender = sender\<lparr>last_request := last_request sender + 1\<rparr>;
                   s = s\<lparr>database_records := (database_records s)(sender_ip \<mapsto> sender)\<rparr>
               in if balance sender < amount
                  then release_ptrs sender_ip recv_ip (h, s)
                         (\<lambda>m. (Inr (respond False sender INSUFFICIENT_BALANCE), m))
                  else
                    let sender = sender\<lparr>balance := balance sender - amount\<rparr>;
                        receiver = receiver\<lparr>balance := balance receiver + amount\<rparr>;
                        s = s\<lparr>database_records := (database_records s)
                               (sender_ip \<mapsto> sender, recv_ip \<mapsto> receiver)\<rparr>
                    in release_ptrs sender_ip recv_ip (h, s) (\<lambda>(h, s).
                         let s = lock_metadata s;
                             s = s\<lparr>total_transferred := uint_plus_ulong (total_transferred s) amount,
                                   num_transactions := num_transactions s + 1\<rparr>
                         in (Inr (respond True sender SUCCESS), (h, unlock_metadata s)))))))"

definition make_transaction_mem ::
  "in_addr \<Rightarrow> in_addr \<Rightarrow> u64 \<Rightarrow> memory \<Rightarrow> db_record_response mem_result" where
  "make_transaction_mem sender_ip recv_ip amount m0 =
     (let m1 = (fst m0, lock_database (snd m0));
          unlock_db = (\<lambda>m. (fst m, unlock_database (snd m)));
          at_sender = (\<lambda>f m. case database_records (snd m) sender_ip of
             None \<Rightarrow> (Inl Out_of_range, m) | Some r \<Rightarrow> (Inr (f r), m))
      in or_else (lock_client_ptr sender_ip m1) m1
           (Inr (respond False no_record UNKNOWN_SENDER), unlock_db m1) (\<lambda>m2.
             if amount = 0
             then proceed (unlock_client_ptr sender_ip m2) m2 (\<lambda>m.
                    at_sender (\<lambda>r. respond True r BALANCE_CHECK) (unlock_db m))
             else if sender_ip = recv_ip
             then proceed (unlock_client_ptr sender_ip m2) m2 (\<lambda>m.
                    at_sender (\<lambda>r. respond False r DUPLICATE_IP) (unlock_db m))
             else or_else (lock_client_ptr recv_ip m2) m2
               (let sender_info = get_client_info sender_ip (snd m2)
                in proceed (unlock_client_ptr sender_ip m2) m2 (\<lambda>m.
                     (Inr (respond False (response_record sender_info) UNKNOWN_RECEIVER), unlock_db m)))
               (\<lambda>m3. transfer_locked_mem sender_ip recv_ip amount (unlock_db m3))))"

definition remove_client_mem :: "in_addr \<Rightarrow> memory \<Rightarrow> db_record_response mem_result" where
  "remove_client_mem client_ip m0 =
     (let not_found = Inr (respond False no_record NOT_FOUND);
          m1 = (fst m0, lock_database (snd m0));
          unlock_db = (\<lambda>m. (fst m, unlock_database (snd m)))
      in or_else (lock_client_ptr client_ip m1) m1 (not_found, unlock_db m1) (\<lambda>m2.
           let (h, s) = unlock_db m2
           in case database_records s client_ip of
                None \<Rightarrow> proceed (unlock_client_ptr client_ip (h, s)) (h, s) (\<lambda>m. (not_found, m))
              | Some client_copy \<Rightarrow>
               (let (removed, recs) = map_erase client_ip (database_records s);
                    s = s\<lparr>database_records := recs\<rparr>
                in if removed = 0
                   then proceed (unlock_client_ptr client_ip (h, s)) (h, s) (\<lambda>m. (not_found, m))
                   else
                     let s = lock_database s
                     in proceed (unlock_client_ptr client_ip (h, s)) (h, s) (\<lambda>(h, s).
                          case lock_ptrs h client_ip of
                            None \<Rightarrow> (Inl Out_of_range, (h, s))
                          | Some p \<Rightarrow> proceed (on_heap (mutex_destroy p) (h, s)) (h, s) (\<lambda>(h, s).
                              let (removed_locks, ptrs) = map_erase client_ip (lock_ptrs h);
                                  h = h\<lparr>lock_ptrs := ptrs\<rparr>;
                                  s = unlock_database s
                              in if removed_locks = 0 then (not_found, (h, s))
                                 else
                                   let s = lock_database s;
                                       s = s\<lparr>total_balance :=
                                             int_minus_ulong (total_balance s) (balance client_copy)\<rparr>
                                   in (Inr (respond True client_copy SUCCESS), (h, unlock_database s)))))))"

text \<open>
  \<open>load_snapshot\<close>, given the iteration orders of the two tables: the old mutexes are freed, not
  destroyed, whatever their state.
\<close>

fun free_all :: "nat list \<Rightarrow> mutex_heap \<Rightarrow> cpp_error + mutex_heap" where
  "free_all [] h = Inr h"
| "free_all (p # ps) h = (case free_block p h of Inl e \<Rightarrow> Inl e | Inr h \<Rightarrow> free_all ps h)"

fun new_mutexes :: "platform \<Rightarrow> in_addr list \<Rightarrow> mutex_heap \<Rightarrow> cpp_error + mutex_heap" where
  "new_mutexes P [] h = Inr h"
| "new_mutexes P (a # addrs) h =
     (let (p, h) = malloc_block (sizeof_sem_t P) h
      in case mutex_init P p h of
           Inl e \<Rightarrow> Inl e
         | Inr h \<Rightarrow> new_mutexes P addrs
             (if lock_ptrs h a = None then h\<lparr>lock_ptrs := (lock_ptrs h)(a \<mapsto> p)\<rparr> else h))"

definition load_snapshot_mem :: "platform \<Rightarrow> nat list \<Rightarrow> entries \<Rightarrow> db_snapshot \<Rightarrow> memory \<Rightarrow> cpp_error + memory" where
  "load_snapshot_mem P ptrs es snap m =
     (case free_all ptrs (fst m) of
        Inl e \<Rightarrow> Inl e
      | Inr h \<Rightarrow>
          (case new_mutexes P (map fst es) (h\<lparr>lock_ptrs := Map.empty\<rparr>) of
             Inl e \<Rightarrow> Inl e
           | Inr h \<Rightarrow> Inr (h, (snd m)\<lparr>database_records := records snap,
                 num_transactions := num_transactions (metadata snap),
                 total_balance := total_balance (metadata snap),
                 total_transferred := total_transferred (metadata snap)\<rparr>)))"

text \<open>\<open>~DbManager\<close>, which \<open>main\<close> runs last: here the mutexes are destroyed and freed.\<close>

fun destroy_all :: "nat list \<Rightarrow> mutex_heap \<Rightarrow> cpp_error + mutex_heap" where
  "destroy_all [] h = Inr h"
| "destroy_all (p # ps) h =
     (case mutex_destroy p h of Inl e \<Rightarrow> Inl e | Inr h \<Rightarrow>
        (case free_block p h of Inl e \<Rightarrow> Inl e | Inr h \<Rightarrow> destroy_all ps h))"

definition destroy_db :: "nat list \<Rightarrow> memory \<Rightarrow> cpp_error + memory" where
  "destroy_db ptrs m =
     (case destroy_all ptrs (fst m) of
        Inl e \<Rightarrow> Inl e
      | Inr h \<Rightarrow> Inr (h\<lparr>lock_ptrs := Map.empty\<rparr>, (snd m)\<lparr>database_records := Map.empty\<rparr>))"

definition no_mutexes :: mutex_heap where
  "no_mutexes = \<lparr>blocks = Map.empty, block_size = (\<lambda>_. 0), next_block = 0, lock_ptrs = Map.empty\<rparr>"

section \<open>The heap between operations\<close>

text \<open>
  No two accounts share a mutex, every account's mutex is initialised and free, and blocks
  not yet handed out are not allocated.
\<close>

definition heap_ok :: "mutex_heap \<Rightarrow> bool" where
  "heap_ok h \<longleftrightarrow> inj_on (lock_ptrs h) (dom (lock_ptrs h)) \<and>
     (\<forall>a p. lock_ptrs h a = Some p \<longrightarrow> blocks h p = Some (Mutex False)) \<and>
     (\<forall>p. blocks h p \<noteq> None \<longrightarrow> p < next_block h)"

text \<open>The state of \<open>Db_Manager\<close> that a memory stands for.\<close>

definition held_map :: "mutex_heap \<Rightarrow> in_addr \<rightharpoonup> bool" where
  "held_map h a = (case lock_ptrs h a of None \<Rightarrow> None
     | Some p \<Rightarrow> (case blocks h p of Some (Mutex held) \<Rightarrow> Some held | _ \<Rightarrow> None))"

definition abs_db :: "memory \<Rightarrow> db_manager" where
  "abs_db m = (snd m)\<lparr>client_locks := held_map (fst m)\<rparr>"

definition mem_ok :: "memory \<Rightarrow> bool" where
  "mem_ok m \<longleftrightarrow> heap_ok (fst m) \<and> db_ok (abs_db m)"

definition leaked :: "mutex_heap \<Rightarrow> nat set" where
  "leaked h = dom (blocks h) - ran (lock_ptrs h)"

lemma held_map_free:
  "heap_ok h \<Longrightarrow> held_map h a = (if lock_ptrs h a = None then None else Some False)"
  by (auto simp: held_map_def heap_ok_def split: option.split)

lemma abs_db_simps [simp]:
  "database_records (abs_db (h, s)) = database_records s" "total_balance (abs_db (h, s)) = total_balance s"
  "client_locks (abs_db (h, s)) = held_map h" "database_access_lock (abs_db (h, s)) = database_access_lock s"
  "database_metadata_lock (abs_db (h, s)) = database_metadata_lock s"
  "self_deadlock (abs_db (h, s)) = self_deadlock s"
  by (simp_all add: abs_db_def)

lemma mem_flags [db_simps]:
  "mem_ok (h, s) \<Longrightarrow> database_access_lock s = False"
  "mem_ok (h, s) \<Longrightarrow> database_metadata_lock s = False"
  "mem_ok (h, s) \<Longrightarrow> self_deadlock s = False"
  by (simp_all add: mem_ok_def db_ok_def db_idle_def)

lemma mem_unknown: "mem_ok (h, s) \<Longrightarrow> database_records s a = None \<Longrightarrow> lock_ptrs h a = None"
proof -
  assume ok: "mem_ok (h, s)" and none: "database_records s a = None"
  have "dom (held_map h) = dom (database_records s)" using ok by (simp add: mem_ok_def db_ok_def db_wf_def)
  then have "held_map h a = None" using none by (metis domIff)
  then show ?thesis using ok held_map_free [of h a] by (auto simp: mem_ok_def split: if_splits)
qed

lemma mem_known:
  assumes "mem_ok (h, s)" "database_records s a = Some r"
  obtains p where "lock_ptrs h a = Some p" "blocks h p = Some (Mutex False)"
proof -
  have "dom (held_map h) = dom (database_records s)" using assms(1) by (simp add: mem_ok_def db_ok_def db_wf_def)
  then have "held_map h a \<noteq> None" using assms(2) by (metis domIff option.distinct(1))
  then obtain p where "lock_ptrs h a = Some p" by (auto simp: held_map_def split: option.splits)
  then show thesis using that assms(1) by (auto simp: mem_ok_def heap_ok_def)
qed

lemma ptr_inj: "heap_ok h \<Longrightarrow> lock_ptrs h a = Some p \<Longrightarrow> lock_ptrs h b = Some p \<Longrightarrow> a = b"
  by (metis domI heap_ok_def inj_on_def)

lemma mem_fresh: "mem_ok (h, s) \<Longrightarrow> blocks h (next_block h) = None"
  by (auto simp: mem_ok_def heap_ok_def)

lemmas heap_defs =
  malloc_block_def mutex_init_def mutex_lock_def mutex_unlock_def mutex_destroy_def free_block_def
  lock_client_ptr_def unlock_client_ptr_def proceed_def on_heap_def or_else_def

lemma block_restored [simp]:
  "blocks h p = Some (Mutex False) \<Longrightarrow> h\<lparr>blocks := (blocks h)(p \<mapsto> Mutex False)\<rparr> = h"
  by (cases h) (auto simp: fun_upd_idem)

section \<open>The operations in closed form\<close>

lemma register_mem_known:
  assumes "mutex_fits P" "mem_ok (h, s)" "database_records s a = Some r"
  shows "register_client_mem P a (h, s) =
    (Inr (respond False no_record DUPLICATE_IP),
     (h\<lparr>block_size := (block_size h)(next_block h := sizeof_sem_t P), next_block := Suc (next_block h)\<rparr>, s))"
proof -
  obtain p where p: "lock_ptrs h a = Some p" "blocks h p = Some (Mutex False)"
    using mem_known [OF assms(2,3)] .
  have fresh: "blocks h (next_block h) = None" using assms(2) by (rule mem_fresh)
  then have ne: "p \<noteq> next_block h" using p(2) by auto
  have "(blocks h)(next_block h := None, p \<mapsto> Mutex False) = blocks h"
    using p(2) fresh by (simp add: fun_upd_idem)
  then show ?thesis
    using p ne fresh mem_flags [OF assms(2)] assms(1)
    by (simp add: mutex_fits_def register_client_mem_def heap_defs lock_database_def unlock_database_def Let_def
        fun_upd_twist)
qed

lemma register_mem_new:
  assumes "mutex_fits P" "mem_ok (h, s)" "database_records s a = None"
  shows "register_client_mem P a (h, s) =
    (Inr (respond True \<lparr>ip = a, balance = STARTING_BALANCE, last_request = STARTING_REQUEST\<rparr> SUCCESS),
     (h\<lparr>blocks := (blocks h)(next_block h \<mapsto> Mutex False),
        block_size := (block_size h)(next_block h := sizeof_sem_t P), next_block := Suc (next_block h),
        lock_ptrs := (lock_ptrs h)(a \<mapsto> next_block h)\<rparr>,
      s\<lparr>database_records := (database_records s)
          (a \<mapsto> \<lparr>ip = a, balance = STARTING_BALANCE, last_request = STARTING_REQUEST\<rparr>),
        total_balance := int_plus_ulong (total_balance s) STARTING_BALANCE\<rparr>))"
  using assms mem_unknown [OF assms(2,3)] mem_flags [OF assms(2)]
  by (simp add: mutex_fits_def register_client_mem_def heap_defs lock_database_def unlock_database_def Let_def)

lemma remove_mem_known:
  assumes "mem_ok (h, s)" "database_records s a = Some r" "lock_ptrs h a = Some p"
  shows "remove_client_mem a (h, s) =
    (Inr (respond True r SUCCESS),
     (h\<lparr>blocks := (blocks h)(p \<mapsto> Raw), lock_ptrs := (lock_ptrs h)(a := None)\<rparr>,
      s\<lparr>database_records := (database_records s)(a := None),
        total_balance := int_minus_ulong (total_balance s) (balance r)\<rparr>))"
proof -
  have "blocks h p = Some (Mutex False)" using assms(1,3) by (simp add: mem_ok_def heap_ok_def)
  then show ?thesis
    using assms mem_flags [OF assms(1)]
    by (simp add: remove_client_mem_def heap_defs map_erase_def lock_database_def unlock_database_def
        Let_def)
qed

lemma remove_mem_unknown:
  assumes "mem_ok (h, s)" "database_records s a = None"
  shows "remove_client_mem a (h, s) = (Inr (respond False no_record NOT_FOUND), (h, s))"
  using assms mem_unknown [OF assms] mem_flags [OF assms(1)]
  by (simp add: remove_client_mem_def heap_defs lock_database_def unlock_database_def Let_def)

text \<open>A transaction leaves the heap as it found it.\<close>

lemma transaction_mem_settles:
  assumes ok: "mem_ok (h, s)"
  shows "make_transaction_mem a b amount (h, s) =
    (fst (settle a b amount s), (h, snd (settle a b amount s)))"
proof (cases "database_records s a")
  case None
  then show ?thesis
    using mem_unknown [OF ok None] mem_flags [OF ok]
    by (simp add: make_transaction_mem_def settle_def heap_defs lock_database_def unlock_database_def Let_def)
next
  case (Some r)
  obtain p where p: "lock_ptrs h a = Some p" "blocks h p = Some (Mutex False)"
    using mem_known [OF ok Some] .
  show ?thesis
  proof (cases "amount = 0 \<or> a = b")
    case True
    then show ?thesis
      using Some p mem_flags [OF ok]
      by (auto simp: make_transaction_mem_def settle_def heap_defs lock_database_def
          unlock_database_def Let_def)
  next
    case False
    show ?thesis
    proof (cases "database_records s b")
      case None
      then show ?thesis
        using Some p False mem_unknown [OF ok None] mem_flags [OF ok]
        by (simp add: make_transaction_mem_def settle_def heap_defs lock_database_def
            unlock_database_def get_client_info_def respond_def Let_def)
    next
      case b: (Some q)
      obtain p' where p': "lock_ptrs h b = Some p'" "blocks h p' = Some (Mutex False)"
        using mem_known [OF ok b] .
      have "p \<noteq> p'" using ptr_inj [of h a p b] ok p p' False by (auto simp: mem_ok_def)
      moreover have "(blocks h)(p \<mapsto> Mutex False, p' \<mapsto> Mutex False) = blocks h"
        using p p' by (simp add: fun_upd_idem)
      ultimately show ?thesis
        using Some b p p' False mem_flags [OF ok]
        by (simp add: make_transaction_mem_def transfer_locked_mem_def release_ptrs_def settle_def
            heap_defs lock_database_def unlock_database_def lock_metadata_def unlock_metadata_def
            charged_def debited_def credited_def Let_def fun_upd_twist)
    qed
  qed
qed

section \<open>The simulation\<close>

fun apply_mem_op :: "platform \<Rightarrow> db_op \<Rightarrow> memory \<Rightarrow> db_record_response mem_result" where
  "apply_mem_op P (Register a) m = register_client_mem P a m"
| "apply_mem_op P (Transact a b amount) m = make_transaction_mem a b amount m"
| "apply_mem_op P (Remove a) m = remove_client_mem a m"

abbreviation run_mem :: "platform \<Rightarrow> db_op list \<Rightarrow> memory \<Rightarrow> memory" where
  "run_mem P ops m \<equiv> fold (\<lambda>q m. snd (apply_mem_op P q m)) ops m"

text \<open>Does the operation remove an account?\<close>

fun removes :: "db_op \<Rightarrow> db_manager \<Rightarrow> bool" where
  "removes (Remove a) s = (database_records s a \<noteq> None)"
| "removes q s = False"

fun removals :: "db_op list \<Rightarrow> db_manager \<Rightarrow> nat" where
  "removals [] s = 0"
| "removals (q # ops) s = (if removes q s then 1 else 0) + removals ops (snd (apply_op q s))"

definition simulated :: "platform \<Rightarrow> db_op \<Rightarrow> memory \<Rightarrow> bool" where
  "simulated P q m \<longleftrightarrow>
     fst (apply_mem_op P q m) = fst (apply_op q (abs_db m)) \<and>
     abs_db (snd (apply_mem_op P q m)) = snd (apply_op q (abs_db m)) \<and>
     heap_ok (fst (snd (apply_mem_op P q m))) \<and>
     card (leaked (fst (snd (apply_mem_op P q m)))) =
       card (leaked (fst m)) + (if removes q (abs_db m) then 1 else 0)"

lemma finite_blocks: "heap_ok h \<Longrightarrow> finite (dom (blocks h))"
  by (rule finite_subset [of _ "{..<next_block h}"]) (auto simp: heap_ok_def)

lemma mem_okE: "mem_ok (h, s) \<Longrightarrow> heap_ok h \<and> db_wf (abs_db (h, s)) \<and> db_idle (abs_db (h, s))"
  by (simp add: mem_ok_def db_ok_def)

lemma held_map_cong:
  "heap_ok h \<Longrightarrow> heap_ok h' \<Longrightarrow> lock_ptrs h' = lock_ptrs h \<Longrightarrow> held_map h' = held_map h"
  by (simp add: fun_eq_iff held_map_free)

text \<open>Handing a new mutex to an account that has none.\<close>

definition add_mutex :: "platform \<Rightarrow> in_addr \<Rightarrow> mutex_heap \<Rightarrow> mutex_heap" where
  "add_mutex P a h = h\<lparr>blocks := (blocks h)(next_block h \<mapsto> Mutex False),
     block_size := (block_size h)(next_block h := sizeof_sem_t P), next_block := Suc (next_block h),
     lock_ptrs := (lock_ptrs h)(a \<mapsto> next_block h)\<rparr>"

lemma add_mutex:
  assumes h: "heap_ok h" and new: "lock_ptrs h a = None"
  shows "heap_ok (add_mutex P a h)" "held_map (add_mutex P a h) = (held_map h)(a \<mapsto> False)"
    "leaked (add_mutex P a h) = leaked h"
proof -
  let ?p = "next_block h"
  have fresh: "blocks h ?p = None" using h by (auto simp: heap_ok_def)
  have unused: "lock_ptrs h b \<noteq> Some ?p" for b using h fresh by (auto simp: heap_ok_def)
  show ok: "heap_ok (add_mutex P a h)"
    using h unused by (auto simp: add_mutex_def heap_ok_def less_Suc_eq inj_on_def dom_def)
  show "held_map (add_mutex P a h) = (held_map h)(a \<mapsto> False)"
    using h ok by (simp add: fun_eq_iff held_map_free) (simp add: add_mutex_def)
  have "ran ((lock_ptrs h)(a \<mapsto> ?p)) = insert ?p (ran (lock_ptrs h))" using new by (rule ran_map_upd)
  then show "leaked (add_mutex P a h) = leaked h"
    using fresh unused by (auto simp: add_mutex_def leaked_def ran_def)
qed

lemma register_simulated:
  assumes fits: "mutex_fits P" and ok: "mem_ok (h, s)"
  shows "simulated P (Register a) (h, s)"
proof -
  note h = mem_okE [OF ok]
  show ?thesis
  proof (cases "database_records s a")
    case (Some r)
    let ?h = "h\<lparr>block_size := (block_size h)(next_block h := sizeof_sem_t P), next_block := Suc (next_block h)\<rparr>"
    have h': "heap_ok ?h" using h by (auto simp: heap_ok_def less_Suc_eq)
    then have "held_map ?h = held_map h" using h by (intro held_map_cong) simp_all
    moreover have "leaked ?h = leaked h" by (simp add: leaked_def)
    ultimately show ?thesis
      using register_mem_known [OF fits ok Some] register_client_known [of "abs_db (h, s)" a] h h' Some
      by (simp add: simulated_def) (simp add: abs_db_def)
  next
    case None
    have heap: "heap_ok h" "lock_ptrs h a = None" using h mem_unknown [OF ok None] by simp_all
    show ?thesis
      using register_mem_new [OF fits ok None, folded add_mutex_def] register_client_new [of "abs_db (h, s)" a]
        h add_mutex [OF heap] None
      by (simp add: simulated_def) (simp add: abs_db_def)
  qed
qed

lemma remove_simulated:
  assumes ok: "mem_ok (h, s)"
  shows "simulated P (Remove a) (h, s)"
proof -
  note h = mem_okE [OF ok]
  show ?thesis
  proof (cases "database_records s a")
    case None
    then show ?thesis
      using remove_mem_unknown [OF ok None] remove_client_unknown [of "abs_db (h, s)" a] h
      by (simp add: simulated_def)
  next
    case (Some r)
    obtain p where p: "lock_ptrs h a = Some p" "blocks h p = Some (Mutex False)"
      using mem_known [OF ok Some] .
    let ?h = "h\<lparr>blocks := (blocks h)(p \<mapsto> Raw), lock_ptrs := (lock_ptrs h)(a := None)\<rparr>"
    have own: "lock_ptrs h b = Some p \<Longrightarrow> b = a" for b using ptr_inj [of h b p a] h p(1) by simp
    have inj: "inj_on (lock_ptrs h) (dom (lock_ptrs h))" using h by (simp add: heap_ok_def)
    then have "inj_on ((lock_ptrs h)(a := None)) (dom ((lock_ptrs h)(a := None)))"
      by (simp add: inj_on_def)
    moreover have "blocks ?h q = Some (Mutex False)" if "lock_ptrs ?h b = Some q" for b q
      using that own h by (auto simp: heap_ok_def split: if_splits)
    moreover have "\<forall>q. blocks ?h q \<noteq> None \<longrightarrow> q < next_block ?h" using h p(2) by (auto simp: heap_ok_def)
    ultimately have h': "heap_ok ?h" by (simp add: heap_ok_def)
    then have held: "held_map ?h = (held_map h)(a := None)"
      using h by (simp add: fun_eq_iff held_map_free)
    have "q \<in> ran ((lock_ptrs h)(a := None)) \<longleftrightarrow> q \<in> ran (lock_ptrs h) \<and> q \<noteq> p" for q
    proof -
      have "q \<in> ran ((lock_ptrs h)(a := None)) \<longleftrightarrow> (\<exists>b. b \<noteq> a \<and> lock_ptrs h b = Some q)"
        by (auto simp: ran_def)
      moreover have "q \<in> ran (lock_ptrs h) \<longleftrightarrow> (\<exists>b. lock_ptrs h b = Some q)" by (simp add: ran_def)
      ultimately show ?thesis using p(1) own by (metis option.inject)
    qed
    moreover have "p \<in> dom (blocks h)" "p \<in> ran (lock_ptrs h)" using p by (auto intro: ranI)
    ultimately have "leaked ?h = insert p (leaked h)" and "p \<notin> leaked h"
      by (auto simp: leaked_def)
    then have "card (leaked ?h) = Suc (card (leaked h))"
      using finite_blocks [of h] h by (simp add: leaked_def)
    then show ?thesis
      using remove_mem_known [OF ok Some p(1)] remove_client_known [of "abs_db (h, s)" a r] h h' Some held
      by (simp add: simulated_def) (simp add: abs_db_def)
  qed
qed

lemma settle_locks:
  "settle a b amount (s\<lparr>client_locks := L\<rparr>) =
    (fst (settle a b amount s), (snd (settle a b amount s))\<lparr>client_locks := L\<rparr>)"
  by (simp add: settle_def split: option.split)

lemma transaction_simulated:
  assumes ok: "mem_ok (h, s)"
  shows "simulated P (Transact a b amount) (h, s)"
  using transaction_mem_settles [OF ok] mem_okE [OF ok] make_transaction_settle [of "abs_db (h, s)"]
    settle_locks [where s = s and L = "held_map h"]
  by (simp add: simulated_def) (simp add: abs_db_def)

lemma op_simulated: "mutex_fits P \<Longrightarrow> mem_ok m \<Longrightarrow> simulated P q m"
  by (cases m; cases q) (simp_all add: register_simulated remove_simulated transaction_simulated)

lemma mem_ok_op:
  assumes "mutex_fits P" "mem_ok m"
  shows "mem_ok (snd (apply_mem_op P q m))"
  using op_simulated [OF assms, of q] assms db_service.keeps [of "abs_db m" q]
  by (simp add: simulated_def mem_ok_def)

interpretation db_memory: total_service "apply_mem_op P" "\<lambda>m. mutex_fits P \<and> mem_ok m" for P
proof
  show "\<exists>r. fst (apply_mem_op P q m) = Inr r" if "mutex_fits P \<and> mem_ok m" for m q
    using op_simulated [of P m q] that db_service.returns [of "abs_db m" q]
    by (simp add: simulated_def mem_ok_def)
  show "mutex_fits P \<and> mem_ok (snd (apply_mem_op P q m))" if "mutex_fits P \<and> mem_ok m" for m q
    using that mem_ok_op by blast
qed

lemma run_simulated:
  "mutex_fits P \<Longrightarrow> mem_ok m \<Longrightarrow> abs_db (run_mem P ops m) = run_ops ops (abs_db m) \<and>
    card (leaked (fst (run_mem P ops m))) = card (leaked (fst m)) + removals ops (abs_db m)"
proof (induction ops arbitrary: m)
  case (Cons q ops)
  then show ?case
    using op_simulated [OF Cons.prems, of q] Cons.IH [OF Cons.prems(1) mem_ok_op [OF Cons.prems, of q]]
    by (simp add: simulated_def)
qed simp

lemma abs_db_start: "abs_db (no_mutexes, DbManager) = DbManager"
  by (simp add: abs_db_def no_mutexes_def held_map_def DbManager_def fun_eq_iff)

lemma mem_ok_start: "mem_ok (no_mutexes, DbManager)"
  using db_ok_initial by (simp add: mem_ok_def abs_db_start) (simp add: heap_ok_def no_mutexes_def)

section \<open>Loading a snapshot, and the end\<close>

lemma free_all_blocks:
  "distinct ps \<Longrightarrow> \<forall>p\<in>set ps. blocks h p \<noteq> None \<Longrightarrow>
   free_all ps h = Inr (h\<lparr>blocks := (\<lambda>p. if p \<in> set ps then None else blocks h p)\<rparr>)"
proof (induction ps arbitrary: h)
  case (Cons p ps)
  let ?h = "h\<lparr>blocks := (blocks h)(p := None)\<rparr>"
  have "free_block p h = Inr ?h" using Cons.prems(2) by (auto simp: free_block_def)
  moreover have "free_all ps ?h = Inr (?h\<lparr>blocks := (\<lambda>q. if q \<in> set ps then None else blocks ?h q)\<rparr>)"
    using Cons.prems by (intro Cons.IH) auto
  moreover have "(\<lambda>q. if q \<in> set ps then None else blocks ?h q) =
      (\<lambda>q. if q \<in> set (p # ps) then None else blocks h q)"
    by auto
  ultimately show ?case by simp
qed simp

lemma new_mutexes_cons:
  "mutex_fits P \<Longrightarrow> lock_ptrs h a = None \<Longrightarrow> new_mutexes P (a # addrs) h = new_mutexes P addrs (add_mutex P a h)"
  by (cases h) (simp add: malloc_block_def mutex_init_def add_mutex_def mutex_fits_def not_less)

text \<open>Where a mutex does not fit, the first one is undefined behaviour.\<close>

lemma init_overflows:
  assumes "\<not> mutex_fits P" "malloc_block (sizeof_sem_t P) h = (p, h')"
  shows "mutex_init P p h' = Inl Undefined_behaviour"
  using assms by (auto simp: mutex_fits_def malloc_block_def mutex_init_def)

lemma register_overflows:
  assumes "\<not> mutex_fits P"
  shows "fst (register_client_mem P a m) = Inl Undefined_behaviour"
  using init_overflows [OF assms]
  by (simp add: register_client_mem_def proceed_def on_heap_def split_beta Let_def)

lemma new_mutexes_overflow: "\<not> mutex_fits P \<Longrightarrow> addrs \<noteq> [] \<Longrightarrow> new_mutexes P addrs h = Inl Undefined_behaviour"
  using init_overflows by (cases addrs) (simp_all add: split_beta Let_def)

lemma new_mutexes_heap:
  assumes fits: "mutex_fits P"
  shows "heap_ok h \<Longrightarrow> distinct addrs \<Longrightarrow> set addrs \<inter> dom (lock_ptrs h) = {} \<Longrightarrow>
   \<exists>h'. new_mutexes P addrs h = Inr h' \<and> heap_ok h' \<and> leaked h' = leaked h \<and>
     dom (lock_ptrs h') = dom (lock_ptrs h) \<union> set addrs \<and> (\<forall>p<next_block h. blocks h' p = blocks h p)"
proof (induction addrs arbitrary: h)
  case (Cons a addrs)
  have new: "lock_ptrs h a = None" using Cons.prems(3) by auto
  have "set addrs \<inter> dom (lock_ptrs (add_mutex P a h)) = {}"
    using Cons.prems(2,3) by (auto simp: add_mutex_def)
  then obtain h' where h': "new_mutexes P addrs (add_mutex P a h) = Inr h'" "heap_ok h'"
    "leaked h' = leaked (add_mutex P a h)" "dom (lock_ptrs h') = dom (lock_ptrs (add_mutex P a h)) \<union> set addrs"
    "\<forall>p<next_block (add_mutex P a h). blocks h' p = blocks (add_mutex P a h) p"
    using Cons.IH add_mutex(1) [OF Cons.prems(1) new] Cons.prems(2) by (metis distinct.simps(2))
  show ?case
    unfolding new_mutexes_cons [OF fits new]
    using h' add_mutex(3) [OF Cons.prems(1) new]
    by (intro exI [of _ h']) (auto simp: add_mutex_def)
qed auto

text \<open>The lock table in some iteration order.\<close>

definition lists_ptrs :: "nat list \<Rightarrow> mutex_heap \<Rightarrow> bool" where
  "lists_ptrs ptrs h \<longleftrightarrow> distinct ptrs \<and> set ptrs = ran (lock_ptrs h)"

lemma freed_heap:
  assumes "heap_ok h"
  shows "heap_ok (h\<lparr>blocks := (\<lambda>p. if p \<in> ran (lock_ptrs h) then None else blocks h p),
      lock_ptrs := Map.empty\<rparr>)"
    "leaked (h\<lparr>blocks := (\<lambda>p. if p \<in> ran (lock_ptrs h) then None else blocks h p),
      lock_ptrs := Map.empty\<rparr>) = leaked h"
  using assms by (auto simp: heap_ok_def leaked_def split: if_splits)

text \<open>Loading on a heap whose mutexes are all free, except that those of \<open>held\<close> are locked.\<close>

definition lock_blocks :: "nat set \<Rightarrow> mutex_heap \<Rightarrow> mutex_heap" where
  "lock_blocks held h = h\<lparr>blocks := (\<lambda>p. if p \<in> held then Some (Mutex True) else blocks h p)\<rparr>"

lemma free_locked:
  assumes h: "heap_ok h" and held: "held \<subseteq> ran (lock_ptrs h)" and ptrs: "lists_ptrs ptrs h"
  shows "\<exists>h'. free_all ptrs (lock_blocks held h) = Inr h' \<and> h'\<lparr>lock_ptrs := Map.empty\<rparr> =
    h\<lparr>blocks := (\<lambda>p. if p \<in> ran (lock_ptrs h) then None else blocks h p), lock_ptrs := Map.empty\<rparr>"
proof -
  have "\<forall>p\<in>ran (lock_ptrs h). blocks h p \<noteq> None" using h by (force simp: heap_ok_def ran_def)
  then have "free_all ptrs (lock_blocks held h) = Inr ((lock_blocks held h)\<lparr>blocks :=
      (\<lambda>p. if p \<in> set ptrs then None else blocks (lock_blocks held h) p)\<rparr>)"
    using ptrs by (intro free_all_blocks) (simp_all add: lists_ptrs_def lock_blocks_def)
  moreover have "(\<lambda>p. if p \<in> set ptrs then None else blocks (lock_blocks held h) p) =
      (\<lambda>p. if p \<in> ran (lock_ptrs h) then None else blocks h p)"
    using ptrs held by (auto simp: lists_ptrs_def lock_blocks_def fun_eq_iff)
  ultimately show ?thesis by (simp add: lock_blocks_def)
qed

lemma load_snapshot_heap:
  assumes fits: "mutex_fits P" and h: "heap_ok h" and held: "held \<subseteq> ran (lock_ptrs h)"
    and ptrs: "lists_ptrs ptrs h" and es: "enumerates es (records snap)"
  shows "\<exists>h'. load_snapshot_mem P ptrs es snap (lock_blocks held h, s) =
      Inr (h', s\<lparr>database_records := records snap,
             num_transactions := num_transactions (metadata snap),
             total_balance := total_balance (metadata snap),
             total_transferred := total_transferred (metadata snap)\<rparr>) \<and>
    heap_ok h' \<and> leaked h' = leaked h \<and> dom (lock_ptrs h') = dom (records snap) \<and>
    (\<forall>p\<in>ran (lock_ptrs h). blocks h' p = None)"
proof -
  let ?free = "h\<lparr>blocks := (\<lambda>p. if p \<in> ran (lock_ptrs h) then None else blocks h p), lock_ptrs := Map.empty\<rparr>"
  have alloc: "\<forall>p\<in>ran (lock_ptrs h). p < next_block h"
    using h by (force simp: heap_ok_def ran_def)
  have addrs: "distinct (map fst es)" "set (map fst es) = dom (records snap)"
    using es dom_map_of_conv_image_fst [of es] by (simp_all add: enumerates_def)
  obtain h' where h': "new_mutexes P (map fst es) ?free = Inr h'" "heap_ok h'" "leaked h' = leaked ?free"
    "dom (lock_ptrs h') = dom (records snap)" "\<forall>p<next_block h. blocks h' p = blocks ?free p"
    using new_mutexes_heap [OF fits freed_heap(1) [OF h] addrs(1)] addrs(2) by auto
  have "\<forall>p\<in>ran (lock_ptrs h). blocks h' p = None" using h'(5) alloc by simp
  then show ?thesis
    using free_locked [OF h held ptrs] h'(1-4) freed_heap(2) [OF h]
    by (intro exI [of _ h']) (auto simp: load_snapshot_mem_def)
qed

lemma load_snapshot_overflows:
  assumes "\<not> mutex_fits P" "heap_ok h" "held \<subseteq> ran (lock_ptrs h)" "lists_ptrs ptrs h" "es \<noteq> []"
  shows "load_snapshot_mem P ptrs es snap (lock_blocks held h, s) = Inl Undefined_behaviour"
  using free_locked [OF assms(2-4)] new_mutexes_overflow [OF assms(1)] assms(5)
  by (auto simp: load_snapshot_mem_def)

lemma lock_blocks_none [simp]: "lock_blocks {} h = h"
  by (simp add: lock_blocks_def)

text \<open>Between operations loading does what \<open>Db_Snapshot.load_snapshot\<close> says, and leaks nothing.\<close>

lemma load_simulated:
  assumes fits: "mutex_fits P" and "mem_ok (h, s)" "lists_ptrs ptrs h" "enumerates es (records snap)"
  shows "\<exists>m'. load_snapshot_mem P ptrs es snap (h, s) = Inr m' \<and> heap_ok (fst m') \<and>
    abs_db m' = load_snapshot snap (abs_db (h, s)) \<and> leaked (fst m') = leaked h"
proof -
  have h: "heap_ok h" using assms(2) by (simp add: mem_ok_def)
  obtain h' where h': "load_snapshot_mem P ptrs es snap (h, s) =
      Inr (h', s\<lparr>database_records := records snap,
             num_transactions := num_transactions (metadata snap),
             total_balance := total_balance (metadata snap),
             total_transferred := total_transferred (metadata snap)\<rparr>)"
    "heap_ok h'" "leaked h' = leaked h" "dom (lock_ptrs h') = dom (records snap)"
    using load_snapshot_heap [OF fits h _ assms(3,4), of "{}" s] by auto
  have "lock_ptrs h' a = None \<longleftrightarrow> records snap a = None" for a using h'(4) by (metis domIff)
  then have "held_map h' = (\<lambda>a. map_option (\<lambda>_. False) (records snap a))"
    by (auto simp: fun_eq_iff held_map_free [OF h'(2)])
  then show ?thesis
    using h' by (simp add: abs_db_def load_snapshot_def)
qed

lemma destroy_all_blocks:
  "distinct ps \<Longrightarrow> \<forall>p\<in>set ps. blocks h p = Some (Mutex False) \<Longrightarrow>
   destroy_all ps h = Inr (h\<lparr>blocks := (\<lambda>p. if p \<in> set ps then None else blocks h p)\<rparr>)"
proof (induction ps arbitrary: h)
  case (Cons p ps)
  let ?h = "h\<lparr>blocks := (blocks h)(p := None)\<rparr>"
  have "destroy_all (p # ps) h = destroy_all ps ?h"
    using Cons.prems(2) by (simp add: mutex_destroy_def free_block_def)
  moreover have "destroy_all ps ?h = Inr (?h\<lparr>blocks := (\<lambda>q. if q \<in> set ps then None else blocks ?h q)\<rparr>)"
    using Cons.prems by (intro Cons.IH) auto
  moreover have "(\<lambda>q. if q \<in> set ps then None else blocks ?h q) =
      (\<lambda>q. if q \<in> set (p # ps) then None else blocks h q)"
    by auto
  ultimately show ?case by simp
qed simp

lemma destroy_db_leaves_leaks:
  assumes "mem_ok m" "lists_ptrs ptrs (fst m)"
  shows "\<exists>m'. destroy_db ptrs m = Inr m' \<and> dom (blocks (fst m')) = leaked (fst m)"
proof -
  have "\<forall>p\<in>set ptrs. blocks (fst m) p = Some (Mutex False)"
    using assms by (auto simp: lists_ptrs_def mem_ok_def heap_ok_def ran_def)
  then show ?thesis
    using assms(2) destroy_all_blocks [of ptrs "fst m"]
    by (auto simp: destroy_db_def lists_ptrs_def leaked_def split: if_splits)
qed

section \<open>Properties\<close>

text \<open>
  C10. The mutexes on the heap. The code allocates \<open>sizeof(sem_t)\<close> bytes for each mutex. Where a
  \<open>pthread_mutex_t\<close> fits into them, then over any sequence of operations from the empty database
  the operations on the heap return what those of \<open>Db_Manager\<close> return and leave the same
  database, and never use a block after it was freed, free one twice, or use a mutex that is
  not initialised; but they leak: each account removed leaves its block allocated, with no
  pointer to it. Where it does not fit, as on x86-64 Linux, every registration writes beyond
  its block, whatever the state.
\<close>

theorem client_mutexes_on_the_heap:
  "(if mutex_fits P
    then abs_db (run_mem P ops (no_mutexes, DbManager)) = run_ops ops DbManager \<and>
      fst (apply_mem_op P q (run_mem P ops (no_mutexes, DbManager))) =
        fst (apply_op q (run_ops ops DbManager)) \<and>
      (\<exists>r. fst (apply_mem_op P q (run_mem P ops (no_mutexes, DbManager))) = Inr r) \<and>
      card (leaked (fst (run_mem P ops (no_mutexes, DbManager)))) = removals ops DbManager
    else fst (register_client_mem P a m) = Inl Undefined_behaviour) \<and>
   \<not> mutex_fits x86_64_linux"
proof -
  let ?m = "run_mem P ops (no_mutexes, DbManager)"
  have safe: "abs_db ?m = run_ops ops DbManager \<and>
      fst (apply_mem_op P q ?m) = fst (apply_op q (run_ops ops DbManager)) \<and>
      (\<exists>r. fst (apply_mem_op P q ?m) = Inr r) \<and> card (leaked (fst ?m)) = removals ops DbManager"
    if fits: "mutex_fits P"
  proof -
    have ok: "mem_ok ?m" using db_memory.valid_fold [of P "(no_mutexes, DbManager)" ops] mem_ok_start fits by simp
    have "leaked no_mutexes = {}" by (simp add: leaked_def no_mutexes_def)
    then have run: "abs_db ?m = run_ops ops DbManager" "card (leaked (fst ?m)) = removals ops DbManager"
      using run_simulated [OF fits mem_ok_start, of ops] by (simp_all add: abs_db_start)
    then show ?thesis
      using op_simulated [OF fits ok, of q] db_memory.returns [of P ?m q] ok fits by (simp add: simulated_def)
  qed
  have "\<not> mutex_fits x86_64_linux" by (simp add: mutex_fits_def x86_64_linux_def)
  then show ?thesis using safe register_overflows by (metis (no_types, lifting))
qed

text \<open>
  C25. An update that arrives during an operation. \<open>load_snapshot\<close> frees the mutexes without
  taking any: when a thread holds the mutex of an account at that moment, the thread's unlock
  is undefined behaviour (it finds the new mutex, which nobody holds), and so is the return
  of a thread that was waiting for the old one, whose block is gone. That is so where the new
  mutexes fit their blocks; where they do not, loading is itself undefined behaviour.
\<close>

theorem update_frees_held_mutex:
  assumes "mem_ok m" and "lists_ptrs ptrs (fst m)" and "enumerates es (records snap)"
    and "lock_ptrs (fst m) a = Some p" and "records snap a \<noteq> None"
  shows "\<exists>m1. lock_client_ptr a m = Inr m1 \<and>
    (if mutex_fits P
     then \<exists>m2. load_snapshot_mem P ptrs es snap m1 = Inr m2 \<and>
       unlock_client_ptr a m2 = Inl Undefined_behaviour \<and> mutex_lock p (fst m2) = Inl Undefined_behaviour
     else load_snapshot_mem P ptrs es snap m1 = Inl Undefined_behaviour)"
proof -
  obtain h s where m: "m = (h, s)" by force
  have h: "heap_ok h" "blocks h p = Some (Mutex False)" using assms(1,4) by (auto simp: m mem_ok_def heap_ok_def)
  have ptrs: "lists_ptrs ptrs h" using assms(2) by (simp add: m)
  have "(blocks h)(p \<mapsto> Mutex True) = (\<lambda>q. if q \<in> {p} then Some (Mutex True) else blocks h q)" by auto
  then have lock: "lock_client_ptr a m = Inr (lock_blocks {p} h, s)"
    using assms(4) h(2) by (simp add: m lock_client_ptr_def mutex_lock_def lock_blocks_def)
  have p: "{p} \<subseteq> ran (lock_ptrs h)" using assms(4) by (auto simp: m intro: ranI)
  show ?thesis
  proof (cases "mutex_fits P")
    case True
    obtain h' s' where h': "load_snapshot_mem P ptrs es snap (lock_blocks {p} h, s) = Inr (h', s')" "heap_ok h'"
      "dom (lock_ptrs h') = dom (records snap)" "blocks h' p = None"
      using load_snapshot_heap [OF True h(1) p ptrs assms(3), of s] p by auto
    obtain p' where "lock_ptrs h' a = Some p'" using h'(3) assms(5) by (metis domIff not_None_eq)
    moreover have "blocks h' p' = Some (Mutex False)" using calculation h'(2) by (simp add: heap_ok_def)
    ultimately have "unlock_client_ptr a (h', s') = Inl Undefined_behaviour"
      by (simp add: unlock_client_ptr_def mutex_unlock_def)
    moreover have "mutex_lock p h' = Inl Undefined_behaviour" using h'(4) by (simp add: mutex_lock_def)
    ultimately show ?thesis using lock h'(1) True by auto
  next
    case False
    have "map_of es a \<noteq> None" using assms(3,5) by (simp add: enumerates_def)
    then have "es \<noteq> []" by auto
    then show ?thesis using load_snapshot_overflows [OF False h(1) p ptrs] lock False by simp
  qed
qed

definition roomy_platform :: platform where
  "roomy_platform = \<lparr>sizeof_sem_t = 40, sizeof_pthread_mutex_t = 40\<rparr>"

theorem update_frees_held_mutex_witness:
  "\<exists>m1 m2. lock_client_ptr 1 (run_mem roomy_platform [Register 1] (no_mutexes, DbManager)) = Inr m1 \<and>
    load_snapshot_mem roomy_platform [0] [(1, no_record)]
      \<lparr>metadata = get_db_metadata DbManager, records = [1 \<mapsto> no_record]\<rparr> m1 = Inr m2 \<and>
    unlock_client_ptr 1 m2 = Inl Undefined_behaviour \<and> mutex_lock 0 (fst m2) = Inl Undefined_behaviour"
proof -
  let ?P = roomy_platform and ?snap = "\<lparr>metadata = get_db_metadata DbManager, records = [1 \<mapsto> no_record]\<rparr>"
  let ?m = "run_mem ?P [Register 1] (no_mutexes, DbManager)"
  have fits: "mutex_fits ?P" by (simp add: mutex_fits_def roomy_platform_def)
  have ok: "mem_ok ?m"
    using db_memory.valid_fold [of ?P "(no_mutexes, DbManager)" "[Register 1]"] mem_ok_start fits by simp
  have "register_client_mem ?P 1 (no_mutexes, DbManager) = (r, (h, s)) \<Longrightarrow> lock_ptrs h = [1 \<mapsto> 0]" for r h s
    using register_mem_new [OF fits mem_ok_start, of 1] by (auto simp: DbManager_def no_mutexes_def)
  then have "lock_ptrs (fst ?m) = [1 \<mapsto> 0]"
    by (cases "register_client_mem ?P 1 (no_mutexes, DbManager)") auto
  then have "lock_ptrs (fst ?m) 1 = Some 0" "lists_ptrs [0] (fst ?m)"
    by (simp_all add: lists_ptrs_def)
  moreover have "enumerates [(1, no_record)] (records ?snap)" "records ?snap 1 \<noteq> None"
    by (simp_all add: enumerates_def)
  ultimately show ?thesis
    using update_frees_held_mutex [OF ok, of "[0]" "[(1, no_record)]" ?snap 1 0 ?P] fits by auto
qed

end
