(* ===== verification/Election.thy ===== *)
theory Election
  imports Socket_Utils
begin

text \<open>
  One node of the coordinator election: the state of \<open>RedundancyManager\<close>, its messages and
  their parsers, and the finite state machine of \<open>single_socket_election.cpp\<close>, one loop
  iteration per received datagram or timeout. An iteration maps the clock, what was received
  and the state to the new state and the datagrams that are sent, in order. \<open>Nothing_received\<close>
  is the 10 ms receive timeout: \<open>ss_n\<close> is -1, the buffer is empty and the address of the
  previous sender stays in \<open>ss_cliaddr\<close>. The store \<open>ss_buffer[ss_n]\<close> that the loop then makes
  in front of the buffer is undefined behaviour of the source; the model gives it no effect.
\<close>

section \<open>State and messages\<close>

datatype switch_result = NONE | ELECTION | ANSWER | COORD_ANNOUNCEMENT | TIMEOUT

datatype election_state = INIT | NOT_IN_PROGRESS | IN_PROGRESS | WAITING_FOR_COORD

record redundancy_manager =
  node_id :: u32
  is_coordinator :: bool
  coordinator_ip :: in_addr
  in_standby_mode :: bool
  state :: election_state
  last_received_id :: u32
  ss_cliaddr :: sockaddr_in
  current_wait_time :: int
  start_time :: int
  answer_max_wait_time :: int

definition ELECTION_MAXLINE :: nat where
  "ELECTION_MAXLINE = 128"

definition election_text :: "string \<Rightarrow> u32 \<Rightarrow> string" where
  "election_text tag i = tag @ '' '' @ show_nat (unat i) @ '' END''"

definition election_message :: "redundancy_manager \<Rightarrow> string" where
  "election_message rm = election_text ''ELE'' (node_id rm)"

definition answer_message :: "redundancy_manager \<Rightarrow> string" where
  "answer_message rm = election_text ''ANS'' (node_id rm)"

definition coord_announcement_message :: "redundancy_manager \<Rightarrow> string" where
  "coord_announcement_message rm = election_text ''CRD'' (node_id rm)"

datatype election_output = Send_broadcast string | Send_to sockaddr_in string | Broadcast_database

text \<open>\<open>get_current_time_ms\<close> returns the milliseconds since the epoch as an \<open>int\<close>.\<close>

definition get_current_time_ms :: "int \<Rightarrow> int" where
  "get_current_time_ms ms = sint (word_of_int ms :: i32)"

section \<open>Construction and start\<close>

text \<open>
  The constructor sets the identifier only; the other members of the heap object start with
  whatever is there (\<open>garbage\<close>).
\<close>

definition RedundancyManager :: "string \<Rightarrow> redundancy_manager \<Rightarrow> redundancy_manager" where
  "RedundancyManager self_ip garbage = garbage\<lparr>node_id := ntohl (inet_addr self_ip)\<rparr>"

text \<open>
  \<open>init\<close> clears the two flags, starts the two heartbeat threads (\<open>Heartbeat\<close>) and ends in
  \<open>single_socket_election\<close>, of which \<open>election_start\<close> is the part between the set-up of the
  socket and the loop.
\<close>

definition rm_init :: "redundancy_manager \<Rightarrow> redundancy_manager" where
  "rm_init rm = rm\<lparr>is_coordinator := False, in_standby_mode := False\<rparr>"

definition election_start :: "int \<Rightarrow> redundancy_manager \<Rightarrow> redundancy_manager" where
  "election_start now rm =
     rm\<lparr>ss_cliaddr := \<lparr>sin_port = 0, sin_addr = 0\<rparr>, state := INIT, current_wait_time := 0,
        start_time := get_current_time_ms now, answer_max_wait_time := 200\<rparr>"

definition election_init :: "int \<Rightarrow> redundancy_manager \<Rightarrow> redundancy_manager" where
  "election_init now rm = election_start now (rm_init rm)"

lemmas election_init_defs = election_init_def election_start_def rm_init_def

text \<open>The standby flag; no code under \<open>src/\<close> calls these two.\<close>

definition enter_standby_mode :: "redundancy_manager \<Rightarrow> redundancy_manager" where
  "enter_standby_mode rm = rm\<lparr>in_standby_mode := True\<rparr>"

definition exit_standby_mode :: "redundancy_manager \<Rightarrow> redundancy_manager" where
  "exit_standby_mode rm = rm\<lparr>in_standby_mode := False\<rparr>"

section \<open>Reading messages\<close>

definition read_message :: "string \<Rightarrow> (string \<times> u32 \<times> string) option" where
  "read_message buffer =
     (case iss_token buffer of None \<Rightarrow> None | Some (tag, r1) \<Rightarrow>
       (case iss_uint r1 of None \<Rightarrow> None | Some (i, r2) \<Rightarrow>
         (case iss_token r2 of None \<Rightarrow> None | Some (e, _) \<Rightarrow> Some (tag, i, e))))"

definition is_valid_message ::
  "string \<Rightarrow> string \<Rightarrow> int \<Rightarrow> redundancy_manager \<Rightarrow> bool \<times> redundancy_manager" where
  "is_valid_message expected buffer n rm =
     (if n \<le> 0 then (False, rm)
      else case read_message buffer of
             None \<Rightarrow> (False, rm)
           | Some (tag, i, e) \<Rightarrow>
               if tag = expected \<and> e = ''END'' \<and> i \<noteq> node_id rm
               then (True, rm\<lparr>last_received_id := i\<rparr>) else (False, rm))"

definition is_valid_answer :: "string \<Rightarrow> int \<Rightarrow> redundancy_manager \<Rightarrow> bool \<times> redundancy_manager" where
  "is_valid_answer buffer n rm = is_valid_message ''ANS'' buffer n rm"

definition is_valid_coord_announcement ::
  "string \<Rightarrow> int \<Rightarrow> redundancy_manager \<Rightarrow> bool \<times> redundancy_manager" where
  "is_valid_coord_announcement buffer n rm = is_valid_message ''CRD'' buffer n rm"

definition is_valid_election_message ::
  "string \<Rightarrow> int \<Rightarrow> redundancy_manager \<Rightarrow> bool \<times> redundancy_manager" where
  "is_valid_election_message buffer n rm = is_valid_message ''ELE'' buffer n rm"

text \<open>
  \<open>ss_election_result_switch\<close>. The source makes each of the three tests twice in a row with
  the same arguments; the second can only repeat the first.
\<close>

definition ss_election_result_switch ::
  "string \<Rightarrow> int \<Rightarrow> redundancy_manager \<Rightarrow> switch_result \<times> redundancy_manager" where
  "ss_election_result_switch buffer n rm =
     (let (crd, rm) = is_valid_coord_announcement buffer n rm
      in if crd then (COORD_ANNOUNCEMENT, rm)
         else let (ans, rm) = is_valid_answer buffer n rm
         in if ans then (ANSWER, rm)
            else let (ele, rm) = is_valid_election_message buffer n rm
            in if ele then (ELECTION, rm)
               else if n < 0 then (TIMEOUT, rm) else (NONE, rm))"

section \<open>Handlers\<close>

type_synonym node_step = "redundancy_manager \<times> election_output list"

definition send_answer_back :: "redundancy_manager \<Rightarrow> election_output" where
  "send_answer_back rm = Send_to (ss_cliaddr rm) (answer_message rm)"

definition broadcast_election_message :: "redundancy_manager \<Rightarrow> election_output" where
  "broadcast_election_message rm = Send_broadcast (election_message rm)"

definition send_coordinator_announcement :: "redundancy_manager \<Rightarrow> election_output" where
  "send_coordinator_announcement rm = Send_broadcast (coord_announcement_message rm)"

definition start_election_procedure :: "redundancy_manager \<Rightarrow> node_step" where
  "start_election_procedure rm =
     (rm\<lparr>state := IN_PROGRESS\<rparr>, [send_answer_back rm, broadcast_election_message rm])"

definition backup_election :: "redundancy_manager \<Rightarrow> node_step" where
  "backup_election rm = (rm\<lparr>state := IN_PROGRESS\<rparr>, [broadcast_election_message rm])"

definition handle_election_message :: "redundancy_manager \<Rightarrow> node_step" where
  "handle_election_message rm =
     (if last_received_id rm < node_id rm then (rm, [send_answer_back rm])
      else (rm\<lparr>state := WAITING_FOR_COORD\<rparr>, []))"

definition handle_answer_message :: "redundancy_manager \<Rightarrow> node_step" where
  "handle_answer_message rm =
     (if last_received_id rm < node_id rm then (rm, []) else (rm\<lparr>state := WAITING_FOR_COORD\<rparr>, []))"

definition promote :: "redundancy_manager \<Rightarrow> redundancy_manager" where
  "promote rm = rm\<lparr>is_coordinator := True\<rparr>"

definition demote :: "redundancy_manager \<Rightarrow> redundancy_manager" where
  "demote rm = rm\<lparr>is_coordinator := False\<rparr>"

definition handle_coordinator_announcement :: "redundancy_manager \<Rightarrow> node_step" where
  "handle_coordinator_announcement rm =
     (let rm = rm\<lparr>state := NOT_IN_PROGRESS, coordinator_ip := sin_addr (ss_cliaddr rm)\<rparr>
      in (if is_coordinator rm then demote rm else rm, []))"

definition handle_in_progress_timeout :: "redundancy_manager \<Rightarrow> node_step" where
  "handle_in_progress_timeout rm =
     (if answer_max_wait_time rm \<le> current_wait_time rm
      then let out = send_coordinator_announcement rm; rm = rm\<lparr>state := NOT_IN_PROGRESS\<rparr>
           in (if \<not> is_coordinator rm then promote rm else rm, [out])
      else (rm, []))"

section \<open>One iteration of the loop\<close>

definition from_loopback :: "in_addr \<Rightarrow> bool" where
  "from_loopback a \<longleftrightarrow> and (ntohl a) 0xff000000 = 0x7f000000"

definition fsm_init :: "redundancy_manager \<Rightarrow> node_step" where
  "fsm_init rm =
     (let rm = rm\<lparr>state := IN_PROGRESS, is_coordinator := False, in_standby_mode := False\<rparr>
      in (rm, [broadcast_election_message rm]))"

definition fsm_not_in_progress :: "string \<Rightarrow> int \<Rightarrow> redundancy_manager \<Rightarrow> node_step" where
  "fsm_not_in_progress buffer n rm =
     (case ss_election_result_switch buffer n (rm\<lparr>current_wait_time := 0\<rparr>) of
        (COORD_ANNOUNCEMENT, rm) \<Rightarrow> handle_coordinator_announcement rm
      | (ELECTION, rm) \<Rightarrow>
          (let db = (if is_coordinator rm then [Broadcast_database] else []);
               (rm, out) = (if last_received_id rm < node_id rm then start_election_procedure rm
                            else (rm\<lparr>state := WAITING_FOR_COORD\<rparr>, []))
           in (rm, db @ out))
      | (_, rm) \<Rightarrow> (rm, []))"

definition fsm_in_progress :: "int \<Rightarrow> string \<Rightarrow> int \<Rightarrow> redundancy_manager \<Rightarrow> node_step" where
  "fsm_in_progress now buffer n rm =
     (case ss_election_result_switch buffer n
             (rm\<lparr>current_wait_time := get_current_time_ms now - start_time rm\<rparr>) of
        (COORD_ANNOUNCEMENT, rm) \<Rightarrow> handle_coordinator_announcement rm
      | (ELECTION, rm) \<Rightarrow> handle_election_message rm
      | (TIMEOUT, rm) \<Rightarrow> handle_in_progress_timeout rm
      | (_, rm) \<Rightarrow> (rm, []))"

definition fsm_waiting :: "string \<Rightarrow> int \<Rightarrow> redundancy_manager \<Rightarrow> node_step" where
  "fsm_waiting buffer n rm =
     (case ss_election_result_switch buffer n (rm\<lparr>current_wait_time := 0\<rparr>) of
        (COORD_ANNOUNCEMENT, rm) \<Rightarrow> handle_coordinator_announcement rm
      | (ANSWER, rm) \<Rightarrow> handle_answer_message rm
      | (_, rm) \<Rightarrow> (rm, []))"

definition fsm_step :: "int \<Rightarrow> string \<Rightarrow> int \<Rightarrow> redundancy_manager \<Rightarrow> node_step" where
  "fsm_step now buffer n rm =
     (if from_loopback (sin_addr (ss_cliaddr rm)) then (rm, [])
      else case state rm of
             INIT \<Rightarrow> fsm_init rm
           | NOT_IN_PROGRESS \<Rightarrow> fsm_not_in_progress buffer n rm
           | IN_PROGRESS \<Rightarrow> fsm_in_progress now buffer n rm
           | WAITING_FOR_COORD \<Rightarrow> fsm_waiting buffer n rm)"

definition election_iteration :: "int \<Rightarrow> received \<Rightarrow> redundancy_manager \<Rightarrow> node_step" where
  "election_iteration now ev rm =
     (case ev of
        Nothing_received \<Rightarrow> fsm_step now [] (-1) rm
      | Datagram src payload \<Rightarrow>
          fsm_step now (buffer_text ELECTION_MAXLINE payload)
            (int (length (take ELECTION_MAXLINE payload))) (rm\<lparr>ss_cliaddr := src\<rparr>))"

text \<open>The loop, over the clock and the outcome of each \<open>recvfrom\<close>.\<close>

fun election_loop :: "(int \<times> received) list \<Rightarrow> redundancy_manager \<Rightarrow> node_step" where
  "election_loop [] rm = (rm, [])"
| "election_loop ((now, ev) # evs) rm =
     (let (rm1, out1) = election_iteration now ev rm; (rm2, out2) = election_loop evs rm1
      in (rm2, out1 @ out2))"

section \<open>What the parsers see\<close>

lemma read_message_text [election_simps]:
  "no_space tag \<Longrightarrow> read_message (election_text tag i) = Some (tag, i, ''END'')"
proof -
  assume tag: "no_space tag"
  have "iss_token (election_text tag i) = Some (tag, CHR '' '' # show_nat (unat i) @ '' END'')"
    using iss_token_word [OF tag] by (simp add: election_text_def)
  moreover have "iss_uint (CHR '' '' # show_nat (unat i) @ '' END'') = Some (i, '' END'')"
    using iss_uint_show_nat [of "CHR '' ''" i "''END''"] by (simp add: text_simps)
  moreover have "iss_token ('' END'') = Some (''END'', [])"
    by (simp add: text_simps)
  ultimately show ?thesis by (simp add: read_message_def)
qed

definition election_tag :: "string \<Rightarrow> bool" where
  "election_tag tag \<longleftrightarrow> tag = ''ELE'' \<or> tag = ''ANS'' \<or> tag = ''CRD''"

lemma election_tag_no_space: "election_tag tag \<Longrightarrow> no_space tag"
  by (auto simp: election_tag_def text_simps)

fun tag_result :: "string \<Rightarrow> switch_result" where
  "tag_result tag = (if tag = ''CRD'' then COORD_ANNOUNCEMENT
     else if tag = ''ANS'' then ANSWER else if tag = ''ELE'' then ELECTION else NONE)"

text \<open>
  A message of another node is recognised by its tag and its identifier is remembered; a
  node's own message is none of the three; a timeout is a timeout.
\<close>

lemma switch_message [election_simps]:
  assumes "election_tag tag" "0 < n"
  shows "ss_election_result_switch (election_text tag i) n rm =
    (if i = node_id rm then (NONE, rm) else (tag_result tag, rm\<lparr>last_received_id := i\<rparr>))"
  using assms election_tag_no_space [OF assms(1)]
  by (auto simp: ss_election_result_switch_def is_valid_coord_announcement_def is_valid_answer_def
      is_valid_election_message_def is_valid_message_def election_simps election_tag_def)

lemma switch_timeout [election_simps]:
  "ss_election_result_switch buffer (-1) rm = (TIMEOUT, rm)"
  by (simp add: ss_election_result_switch_def is_valid_coord_announcement_def is_valid_answer_def
      is_valid_election_message_def is_valid_message_def)

lemma length_election_text:
  "election_tag tag \<Longrightarrow> length (election_text tag i) \<le> 128 \<and> 0 < length (election_text tag i)"
proof -
  assume "election_tag tag"
  then have "length tag = 3" by (auto simp: election_tag_def)
  moreover have "length (show_nat (unat i)) \<le> 10"
    using length_show_u32 .
  ultimately show ?thesis by (simp add: election_text_def)
qed

text \<open>A datagram with an election text, and a timeout, in closed form.\<close>

abbreviation election_datagram :: "sockaddr_in \<Rightarrow> string \<Rightarrow> u32 \<Rightarrow> received" where
  "election_datagram src tag i \<equiv> Datagram src (election_text tag i)"

lemma no_nul_election_text: "election_tag tag \<Longrightarrow> no_nul (election_text tag i)"
  by (auto simp: election_text_def election_tag_def)

lemma iteration_message:
  assumes "election_tag tag"
  shows "election_iteration now (election_datagram src tag i) rm =
    fsm_step now (election_text tag i) (int (length (election_text tag i))) (rm\<lparr>ss_cliaddr := src\<rparr>)"
  using length_election_text [OF assms, of i] no_nul_election_text [OF assms, of i]
  by (simp add: election_iteration_def ELECTION_MAXLINE_def text_simps)

lemma length_election_text_pos: "election_tag tag \<Longrightarrow> 0 < int (length (election_text tag i))"
  using length_election_text [of tag i] by simp

lemma from_loopback_zero: "\<not> from_loopback 0"
  by (simp add: from_loopback_def ntohl_def octets_def)

lemmas fsm_defs =
  fsm_step_def fsm_init_def fsm_not_in_progress_def fsm_in_progress_def fsm_waiting_def

lemmas handler_defs =
  handle_coordinator_announcement_def handle_election_message_def handle_answer_message_def
  handle_in_progress_timeout_def start_election_procedure_def backup_election_def
  promote_def demote_def Let_def

text \<open>The classification of a datagram changes at most the last received identifier.\<close>

lemma is_valid_message_shape:
  "\<exists>l. snd (is_valid_message tag buffer n rm) = rm\<lparr>last_received_id := l\<rparr>"
proof -
  have "\<exists>l. rm = rm\<lparr>last_received_id := l\<rparr>"
    by (rule exI [of _ "last_received_id rm"]) simp
  then show ?thesis
    by (simp add: is_valid_message_def split: option.split) blast
qed

lemma is_valid_message_negative: "n < 0 \<Longrightarrow> is_valid_message tag buffer n rm = (False, rm)"
  by (simp add: is_valid_message_def)

lemma switch_shape:
  obtains r l where "ss_election_result_switch buffer n rm = (r, rm\<lparr>last_received_id := l\<rparr>)"
    and "r = TIMEOUT \<longleftrightarrow> n < 0"
proof -
  obtain l1 where l1: "snd (is_valid_message ''CRD'' buffer n rm) = rm\<lparr>last_received_id := l1\<rparr>"
    using is_valid_message_shape by blast
  obtain l2 where l2: "snd (is_valid_message ''ANS'' buffer n (rm\<lparr>last_received_id := l1\<rparr>)) =
      rm\<lparr>last_received_id := l1\<rparr>\<lparr>last_received_id := l2\<rparr>"
    using is_valid_message_shape by blast
  obtain l3 where l3: "snd (is_valid_message ''ELE'' buffer n (rm\<lparr>last_received_id := l2\<rparr>)) =
      rm\<lparr>last_received_id := l2\<rparr>\<lparr>last_received_id := l3\<rparr>"
    using is_valid_message_shape by blast
  have "snd (ss_election_result_switch buffer n rm) \<in>
      {rm\<lparr>last_received_id := l1\<rparr>, rm\<lparr>last_received_id := l2\<rparr>, rm\<lparr>last_received_id := l3\<rparr>}"
    using l1 l2 l3
    by (simp add: ss_election_result_switch_def is_valid_coord_announcement_def is_valid_answer_def
        is_valid_election_message_def split_beta Let_def)
  moreover have "fst (ss_election_result_switch buffer n rm) = TIMEOUT \<longleftrightarrow> n < 0"
    by (cases "n < 0")
      (simp_all add: ss_election_result_switch_def is_valid_coord_announcement_def
        is_valid_answer_def is_valid_election_message_def is_valid_message_negative split_beta
        Let_def)
  ultimately show thesis using that by (metis insertE prod.collapse singletonD)
qed

text \<open>What an iteration never changes, and the only way into the coordinator role.\<close>

definition step_ok :: "int \<Rightarrow> int \<Rightarrow> redundancy_manager \<Rightarrow> node_step \<Rightarrow> bool" where
  "step_ok now n rm res \<longleftrightarrow>
     (case res of (rm', out) \<Rightarrow>
        node_id rm' = node_id rm \<and> start_time rm' = start_time rm \<and>
        answer_max_wait_time rm' = answer_max_wait_time rm \<and> ss_cliaddr rm' = ss_cliaddr rm \<and>
        (is_coordinator rm' \<longrightarrow> \<not> is_coordinator rm \<longrightarrow>
           n < 0 \<and> state rm = IN_PROGRESS \<and> state rm' = NOT_IN_PROGRESS \<and>
           answer_max_wait_time rm \<le> get_current_time_ms now - start_time rm \<and>
           out = [Send_broadcast (election_text ''CRD'' (node_id rm))]))"

lemma step_ok_fsm: "step_ok now n rm (fsm_step now buffer n rm)"
proof (cases "from_loopback (sin_addr (ss_cliaddr rm))")
  case True
  then show ?thesis by (simp add: fsm_step_def step_ok_def)
next
  case False
  obtain r l where zero: "ss_election_result_switch buffer n (rm\<lparr>current_wait_time := 0\<rparr>) =
      (r, rm\<lparr>current_wait_time := 0, last_received_id := l\<rparr>)" "r = TIMEOUT \<longleftrightarrow> n < 0"
    by (rule switch_shape)
  let ?w = "get_current_time_ms now - start_time rm"
  obtain q k where clock: "ss_election_result_switch buffer n (rm\<lparr>current_wait_time := ?w\<rparr>) =
      (q, rm\<lparr>current_wait_time := ?w, last_received_id := k\<rparr>)" "q = TIMEOUT \<longleftrightarrow> n < 0"
    by (rule switch_shape)
  show ?thesis
  proof (cases "state rm")
    case INIT
    then show ?thesis using False by (simp add: fsm_defs handler_defs step_ok_def)
  next
    case NOT_IN_PROGRESS
    then show ?thesis using False zero
      by (cases r) (simp_all add: fsm_defs handler_defs step_ok_def)
  next
    case IN_PROGRESS
    then show ?thesis using False clock
      by (cases q) (simp_all add: fsm_defs handler_defs step_ok_def
          send_coordinator_announcement_def coord_announcement_message_def)
  next
    case WAITING_FOR_COORD
    then show ?thesis using False zero
      by (cases r) (simp_all add: fsm_defs handler_defs step_ok_def)
  qed
qed

lemma iteration_frame [simp]:
  "node_id (fst (election_iteration now ev rm)) = node_id rm"
  "start_time (fst (election_iteration now ev rm)) = start_time rm"
  "answer_max_wait_time (fst (election_iteration now ev rm)) = answer_max_wait_time rm"
  using step_ok_fsm [of now _ "case ev of Nothing_received \<Rightarrow> rm | Datagram src _ \<Rightarrow> rm\<lparr>ss_cliaddr := src\<rparr>"]
  by (auto simp: election_iteration_def step_ok_def split_beta split: received.split)

section \<open>Closed form of an iteration\<close>

text \<open>
  What one iteration does with each kind of election datagram and with a timeout, for a
  sender outside the loopback network.
\<close>

lemma iteration_init:
  assumes "state rm = INIT" "\<not> from_loopback (sin_addr src)" "election_tag tag"
  shows "election_iteration now (election_datagram src tag i) rm =
    (rm\<lparr>ss_cliaddr := src, state := IN_PROGRESS, is_coordinator := False, in_standby_mode := False\<rparr>,
     [Send_broadcast (election_text ''ELE'' (node_id rm))])"
  using assms by (simp add: iteration_message fsm_defs broadcast_election_message_def
      election_message_def)

lemma iteration_own:
  assumes "state rm \<noteq> INIT" "\<not> from_loopback (sin_addr src)" "election_tag tag"
  shows "election_iteration now (election_datagram src tag (node_id rm)) rm =
    (rm\<lparr>ss_cliaddr := src,
        current_wait_time := (if state rm = IN_PROGRESS
          then get_current_time_ms now - start_time rm else 0)\<rparr>, [])"
  using assms switch_message [OF assms(3) length_election_text_pos [OF assms(3)]]
  by (cases "state rm") (simp_all add: iteration_message fsm_defs)

lemma iteration_announcement:
  assumes "state rm \<noteq> INIT" "\<not> from_loopback (sin_addr src)" "i \<noteq> node_id rm"
  shows "election_iteration now (election_datagram src ''CRD'' i) rm =
    (rm\<lparr>ss_cliaddr := src, last_received_id := i, state := NOT_IN_PROGRESS,
        coordinator_ip := sin_addr src, is_coordinator := False,
        current_wait_time := (if state rm = IN_PROGRESS
          then get_current_time_ms now - start_time rm else 0)\<rparr>, [])"
  using assms switch_message [of "''CRD''" "int (length (election_text ''CRD'' i))"]
    length_election_text_pos [of "''CRD''" i]
  by (cases "state rm") (simp_all add: iteration_message fsm_defs handler_defs election_tag_def)

lemma iteration_answer:
  assumes "state rm \<noteq> INIT" "\<not> from_loopback (sin_addr src)" "i \<noteq> node_id rm"
  shows "election_iteration now (election_datagram src ''ANS'' i) rm =
    (rm\<lparr>ss_cliaddr := src, last_received_id := i,
        current_wait_time := (if state rm = IN_PROGRESS
          then get_current_time_ms now - start_time rm else 0)\<rparr>, [])"
  using assms switch_message [of "''ANS''" "int (length (election_text ''ANS'' i))"]
    length_election_text_pos [of "''ANS''" i]
  by (cases "state rm") (simp_all add: iteration_message fsm_defs handler_defs election_tag_def)

text \<open>The bully decision, for the three states in which an election message is read.\<close>

definition bully_reply :: "redundancy_manager \<Rightarrow> sockaddr_in \<Rightarrow> u32 \<Rightarrow> election_output list" where
  "bully_reply rm src i =
     (if state rm = NOT_IN_PROGRESS \<and> is_coordinator rm then [Broadcast_database] else []) @
     (if i < node_id rm \<and> state rm \<noteq> WAITING_FOR_COORD
      then [Send_to src (election_text ''ANS'' (node_id rm))] else []) @
     (if i < node_id rm \<and> state rm = NOT_IN_PROGRESS
      then [Send_broadcast (election_text ''ELE'' (node_id rm))] else [])"

definition bully_state :: "redundancy_manager \<Rightarrow> u32 \<Rightarrow> election_state" where
  "bully_state rm i =
     (if state rm = WAITING_FOR_COORD \<or> \<not> i < node_id rm then WAITING_FOR_COORD else IN_PROGRESS)"

lemma iteration_election:
  assumes "state rm \<noteq> INIT" "\<not> from_loopback (sin_addr src)" "i \<noteq> node_id rm"
  shows "election_iteration now (election_datagram src ''ELE'' i) rm =
    (rm\<lparr>ss_cliaddr := src, last_received_id := i, state := bully_state rm i,
        current_wait_time := (if state rm = IN_PROGRESS
          then get_current_time_ms now - start_time rm else 0)\<rparr>, bully_reply rm src i)"
  using assms switch_message [of "''ELE''" "int (length (election_text ''ELE'' i))"]
    length_election_text_pos [of "''ELE''" i]
  by (cases "state rm") (simp_all add: iteration_message fsm_defs handler_defs election_tag_def
      bully_reply_def bully_state_def send_answer_back_def answer_message_def
      broadcast_election_message_def election_message_def)

lemma iteration_timeout:
  assumes "state rm \<noteq> INIT" "\<not> from_loopback (sin_addr (ss_cliaddr rm))"
  shows "election_iteration now Nothing_received rm =
    (let late = (state rm = IN_PROGRESS \<and>
          answer_max_wait_time rm \<le> get_current_time_ms now - start_time rm)
     in (rm\<lparr>current_wait_time := (if state rm = IN_PROGRESS
             then get_current_time_ms now - start_time rm else 0),
            state := (if late then NOT_IN_PROGRESS else state rm),
            is_coordinator := is_coordinator rm \<or> late\<rparr>,
         if late then [Send_broadcast (election_text ''CRD'' (node_id rm))] else []))"
  using assms by (cases "state rm") (simp_all add: election_iteration_def fsm_defs handler_defs
      election_simps send_coordinator_announcement_def coord_announcement_message_def)

lemma iteration_loopback:
  "from_loopback (sin_addr (ss_cliaddr rm)) \<Longrightarrow> election_iteration now Nothing_received rm = (rm, [])"
  by (simp add: election_iteration_def fsm_step_def)

section \<open>A node that hears nothing\<close>

abbreviation silence :: "int list \<Rightarrow> (int \<times> received) list" where
  "silence ts \<equiv> map (\<lambda>t. (t, Nothing_received)) ts"

lemma silence_idle:
  "state rm = NOT_IN_PROGRESS \<Longrightarrow> \<not> from_loopback (sin_addr (ss_cliaddr rm)) \<Longrightarrow>
   is_coordinator (fst (election_loop (silence ts) rm)) = is_coordinator rm \<and>
   state (fst (election_loop (silence ts) rm)) = NOT_IN_PROGRESS \<and>
   snd (election_loop (silence ts) rm) = []"
  by (induction ts arbitrary: rm) (simp_all add: iteration_timeout Let_def split_beta)

lemma silence_candidate:
  "state rm = IN_PROGRESS \<Longrightarrow> \<not> from_loopback (sin_addr (ss_cliaddr rm)) \<Longrightarrow>
   \<not> is_coordinator rm \<Longrightarrow>
   (let won = (\<exists>t\<in>set ts. answer_max_wait_time rm \<le> get_current_time_ms t - start_time rm)
    in is_coordinator (fst (election_loop (silence ts) rm)) = won \<and>
       snd (election_loop (silence ts) rm) =
         (if won then [Send_broadcast (election_text ''CRD'' (node_id rm))] else []))"
proof (induction ts arbitrary: rm)
  case (Cons t ts)
  let ?rm = "fst (election_iteration t Nothing_received rm)"
  show ?case
  proof (cases "answer_max_wait_time rm \<le> get_current_time_ms t - start_time rm")
    case True
    then show ?thesis
      using Cons.prems silence_idle [of ?rm ts]
      by (simp add: iteration_timeout Let_def split_beta)
  next
    case False
    then show ?thesis
      using Cons.prems Cons.IH [of ?rm]
      by (simp add: iteration_timeout Let_def split_beta)
  qed
qed simp

lemma first_iteration:
  "election_iteration t Nothing_received (election_init t0 rm) =
    (election_init t0 rm\<lparr>state := IN_PROGRESS\<rparr>, [Send_broadcast (election_text ''ELE'' (node_id rm))])"
  by (simp add: election_iteration_def fsm_step_def fsm_init_def election_init_defs
      from_loopback_zero broadcast_election_message_def election_message_def)

lemma get_current_time_ms_later:
  assumes "0 \<le> d" "d < 2 ^ 32"
  shows "get_current_time_ms (t + d) - get_current_time_ms t =
    (if get_current_time_ms t + d < 2 ^ 31 then d else d - 2 ^ 32)"
proof -
  let ?s = "get_current_time_ms t"
  have range: "- (2 ^ 31) \<le> ?s" "?s < 2 ^ 31"
    using sint_range_32 [of "word_of_int t"] by (simp_all add: get_current_time_ms_def)
  have "get_current_time_ms (t + d) = signed_take_bit 31 (?s + d)"
    unfolding get_current_time_ms_def by (rule sint_word_of_int_31)
  also have "\<dots> = (?s + d + 2 ^ 31) mod 2 ^ 32 - 2 ^ 31"
    by (simp add: signed_take_bit_eq_take_bit_shift take_bit_eq_mod)
  also have "(?s + d + 2 ^ 31) mod 2 ^ 32 =
      (if ?s + d < 2 ^ 31 then ?s + d + 2 ^ 31 else ?s + d + 2 ^ 31 - 2 ^ 32)"
    using assms range mod_window [of "?s + d + 2 ^ 31" "2 ^ 32"] by simp
  finally show ?thesis by simp
qed

text \<open>A node as the constructor leaves it, with every unset member zero.\<close>

definition sample_node :: redundancy_manager where
  "sample_node =
     \<lparr>node_id = 7, is_coordinator = False, coordinator_ip = 0, in_standby_mode = False,
      state = INIT, last_received_id = 0, ss_cliaddr = \<lparr>sin_port = 0, sin_addr = 0\<rparr>,
      current_wait_time = 0, start_time = 0, answer_max_wait_time = 0\<rparr>"

lemma clock_small: "0 \<le> t \<Longrightarrow> t < 2 ^ 31 \<Longrightarrow> get_current_time_ms t = t"
  using get_current_time_ms_later [of t 0] by (simp add: get_current_time_ms_def)

lemma sample_node:
  "node_id sample_node = 7" "state (election_init now rm) = INIT"
  "start_time (election_init now rm) = get_current_time_ms now"
  "answer_max_wait_time (election_init now rm) = 200"
  "ss_cliaddr (election_init now rm) = \<lparr>sin_port = 0, sin_addr = 0\<rparr>"
  "is_coordinator (election_init now rm) = False"
  "node_id (election_init now rm) = node_id rm"
  "get_current_time_ms 300 = 300" "get_current_time_ms 0 = 0"
  by (simp_all add: sample_node_def election_init_defs clock_small)

section \<open>Properties\<close>

text \<open>
  C29. A node becomes coordinator in one way only: a receive timeout while its election is in
  progress, at least \<open>answer_max_wait_time\<close> milliseconds after the start of its clock, and it
  announces itself in the same step.
\<close>

theorem coordinator_only_by_timeout:
  assumes "election_iteration now ev rm = (rm', out)" and "is_coordinator rm'"
    and "\<not> is_coordinator rm"
  shows "ev = Nothing_received \<and> state rm = IN_PROGRESS \<and> state rm' = NOT_IN_PROGRESS \<and>
    answer_max_wait_time rm \<le> get_current_time_ms now - start_time rm \<and>
    out = [Send_broadcast (election_text ''CRD'' (node_id rm))]"
proof (cases ev)
  case Nothing_received
  then show ?thesis
    using assms step_ok_fsm [of now "-1" rm "[]"] by (simp add: election_iteration_def step_ok_def)
next
  case (Datagram src payload)
  then show ?thesis
    using assms step_ok_fsm [of now "int (length (take ELECTION_MAXLINE payload))"
        "rm\<lparr>ss_cliaddr := src\<rparr>" "buffer_text ELECTION_MAXLINE payload"]
    by (simp add: election_iteration_def step_ok_def)
qed

theorem coordinator_only_by_timeout_witness:
  "snd (election_iteration 300 Nothing_received
     (fst (election_iteration 10 Nothing_received (election_init 0 sample_node)))) =
     [Send_broadcast (election_text ''CRD'' 7)]"
proof -
  let ?rm = "fst (election_iteration 10 Nothing_received (election_init 0 sample_node))"
  let ?res = "election_iteration 300 Nothing_received ?rm"
  have "is_coordinator (fst ?res)" "\<not> is_coordinator ?rm"
    by (simp_all add: first_iteration iteration_timeout sample_node from_loopback_zero)
  then have "snd ?res = [Send_broadcast (election_text ''CRD'' (node_id ?rm))]"
    using coordinator_only_by_timeout [of 300 Nothing_received ?rm "fst ?res" "snd ?res"] by simp
  then show "snd ?res = [Send_broadcast (election_text ''CRD'' 7)]"
    by (simp add: sample_node)
qed

text \<open>
  C28. The bully rule. Outside \<open>INIT\<close> and \<open>WAITING_FOR_COORD\<close>, the election message of another
  node is answered exactly when that node has the smaller identifier; otherwise the node
  goes to wait for a coordinator. An idle node that answers also opens its own election, an
  idle coordinator broadcasts its database first, and nobody gains or loses the
  coordinator role.
\<close>

theorem bully_rule:
  assumes "state rm \<in> {NOT_IN_PROGRESS, IN_PROGRESS}" and "\<not> from_loopback (sin_addr src)"
    and "i \<noteq> node_id rm"
    and "election_iteration now (election_datagram src ''ELE'' i) rm = (rm', out)"
  shows "(Send_to src (election_text ''ANS'' (node_id rm)) \<in> set out \<longleftrightarrow> i < node_id rm) \<and>
    state rm' = (if i < node_id rm then IN_PROGRESS else WAITING_FOR_COORD) \<and>
    (Send_broadcast (election_text ''ELE'' (node_id rm)) \<in> set out \<longleftrightarrow>
       i < node_id rm \<and> state rm = NOT_IN_PROGRESS) \<and>
    (Broadcast_database \<in> set out \<longleftrightarrow> is_coordinator rm \<and> state rm = NOT_IN_PROGRESS) \<and>
    is_coordinator rm' = is_coordinator rm \<and> last_received_id rm' = i"
  using assms by (auto simp: iteration_election bully_reply_def bully_state_def)

theorem bully_rule_witness:
  "Send_to \<lparr>sin_port = 1, sin_addr = 9\<rparr> (election_text ''ANS'' 7) \<in>
     set (snd (election_iteration 5 (election_datagram \<lparr>sin_port = 1, sin_addr = 9\<rparr> ''ELE'' 3)
       (sample_node\<lparr>state := NOT_IN_PROGRESS\<rparr>)))"
proof -
  let ?src = "\<lparr>sin_port = 1, sin_addr = 9\<rparr> :: sockaddr_in"
  let ?rm = "sample_node\<lparr>state := NOT_IN_PROGRESS\<rparr>"
  let ?res = "election_iteration 5 (election_datagram ?src ''ELE'' 3) ?rm"
  have far: "\<not> from_loopback (sin_addr ?src)" by (simp add: from_loopback_def ntohl_def octets_def)
  show ?thesis
    using bully_rule [of ?rm ?src 3 5 "fst ?res" "snd ?res"] far by (simp add: sample_node)
qed

text \<open>
  An announcement from any other node is obeyed: whatever the two identifiers are, a
  node that has left \<open>INIT\<close> gives up the coordinator role, takes the sender for the
  coordinator and ends its election without sending anything.
\<close>

lemma any_announcement_obeyed:
  assumes "state rm \<noteq> INIT" and "\<not> from_loopback (sin_addr src)" and "i \<noteq> node_id rm"
    and "election_iteration now (election_datagram src ''CRD'' i) rm = (rm', out)"
  shows "\<not> is_coordinator rm' \<and> coordinator_ip rm' = sin_addr src \<and>
    state rm' = NOT_IN_PROGRESS \<and> out = []"
  using assms by (auto simp: iteration_announcement)

text \<open>
  An answer does not stop a candidate: a node whose election is in progress discards the
  answer of a node with a larger identifier, and the first timeout after the waiting time
  still makes it coordinator.
\<close>

lemma answer_does_not_stop_candidate:
  assumes "state rm = IN_PROGRESS" and "\<not> from_loopback (sin_addr src)" and "node_id rm < i"
    and "answer_max_wait_time rm \<le> get_current_time_ms late - start_time rm"
  shows "is_coordinator (fst (election_loop
           [(now, election_datagram src ''ANS'' i), (late, Nothing_received)] rm)) \<and>
    snd (election_loop [(now, election_datagram src ''ANS'' i), (late, Nothing_received)] rm) =
      [Send_broadcast (election_text ''CRD'' (node_id rm))]"
  using assms by (simp add: iteration_answer iteration_timeout)

text \<open>
  Only the first election waits for answers: the waiting time counts from the start of
  the node, so in an election that is opened later, by a backup that lost its coordinator
  or by the message of a smaller node, the first timeout makes the node coordinator, even
  when no time has passed since the election message was sent.
\<close>

lemma later_elections_do_not_wait:
  assumes "\<not> from_loopback (sin_addr (ss_cliaddr rm))" and "\<not> from_loopback (sin_addr src)"
    and "state rm = NOT_IN_PROGRESS" and "i < node_id rm"
    and "answer_max_wait_time rm \<le> get_current_time_ms now - start_time rm"
  shows "is_coordinator (fst (election_iteration now Nothing_received (fst (backup_election rm)))) \<and>
    is_coordinator (fst (election_loop
      [(now, election_datagram src ''ELE'' i), (now, Nothing_received)] rm))"
  using assms by (auto simp: iteration_election iteration_timeout backup_election_def bully_state_def)

text \<open>
  C35. A node that hears nothing elects itself: it sends its election message in its first
  iteration and becomes coordinator, with one announcement, at the first later timeout at
  which the waiting time has passed on its clock, and not before.
\<close>

theorem lone_node_elects_itself:
  "snd (election_loop (silence (t # ts)) (election_init t0 rm)) =
     Send_broadcast (election_text ''ELE'' (node_id rm)) #
     (if \<exists>t\<in>set ts. 200 \<le> get_current_time_ms t - get_current_time_ms t0
      then [Send_broadcast (election_text ''CRD'' (node_id rm))] else []) \<and>
   (is_coordinator (fst (election_loop (silence (t # ts)) (election_init t0 rm))) \<longleftrightarrow>
     (\<exists>t\<in>set ts. 200 \<le> get_current_time_ms t - get_current_time_ms t0))"
  using silence_candidate [of "election_init t0 rm\<lparr>state := IN_PROGRESS\<rparr>" ts]
  by (simp add: first_iteration sample_node from_loopback_zero split_beta Let_def)

text \<open>
  The clock is a 32-bit count of milliseconds: within 2 ^ 32 ms (49 days) of its start, a
  candidate can win an election only until the clock wraps to negative values; from then on
  its timeouts never make it coordinator.
\<close>

lemma clock_wrap_stops_elections:
  assumes "state rm = IN_PROGRESS" and "\<not> is_coordinator rm"
    and "\<not> from_loopback (sin_addr (ss_cliaddr rm))"
    and "start_time rm = get_current_time_ms t0" and "answer_max_wait_time rm = 200"
    and "0 \<le> d" and "d < 2 ^ 32"
  shows "is_coordinator (fst (election_iteration (t0 + d) Nothing_received rm)) \<longleftrightarrow>
    200 \<le> d \<and> get_current_time_ms t0 + d < 2 ^ 31"
  using assms get_current_time_ms_later [of d t0] by (simp add: iteration_timeout Let_def)

text \<open>
  A datagram from the loopback network stops the election: the address of the last
  sender stays in place through timeouts, which are then skipped, so the node neither
  becomes coordinator nor changes in any other way until another datagram arrives.
\<close>

lemma loopback_datagram_stops_timeouts:
  assumes "from_loopback (sin_addr src)"
  shows "election_loop ((now, Datagram src payload) # silence ts) rm = (rm\<lparr>ss_cliaddr := src\<rparr>, [])"
proof -
  have "election_iteration now (Datagram src payload) rm = (rm\<lparr>ss_cliaddr := src\<rparr>, [])"
    using assms by (simp add: election_iteration_def fsm_step_def)
  moreover have "election_loop (silence ts) (rm\<lparr>ss_cliaddr := src\<rparr>) = (rm\<lparr>ss_cliaddr := src\<rparr>, [])"
    using assms by (induction ts) (simp_all add: iteration_loopback)
  ultimately show ?thesis by simp
qed

end
