(* ===== verification/Heartbeat.thy ===== *)
theory Heartbeat
  imports Client_Discovery Election
begin

text \<open>
  The heartbeat of \<open>heartbeat.cpp\<close>: the receiver that answers every datagram, the test of a
  remote receiver with its retries, and one round of the tester thread, which opens an
  election when the coordinator does not answer. The network is the parameter of
  \<open>Client_Discovery\<close>, the kernel that of \<open>Sockets\<close>; the table of sockets is part of the state,
  since the test keeps its socket open on one of its ways out.
\<close>

section \<open>The receiver\<close>

text \<open>
  One iteration: whatever came, the reply goes to the last known sender. Nothing is asked
  about the role of the node.
\<close>

definition heartbeat_receiver :: "received \<Rightarrow> sockaddr_in \<Rightarrow> sockaddr_in \<times> election_output list" where
  "heartbeat_receiver ev cliaddr =
     (let cliaddr = (case ev of Nothing_received \<Rightarrow> cliaddr | Datagram src _ \<Rightarrow> src)
      in (cliaddr, [Send_to cliaddr ''ALV'']))"

section \<open>The test\<close>

fun heartbeat_tries :: "'e network \<Rightarrow> nat \<Rightarrow> sockaddr_in \<Rightarrow> 'e \<Rightarrow> bool \<times> 'e" where
  "heartbeat_tries net 0 servaddr e = (False, e)"
| "heartbeat_tries net (Suc tries) servaddr e =
     (case net servaddr ''TST'' e of
        (Nothing_received, e') \<Rightarrow> heartbeat_tries net tries servaddr e'
      | (Datagram src payload, e') \<Rightarrow> (True, e'))"

text \<open>
  Every test opens a socket, or ends the process when it gets none. An answer returns without
  \<open>close\<close>; giving up closes the socket. The result of \<open>set_timeout\<close>, which closes the socket
  when it fails, is not looked at: then nothing is sent or received any more. The \<open>len\<close> passed
  to \<open>recvfrom\<close> is not initialised; where that makes the call fail, the network parameter
  answers with \<open>Nothing_received\<close>, and the address that it cuts off otherwise is not used.
\<close>

definition heartbeat_test ::
  "kernel \<Rightarrow> 'e network \<Rightarrow> string \<Rightarrow> i32 \<Rightarrow> int \<Rightarrow> nat \<Rightarrow> sockets \<times> 'e \<Rightarrow> (bool \<times> sockets \<times> 'e) process" where
  "heartbeat_test k net target_ip target_port timeout_ms tries st =
     (case st of (S, e) \<Rightarrow>
        and_then (create_udp_socket k S) (\<lambda>(sockfd, S).
          let S = snd (set_timeout_fd k sockfd timeout_ms S);
              (alive, e) = heartbeat_tries (on_socket (sockfd \<in> open_fds S) net) tries
                (create_sockaddr target_ip target_port) e
          in Running (if alive then (True, S, e) else (False, close_fd sockfd S, e))))"

section \<open>The tester thread\<close>

definition HEARTBEAT_PORT_DELTA :: i32 where
  "HEARTBEAT_PORT_DELTA = 2"

text \<open>
  One round of \<open>heartbeat_tester_loop(port, 10, 3)\<close>, after its sleep: a coordinator skips the
  test; another node tests the address it has for the coordinator, whatever it is.
\<close>

definition tester_round ::
  "kernel \<Rightarrow> 'e network \<Rightarrow> i32 \<Rightarrow> redundancy_manager \<Rightarrow> sockets \<times> 'e \<Rightarrow> (node_step \<times> sockets \<times> 'e) process" where
  "tester_round k net port rm st =
     (if is_coordinator rm then Running ((rm, []), st)
      else and_then (heartbeat_test k net (inet_ntop (coordinator_ip rm)) (port + HEARTBEAT_PORT_DELTA) 10 3 st)
        (\<lambda>(alive, st). Running (if \<not> alive then backup_election rm else (rm, []), st)))"

text \<open>The loop, for a number of rounds: it never ends by itself.\<close>

fun tester_rounds ::
  "kernel \<Rightarrow> 'e network \<Rightarrow> i32 \<Rightarrow> nat \<Rightarrow> redundancy_manager \<Rightarrow> sockets \<times> 'e \<Rightarrow>
   (node_step \<times> sockets \<times> 'e) process" where
  "tester_rounds k net port 0 rm st = Running ((rm, []), st)"
| "tester_rounds k net port (Suc n) rm st =
     and_then (tester_round k net port rm st) (\<lambda>((rm, out1), st).
       and_then (tester_rounds k net port n rm st) (\<lambda>((rm, out2), st). Running ((rm, out1 @ out2), st)))"

section \<open>Lemmas\<close>

text \<open>A network whose receivers are up at some addresses, and that records what is sent.\<close>

definition receivers_at :: "sockaddr_in set \<Rightarrow> (sockaddr_in \<times> string) list network" where
  "receivers_at up addr msg sent =
     (if addr \<in> up
      then (case snd (heartbeat_receiver (Datagram addr msg) addr) of
              Send_to _ text # _ \<Rightarrow> Datagram addr text | _ \<Rightarrow> Nothing_received)
      else Nothing_received, sent @ [(addr, msg)])"

lemma tries_up:
  "addr \<in> up \<Longrightarrow> heartbeat_tries (receivers_at up) (Suc k) addr sent = (True, sent @ [(addr, ''TST'')])"
  by (simp add: receivers_at_def heartbeat_receiver_def)

lemma tries_down:
  "addr \<notin> up \<Longrightarrow> heartbeat_tries (receivers_at up) k addr sent = (False, sent @ replicate k (addr, ''TST''))"
  by (induction k arbitrary: sent) (simp_all add: receivers_at_def)

definition heartbeat_addr :: "i32 \<Rightarrow> in_addr \<Rightarrow> sockaddr_in" where
  "heartbeat_addr port host = create_sockaddr (inet_ntop host) (port + HEARTBEAT_PORT_DELTA)"

lemma tester_round_full:
  assumes "\<not> is_coordinator rm" "descriptor_limit n k" "finite (open_fds S)" "n \<le> card (open_fds S)"
  shows "tester_round k net port rm (S, e) = Exited"
  using assms limited_socket(1) [OF assms(2,3)] by (simp add: tester_round_def heartbeat_test_def)

lemma tester_round_up:
  assumes "\<not> is_coordinator rm" "heartbeat_addr port (coordinator_ip rm) \<in> up"
    and k: "descriptor_limit n k" "finite (open_fds S)" "card (open_fds S) < n"
  obtains S' where "tester_round k (receivers_at up) port rm (S, sent) =
      Running ((rm, []), (S', sent @ [(heartbeat_addr port (coordinator_ip rm), ''TST'')]))"
    and "card (open_fds S') = Suc (card (open_fds S))" "finite (open_fds S')"
proof -
  let ?fd = "socket_call k S"
  let ?S = "snd (set_timeout_fd k ?fd 10 (S\<lparr>open_fds := insert ?fd (open_fds S)\<rparr>))"
  have S: "open_fds ?S = insert ?fd (open_fds S)" using open_after_timeout [OF k(1)] by simp
  have "tester_round k (receivers_at up) port rm (S, sent) =
      Running ((rm, []), (?S, sent @ [(heartbeat_addr port (coordinator_ip rm), ''TST'')]))"
    using assms(1,2) limited_socket(1) [OF k(1,2)] k(3) S
    by (simp add: tester_round_def heartbeat_test_def heartbeat_addr_def tries_up numeral_3_eq_3
        del: heartbeat_tries.simps)
  then show thesis using that S limited_socket(2) [OF k(1,2)] k(2,3) by simp
qed

lemma tester_round_down:
  assumes "\<not> is_coordinator rm" "heartbeat_addr port (coordinator_ip rm) \<notin> up"
    and k: "descriptor_limit n k" "finite (open_fds S)" "card (open_fds S) < n"
  obtains S' where "tester_round k (receivers_at up) port rm (S, sent) =
      Running (backup_election rm, (S', sent @ replicate 3 (heartbeat_addr port (coordinator_ip rm), ''TST'')))"
    and "open_fds S' = open_fds S"
proof -
  let ?fd = "socket_call k S"
  let ?S = "snd (set_timeout_fd k ?fd 10 (S\<lparr>open_fds := insert ?fd (open_fds S)\<rparr>))"
  have S: "open_fds ?S = insert ?fd (open_fds S)" using open_after_timeout [OF k(1)] by simp
  have "tester_round k (receivers_at up) port rm (S, sent) = Running (backup_election rm,
      (close_fd ?fd ?S, sent @ replicate 3 (heartbeat_addr port (coordinator_ip rm), ''TST'')))"
    using assms(1,2) limited_socket(1) [OF k(1,2)] k(3) S
    by (simp add: tester_round_def heartbeat_test_def heartbeat_addr_def tries_down
        del: heartbeat_tries.simps)
  then show thesis using that S limited_socket(2) [OF k(1,2)] k(3) by simp
qed

section \<open>The two threads of a node that hears nothing\<close>

text \<open>
  The tester thread and the election loop of one node: a round of the tester, or an iteration
  of the loop whose \<open>recvfrom\<close> times out, in any order.
\<close>

datatype node_event = Tester | Silence int

fun node_run ::
  "kernel \<Rightarrow> 'e network \<Rightarrow> i32 \<Rightarrow> node_event list \<Rightarrow> redundancy_manager \<Rightarrow> sockets \<times> 'e \<Rightarrow>
   (node_step \<times> sockets \<times> 'e) process" where
  "node_run k net port [] rm st = Running ((rm, []), st)"
| "node_run k net port (ev # evs) rm st =
     and_then (case ev of
            Tester \<Rightarrow> tester_round k net port rm st
          | Silence now \<Rightarrow> Running (election_iteration now Nothing_received rm, st))
       (\<lambda>((rm, out1), st).
         and_then (node_run k net port evs rm st) (\<lambda>((rm, out2), st). Running ((rm, out1 @ out2), st)))"

fun rounds :: "node_event list \<Rightarrow> nat" where
  "rounds [] = 0"
| "rounds (Tester # evs) = Suc (rounds evs)"
| "rounds (Silence now # evs) = rounds evs"

text \<open>A node that is not coordinator and not a candidate: it follows, or waits for a larger node.\<close>

definition follower :: "redundancy_manager \<Rightarrow> bool" where
  "follower rm \<longleftrightarrow> \<not> is_coordinator rm \<and> (state rm = NOT_IN_PROGRESS \<or> state rm = WAITING_FOR_COORD) \<and>
     \<not> from_loopback (sin_addr (ss_cliaddr rm))"

lemma follower_silence:
  assumes "follower rm"
  shows "election_iteration now Nothing_received rm = (rm\<lparr>current_wait_time := 0\<rparr>, [])"
  using assms by (auto simp: follower_def iteration_timeout Let_def)

lemma follower_waited: "follower (rm\<lparr>current_wait_time := t\<rparr>) = follower rm"
  by (simp add: follower_def)

lemma waited_self: "rm = rm\<lparr>current_wait_time := current_wait_time rm\<rparr>"
  by simp

lemma and_then_quiet [simp]: "and_then x (\<lambda>((rm, out), st). Running ((rm, out), st)) = x"
  by (cases x) auto

text \<open>While the address answers, every round takes one descriptor, until there is none left.\<close>

lemma run_while_up:
  assumes "descriptor_limit n k"
  shows "follower rm \<Longrightarrow> heartbeat_addr port (coordinator_ip rm) \<in> up \<Longrightarrow> finite (open_fds S) \<Longrightarrow>
   card (open_fds S) \<le> n \<Longrightarrow>
   if card (open_fds S) + rounds evs \<le> n
   then \<exists>rm' S'. node_run k (receivers_at up) port evs rm (S, sent) =
       Running ((rm', []), (S', sent @ replicate (rounds evs) (heartbeat_addr port (coordinator_ip rm), ''TST''))) \<and>
     \<not> is_coordinator rm' \<and> state rm' = state rm \<and> card (open_fds S') = card (open_fds S) + rounds evs
   else node_run k (receivers_at up) port evs rm (S, sent) = Exited"
proof (induction evs arbitrary: rm S sent)
  case Nil
  then show ?case by (simp add: follower_def)
next
  case (Cons ev evs)
  show ?case
  proof (cases ev)
    case (Silence now)
    then show ?thesis
      using Cons.IH [of "rm\<lparr>current_wait_time := 0\<rparr>" S sent] Cons.prems
      by (auto simp: follower_silence follower_waited split: if_splits)
  next
    case Tester
    have rm: "\<not> is_coordinator rm" using Cons.prems(1) by (simp add: follower_def)
    show ?thesis
    proof (cases "card (open_fds S) < n")
      case True
      then obtain S1 where "tester_round k (receivers_at up) port rm (S, sent) =
          Running ((rm, []), (S1, sent @ [(heartbeat_addr port (coordinator_ip rm), ''TST'')]))"
        "card (open_fds S1) = Suc (card (open_fds S))" "finite (open_fds S1)"
        using tester_round_up [OF rm Cons.prems(2) assms Cons.prems(3)] by metis
      then show ?thesis
        using Cons.IH [of rm S1 "sent @ [(heartbeat_addr port (coordinator_ip rm), ''TST'')]"] Cons.prems True Tester
        by (auto split: if_splits)
    qed (simp add: Tester tester_round_full [OF rm assms Cons.prems(3)])
  qed
qed

lemma run_silences:
  "follower rm \<Longrightarrow>
   \<exists>t. node_run k net port (map Silence ts @ evs) rm st =
     node_run k net port evs (rm\<lparr>current_wait_time := t\<rparr>) st"
proof (induction ts arbitrary: rm)
  case Nil
  then show ?case using waited_self by (metis append_Nil list.map(1))
next
  case (Cons t ts)
  then show ?case
    using Cons.IH [of "rm\<lparr>current_wait_time := 0\<rparr>"]
    by (auto simp: follower_silence follower_waited)
qed

lemma run_when_down:
  assumes "follower rm" "heartbeat_addr port (coordinator_ip rm) \<notin> up"
    and "answer_max_wait_time rm \<le> get_current_time_ms now - start_time rm"
    and "descriptor_limit n k" "finite (open_fds S)" "card (open_fds S) < n"
  shows "\<exists>rm' S'. node_run k (receivers_at up) port [Tester, Silence now] rm (S, sent) =
      Running ((rm', [Send_broadcast (election_text ''ELE'' (node_id rm)),
                      Send_broadcast (election_text ''CRD'' (node_id rm))]),
        (S', sent @ replicate 3 (heartbeat_addr port (coordinator_ip rm), ''TST''))) \<and>
    is_coordinator rm' \<and> state rm' = NOT_IN_PROGRESS \<and> open_fds S' = open_fds S"
proof -
  have rm: "\<not> is_coordinator rm" using assms(1) by (simp add: follower_def)
  obtain S' where "tester_round k (receivers_at up) port rm (S, sent) =
      Running (backup_election rm, (S', sent @ replicate 3 (heartbeat_addr port (coordinator_ip rm), ''TST'')))"
    "open_fds S' = open_fds S"
    using tester_round_down [OF rm assms(2,4-6)] by metis
  then show ?thesis
    using assms(1,3)
    by (simp add: backup_election_def broadcast_election_message_def election_message_def
        iteration_timeout Let_def follower_def)
qed

section \<open>Properties\<close>

text \<open>
  A test succeeds exactly when one of its tries is answered, by any datagram; an election
  is opened exactly by a node that is not coordinator and gets no answer.
\<close>

lemma tester_opens_election_iff:
  assumes "descriptor_limit n k" "finite (open_fds S)" "card (open_fds S) < n"
  shows "\<exists>rm' S' e'. tester_round k scripted port rm (S, ([], script)) =
    Running ((rm', if is_coordinator rm \<or> (\<exists>ev\<in>set (take 3 script). ev \<noteq> Nothing_received) then []
       else [Send_broadcast (election_text ''ELE'' (node_id rm))]), (S', e'))"
proof -
  have tries: "fst (heartbeat_tries scripted n a (sent, evs)) =
      (\<exists>ev\<in>set (take n evs). ev \<noteq> Nothing_received)" for n a sent evs
  proof (induction n arbitrary: sent evs)
    case (Suc n)
    show ?case
    proof (cases evs)
      case (Cons ev rest)
      then show ?thesis using Suc.IH by (cases ev) auto
    qed (simp add: Suc.IH)
  qed simp
  show ?thesis
    using limited_socket(1) [OF assms(1,2)] assms(3) open_after_timeout [OF assms(1)]
    by (cases rm) (auto simp: tester_round_def heartbeat_test_def tries split_beta Let_def backup_election_def
        broadcast_election_message_def election_message_def)
qed

text \<open>
  C36. Failover follows the heartbeat, and nothing else, until the descriptors run out. A node
  that is not coordinator and hears nothing, whether it follows or waits for a larger node:
  while the address it stores answers heartbeats, which any live node does in every role, it
  keeps its role through any order of tester rounds and timeouts, and sends one \<open>TST\<close> per round
  and nothing else. But each round leaves a socket open: with at most \<open>n\<close> descriptors the
  process exits in the first round that finds all of them in use. When nobody answers, the
  next round sends three \<open>TST\<close>, gives its descriptor back, and it and the timeout after it make
  the node coordinator, with one election message and one announcement.
\<close>

theorem failover_follows_heartbeat:
  assumes "descriptor_limit n k" and "finite (open_fds S)" and "card (open_fds S) \<le> n"
    and "\<not> is_coordinator rm" and "state rm = NOT_IN_PROGRESS \<or> state rm = WAITING_FOR_COORD"
    and "\<not> from_loopback (sin_addr (ss_cliaddr rm))"
    and "answer_max_wait_time rm \<le> get_current_time_ms now - start_time rm"
    and addr: "addr = heartbeat_addr port (coordinator_ip rm)"
  shows "if addr \<in> up
    then if card (open_fds S) + rounds evs \<le> n
      then \<exists>rm' S'. node_run k (receivers_at up) port evs rm (S, sent) =
          Running ((rm', []), (S', sent @ replicate (rounds evs) (addr, ''TST''))) \<and>
        \<not> is_coordinator rm' \<and> state rm' = state rm \<and>
        card (open_fds S') = card (open_fds S) + rounds evs
      else node_run k (receivers_at up) port evs rm (S, sent) = Exited
    else if card (open_fds S) < n
      then \<exists>rm' S'. node_run k (receivers_at up) port (map Silence ts @ [Tester, Silence now]) rm (S, sent) =
          Running ((rm', [Send_broadcast (election_text ''ELE'' (node_id rm)),
                          Send_broadcast (election_text ''CRD'' (node_id rm))]),
            (S', sent @ replicate 3 (addr, ''TST''))) \<and>
        is_coordinator rm' \<and> state rm' = NOT_IN_PROGRESS \<and> open_fds S' = open_fds S
      else node_run k (receivers_at up) port (map Silence ts @ [Tester, Silence now]) rm (S, sent) = Exited"
proof (cases "addr \<in> up")
  case True
  have follower: "follower rm" using assms by (simp add: follower_def)
  show ?thesis
    using run_while_up [OF assms(1) follower True [unfolded addr] assms(2,3), of evs sent] True addr
    by (simp split: if_splits)
next
  case False
  have follower: "follower rm" using assms by (simp add: follower_def)
  obtain t where run: "node_run k (receivers_at up) port (map Silence ts @ [Tester, Silence now]) rm (S, sent) =
      node_run k (receivers_at up) port [Tester, Silence now] (rm\<lparr>current_wait_time := t\<rparr>) (S, sent)"
    using run_silences [OF follower] by blast
  show ?thesis
  proof (cases "card (open_fds S) < n")
    case room: True
    then show ?thesis
      using run_when_down [of "rm\<lparr>current_wait_time := t\<rparr>" port up now n k S sent] follower False assms(1,2,7) run
      by (simp add: follower_waited addr)
  next
    case full: False
    then show ?thesis
      using run False assms(4) addr tester_round_full [OF _ assms(1,2), of "rm\<lparr>current_wait_time := t\<rparr>"
          "receivers_at up" port sent] by simp
  qed
qed

theorem failover_follows_heartbeat_witness:
  "(\<exists>rm' S'. node_run (limited_kernel 1) (receivers_at {}) 4000 [Silence 300, Tester, Silence 310]
      (election_init 0 sample_node\<lparr>state := WAITING_FOR_COORD\<rparr>) (no_sockets, []) =
    Running ((rm', [Send_broadcast (election_text ''ELE'' 7), Send_broadcast (election_text ''CRD'' 7)]),
      (S', replicate 3 (heartbeat_addr 4000 (coordinator_ip sample_node), ''TST''))) \<and>
    is_coordinator rm') \<and>
   node_run (limited_kernel 1) (receivers_at {heartbeat_addr 4000 (coordinator_ip sample_node)}) 4000
      [Tester, Silence 300, Tester] (election_init 0 sample_node\<lparr>state := WAITING_FOR_COORD\<rparr>) (no_sockets, []) =
    Exited"
proof -
  let ?rm = "election_init 0 sample_node\<lparr>state := WAITING_FOR_COORD\<rparr>"
  have ip: "coordinator_ip (election_init 0 sample_node) = coordinator_ip sample_node"
    by (simp add: election_init_def election_start_def rm_init_def)
  have S: "finite (open_fds no_sockets)" "card (open_fds no_sockets) = 0" by (simp_all add: no_sockets_def)
  note follows = failover_follows_heartbeat [OF limited_kernel [of 1] S(1), of ?rm 310 _ 4000, OF _ _ _ _ _ refl]
  show ?thesis
    using follows [of "{}" "[]" "[]" "[300]"]
      follows [of "{heartbeat_addr 4000 (coordinator_ip sample_node)}" "[Tester, Silence 300, Tester]" "[]" "[]"] S(2)
    by (simp add: sample_node clock_small from_loopback_zero ip del: node_run.simps) blast
qed

end
