(* ===== verification/Programs.thy ===== *)
theory Programs
  imports Client_Session Heartbeat
begin

text \<open>
  The two programs around the components: the check of the command line, the same in both
  \<open>main.cpp\<close>, the whole of the client's \<open>main\<close>, and the ports and the objects with which the
  server starts its threads.
\<close>

section \<open>The command line\<close>

text \<open>
  The arguments after the program's name. No value means \<open>return 1\<close>; \<open>out_of_range\<close> is not
  caught.
\<close>

definition port_argument :: "string list \<Rightarrow> cpp_error + i32 option" where
  "port_argument argv =
     (case argv of
        [] \<Rightarrow> Inr None
      | arg # _ \<Rightarrow>
          (case stoi arg of
             Inl Invalid_argument \<Rightarrow> Inr None
           | Inl e \<Rightarrow> Inl e
           | Inr port \<Rightarrow> if sint port < 0 \<or> 65535 < sint port then Inr None else Inr (Some port)))"

section \<open>The client\<close>

datatype 'e exit = Uncaught_exception cpp_error | Exit int "'e thread_state option"

definition client_main ::
  "'e network \<Rightarrow> string \<times> i32 \<Rightarrow> string list \<Rightarrow> string list \<Rightarrow> 'e \<Rightarrow> 'e exit" where
  "client_main net garbage argv inputs e =
     (case port_argument argv of
        Inl err \<Rightarrow> Uncaught_exception err
      | Inr None \<Rightarrow> Exit 1 None
      | Inr (Some port) \<Rightarrow>
          (let (d, e1) = RequestDispatcher net garbage port e
           in case main_loop inputs d of
                Inl err \<Rightarrow> Uncaught_exception err
              | Inr d1 \<Rightarrow> Exit 0 (process_requests net garbage ([], d1, e1))))"

section \<open>The server\<close>

text \<open>What the threads of a server on the given port work with at the start.\<close>

record server_start =
  start_db :: db_manager
  sync_port :: i32
  greeter_port :: i32
  location_text :: string
  multiplexer_port :: i32
  heartbeat_port :: i32
  election_port :: i32

definition SS_PORT_DELTA :: i32 where
  "SS_PORT_DELTA = 6"

definition server_main :: "string \<Rightarrow> string list \<Rightarrow> cpp_error + server_start option" where
  "server_main self_ip argv =
     (case port_argument argv of
        Inl err \<Rightarrow> Inl err
      | Inr None \<Rightarrow> Inr None
      | Inr (Some port) \<Rightarrow>
          Inr (Some \<lparr>start_db = DbManager, sync_port = fst (sync_setup port None),
                    greeter_port = port, location_text = greeter_reply self_ip port,
                    multiplexer_port = port + 1, heartbeat_port = port + HEARTBEAT_PORT_DELTA,
                    election_port = port + SS_PORT_DELTA\<rparr>))"

section \<open>The single instances\<close>

text \<open>
  \<open>get_instance\<close> of the three classes that use it: a static local pointer, set by the first call
  from a new object; \<open>None\<close> before that call. A port that a later call passes is ignored.
\<close>

definition DbManager_get_instance :: "db_manager option \<Rightarrow> db_manager \<times> db_manager option" where
  "DbManager_get_instance inst =
     (let db = (case inst of None \<Rightarrow> DbManager | Some db \<Rightarrow> db) in (db, Some db))"

definition RedundancyManager_get_instance ::
  "string \<Rightarrow> redundancy_manager \<Rightarrow> redundancy_manager option \<Rightarrow> redundancy_manager \<times> redundancy_manager option" where
  "RedundancyManager_get_instance self_ip garbage inst =
     (let rm = (case inst of None \<Rightarrow> RedundancyManager self_ip garbage | Some rm \<Rightarrow> rm) in (rm, Some rm))"

definition RequestDispatcher_get_instance ::
  "'e network \<Rightarrow> string \<times> i32 \<Rightarrow> i32 \<Rightarrow> dispatcher option \<times> 'e \<Rightarrow> dispatcher \<times> dispatcher option \<times> 'e" where
  "RequestDispatcher_get_instance net garbage port st =
     (case st of
        (None, e) \<Rightarrow> (let (d, e') = RequestDispatcher net garbage port e in (d, Some d, e'))
      | (Some d, e) \<Rightarrow> (d, Some d, e))"

section \<open>Lemmas\<close>

text \<open>Whatever the first call made is what every later call returns.\<close>

lemma one_instance:
  "DbManager_get_instance inst = (db, inst') \<Longrightarrow> DbManager_get_instance inst' = (db, inst')"
  "RedundancyManager_get_instance self g ri = (rm, ri') \<Longrightarrow> RedundancyManager_get_instance self' g' ri' = (rm, ri')"
  "RequestDispatcher_get_instance net gb port st = (d, di, e) \<Longrightarrow>
     RequestDispatcher_get_instance net gb port' (di, e) = (d, di, e)"
  by (auto simp: DbManager_get_instance_def RedundancyManager_get_instance_def
      RequestDispatcher_get_instance_def Let_def split: option.splits prod.splits)

section \<open>Properties\<close>

text \<open>
  Which ports the programs accept: a number of the range of \<open>int\<close> from 0 to 65535; a
  larger or negative one and a text that is no number are refused; a number beyond \<open>int\<close>
  ends the program with an uncaught exception.
\<close>

lemma port_argument_checks:
  "port_argument [show_int i] =
     (if i < - (2 ^ 31) \<or> 2 ^ 31 \<le> i then Inl Out_of_range
      else if 0 \<le> i \<and> i \<le> 65535 then Inr (Some (word_of_int i)) else Inr None) \<and>
   port_argument [] = Inr None \<and> port_argument [''port''] = Inr None"
proof -
  have "scan_number ''port'' = None"
    by (simp add: scan_number_def isspace_def isdigit_def)
  moreover have "sint (word_of_int i :: i32) = i" if "\<not> (i < - (2 ^ 31) \<or> 2 ^ 31 \<le> i)"
    using that sint_word_of_int_31 [of 0 i] by (simp add: signed_take_bit_int_eq_self)
  ultimately show ?thesis
    by (auto simp: port_argument_def stoi_def text_simps Let_def)
qed

text \<open>
  C37. The whole client, by what it is given. A port that is beyond \<open>int\<close> ends it with
  \<open>out_of_range\<close>, one outside 0 to 65535 (or none) with exit code 1. Otherwise the exception of
  the first line that causes one ends it, and if no line does, it always comes to its end with
  exit code 0: the queue is empty, and the requests of all lines, in their order, and then the
  request to close the account have been dispatched once each, exactly as one after the
  other. Lines of a transfer each are these transfers.
\<close>

theorem client_main_ends:
  "(if i < - (2 ^ 31) \<or> 2 ^ 31 \<le> i
    then client_main net garbage [show_int i] inputs e = Uncaught_exception Out_of_range
    else if i < 0 \<or> 65535 < i then client_main net garbage [show_int i] inputs e = Exit 1 None
    else case input_crash inputs of
        Some err \<Rightarrow> client_main net garbage [show_int i] inputs e = Uncaught_exception err
      | None \<Rightarrow>
          (\<exists>d1 e1 out d2 e2. RequestDispatcher net garbage (word_of_int i) e = (d1, e1) \<and>
             client_main net garbage [show_int i] inputs e = Exit 0 (Some (out, d2, e2)) \<and>
             dispatch_all net garbage (valid_requests (input_requests inputs))
               (d1\<lparr>is_alive := False, request_queue := valid_requests (input_requests inputs)\<rparr>) e1 =
               (out, d2, e2) \<and>
             length out = length (valid_requests (input_requests inputs)) \<and> request_queue d2 = [])) \<and>
   client_main net garbage [] inputs e = Exit 1 None \<and>
   input_crash (map transfer_line ts) = None \<and>
   valid_requests (input_requests (map transfer_line ts)) =
     map (\<lambda>(b, amount). transfer_request b amount) ts @ [kill_request]"
proof -
  note port = port_argument_checks [of i]
  have ends: "case input_crash inputs of
        Some err \<Rightarrow> client_main net garbage [show_int i] inputs e = Uncaught_exception err
      | None \<Rightarrow>
          (\<exists>d1 e1 out d2 e2. RequestDispatcher net garbage (word_of_int i) e = (d1, e1) \<and>
             client_main net garbage [show_int i] inputs e = Exit 0 (Some (out, d2, e2)) \<and>
             dispatch_all net garbage (valid_requests (input_requests inputs))
               (d1\<lparr>is_alive := False, request_queue := valid_requests (input_requests inputs)\<rparr>) e1 =
               (out, d2, e2) \<and>
             length out = length (valid_requests (input_requests inputs)) \<and> request_queue d2 = [])"
    if accepted: "port_argument [show_int i] = Inr (Some (word_of_int i))"
  proof -
    let ?rs = "valid_requests (input_requests inputs)"
    obtain d1 e1 where d: "RequestDispatcher net garbage (word_of_int i) e = (d1, e1)" by force
    let ?d = "d1\<lparr>is_alive := False, request_queue := ?rs\<rparr>"
    have "request_queue d1 = []"
      using d locate_frame(2) unfolding RequestDispatcher_def by (metis fst_conv dispatcher.select_convs(4))
    then have loop: "main_loop inputs d1 = (case input_crash inputs of Some err \<Rightarrow> Inl err | None \<Rightarrow> Inr ?d)"
      by (simp add: main_loop_requests split: option.split)
    obtain out d2 e2 where all: "dispatch_all net garbage ?rs ?d e1 = (out, d2, e2)"
      by (metis prod_cases3)
    have "process_requests net garbage ([], ?d, e1) = Some (out, d2, e2)"
      using process_requests_drains [of ?d ?rs net garbage "[]" e1] all by simp
    moreover have "length out = length ?rs" "request_queue d2 = []"
      using dispatch_all_frame [of net garbage ?rs ?d e1] all by simp_all
    ultimately show ?thesis
      using accepted d loop all by (simp add: client_main_def split: option.splits)
  qed
  show ?thesis
    using port ends session_requests session_no_crash by (auto simp: client_main_def)
qed

end
