(* ===== verification/Server_Sockets.thy ===== *)
theory Server_Sockets
  imports Sockets Programs
begin

text \<open>
  How the five services of a server set up their sockets before their receive loops: the
  multiplexer (\<open>packet_multiplexer.cpp\<close>), the discovery service
  (\<open>server_discovery_service.cpp\<close>), the synchronizer (\<open>db_synchronizer.cpp\<close>), the heartbeat
  receiver (\<open>heartbeat.cpp\<close>) and the election (\<open>single_socket_election.cpp\<close>). The threads
  start in no fixed order, so the lemmas hold for every order.
\<close>

section \<open>The set-ups\<close>

text \<open>The result of \<open>bind_to_sockaddr\<close> is ignored by all five.\<close>

definition multiplexer_socket :: "kernel \<Rightarrow> i32 \<Rightarrow> sockets \<Rightarrow> (int \<times> sockets) process" where
  "multiplexer_socket k port S =
     and_then (create_udp_socket k S) (\<lambda>(sockfd, S).
       let servaddr = create_sockaddr ''0.0.0.0'' port
       in Running (sockfd, snd (bind_to_sockaddr k sockfd servaddr S)))"

definition discovery_socket :: "kernel \<Rightarrow> i32 \<Rightarrow> sockets \<Rightarrow> (int \<times> sockets) process" where
  "discovery_socket k discovery_service_port S =
     and_then (create_udp_socket k S) (\<lambda>(sockfd, S).
       and_then (enable_broadcast k sockfd S) (\<lambda>S.
         let servaddr = create_sockaddr ''0.0.0.0'' discovery_service_port
         in Running (sockfd, snd (bind_to_sockaddr k sockfd servaddr S))))"

text \<open>\<open>DB_Synchronizer\<close>: its port is the server's plus 3; \<open>bcastaddr\<close> is where updates go.\<close>

definition sync_bcastaddr :: "i32 \<Rightarrow> sockaddr_in" where
  "sync_bcastaddr port = create_sockaddr ''255.255.255.255'' (port + 3)"

definition sync_socket :: "kernel \<Rightarrow> i32 \<Rightarrow> sockets \<Rightarrow> (int \<times> sockets) process" where
  "sync_socket k port S =
     and_then (create_udp_socket k S) (\<lambda>(sockfd, S).
       and_then (enable_broadcast k sockfd S) (\<lambda>S.
         let servaddr = (create_sockaddr ''255.255.255.255'' (port + 3))\<lparr>sin_addr := 0\<rparr>
         in Running (sockfd, snd (bind_to_sockaddr k sockfd servaddr S))))"

definition heartbeat_socket :: "kernel \<Rightarrow> i32 \<Rightarrow> sockets \<Rightarrow> (int \<times> sockets) process" where
  "heartbeat_socket k port S =
     and_then (create_udp_socket k S) (\<lambda>(sockfd, S).
       let servaddr = create_sockaddr ''0.0.0.0'' port
       in Running (sockfd, snd (bind_to_sockaddr k sockfd servaddr S)))"

definition start_heartbeat_receiver :: "kernel \<Rightarrow> i32 \<Rightarrow> sockets \<Rightarrow> (int \<times> sockets) process" where
  "start_heartbeat_receiver k arg S = (let port = arg + HEARTBEAT_PORT_DELTA in heartbeat_socket k port S)"

text \<open>The client's socket, from the constructor of its dispatcher; it is not bound.\<close>

definition INITIAL_TIMEOUT :: int where
  "INITIAL_TIMEOUT = 200"

definition dispatcher_socket :: "kernel \<Rightarrow> sockets \<Rightarrow> (int \<times> sockets) process" where
  "dispatcher_socket k S =
     and_then (create_udp_socket k S) (\<lambda>(sockfd, S).
       Running (sockfd, snd (set_timeout_fd k sockfd INITIAL_TIMEOUT S)))"

definition election_socket :: "kernel \<Rightarrow> i32 \<Rightarrow> sockets \<Rightarrow> (int \<times> sockets) process" where
  "election_socket k port_n S =
     and_then (create_udp_socket k S) (\<lambda>(ss_sockfd, S).
       and_then (enable_broadcast k ss_sockfd S) (\<lambda>S.
         let S = snd (set_timeout_fd k ss_sockfd 10 S);
             ss_servaddr = create_sockaddr ''0.0.0.0'' (port_n + SS_PORT_DELTA)
         in Running (ss_sockfd, snd (bind_to_sockaddr k ss_sockfd ss_servaddr S))))"

definition election_broadcast_addr :: "i32 \<Rightarrow> sockaddr_in" where
  "election_broadcast_addr port_n =
     (create_sockaddr ''0.0.0.0'' (port_n + SS_PORT_DELTA))\<lparr>sin_addr := 0xffffffff\<rparr>"

section \<open>A server and its threads\<close>

datatype service = Synchronizer | Greeter | Multiplexer | Heartbeat_receiver | Election

instantiation service :: enum
begin

definition enum_service :: "service list" where
  "enum_service = [Synchronizer, Greeter, Multiplexer, Heartbeat_receiver, Election]"

definition enum_all_service :: "(service \<Rightarrow> bool) \<Rightarrow> bool" where
  "enum_all_service P \<longleftrightarrow> list_all P enum_class.enum"

definition enum_ex_service :: "(service \<Rightarrow> bool) \<Rightarrow> bool" where
  "enum_ex_service P \<longleftrightarrow> list_ex P enum_class.enum"

instance
proof
  have all: "set (enum_class.enum :: service list) = UNIV"
    using service.exhaust by (auto simp: enum_service_def)
  then show "UNIV = set (enum_class.enum :: service list)" by simp
  show "distinct (enum_class.enum :: service list)" by (simp add: enum_service_def)
  show "enum_class.enum_all P = Ball UNIV P" "enum_class.enum_ex P = Bex UNIV P" for P :: "service \<Rightarrow> bool"
    using all by (auto simp: enum_all_service_def enum_ex_service_def list_all_iff list_ex_iff)
qed

end

fun open_service :: "kernel \<Rightarrow> i32 \<Rightarrow> service \<Rightarrow> sockets \<Rightarrow> (int \<times> sockets) process" where
  "open_service k port Synchronizer S = sync_socket k port S"
| "open_service k port Greeter S = discovery_socket k port S"
| "open_service k port Multiplexer S = multiplexer_socket k (port + 1) S"
| "open_service k port Heartbeat_receiver S = start_heartbeat_receiver k port S"
| "open_service k port Election S = election_socket k port S"

fun open_services :: "kernel \<Rightarrow> i32 \<Rightarrow> service list \<Rightarrow> sockets \<Rightarrow> (int list \<times> sockets) process" where
  "open_services k port [] S = Running ([], S)"
| "open_services k port (v # vs) S =
     and_then (open_service k port v S) (\<lambda>(fd, S).
       and_then (open_services k port vs S) (\<lambda>(fds, S). Running (fd # fds, S)))"

fun port_delta :: "service \<Rightarrow> nat" where
  "port_delta Greeter = 0"
| "port_delta Multiplexer = 1"
| "port_delta Heartbeat_receiver = 2"
| "port_delta Synchronizer = 3"
| "port_delta Election = 6"

definition service_addr :: "i32 \<Rightarrow> service \<Rightarrow> sockaddr_in" where
  "service_addr port v = \<lparr>sin_port = htons (ucast (port + of_nat (port_delta v))), sin_addr = 0\<rparr>"

section \<open>Lemmas\<close>

lemma any_address [simp]: "inet_addr ''0.0.0.0'' = 0"
proof -
  have "digit_char 0 = CHR ''0''" by code_simp
  then have "inet_ntop 0 = ''0.0.0.0''"
    by (simp add: inet_ntop_def octets_def show_nat.simps [of 0])
  then show ?thesis by (metis inet_addr_inet_ntop)
qed

lemma open_service_up:
  assumes "never_refuses k"
  shows "\<exists>S'. open_service k port v S = Running (socket_call k S, S') \<and>
    open_fds S' = insert (socket_call k S) (open_fds S) \<and>
    bound_to S' = (bound_to S)(socket_call k S \<mapsto> service_addr port v)"
proof -
  have k: "0 \<le> socket_call k T" "broadcast_call k fd T" "timeout_call k fd T tv" "bind_call k fd a T"
    for T fd tv a
    using assms by (simp_all add: never_refuses_def)
  show ?thesis
    using k(1) [of S]
    by (cases v) (simp_all add: sync_socket_def discovery_socket_def multiplexer_socket_def
        heartbeat_socket_def start_heartbeat_receiver_def election_socket_def create_udp_socket_def enable_broadcast_def
        bind_to_sockaddr_def set_timeout_fd_def set_timeout_def service_addr_def create_sockaddr_def
        HEARTBEAT_PORT_DELTA_def SS_PORT_DELTA_def Let_def k not_less)
qed

text \<open>Started in any order, every service gets a descriptor of its own, bound to its port.\<close>

lemma open_services_up:
  assumes k: "never_refuses k"
  shows "finite (open_fds S) \<Longrightarrow> \<exists>fds S'. open_services k port vs S = Running (fds, S') \<and> length fds = length vs \<and>
    distinct fds \<and> set fds \<inter> open_fds S = {} \<and> open_fds S' = open_fds S \<union> set fds \<and>
    (\<forall>fd. fd \<notin> set fds \<longrightarrow> bound_to S' fd = bound_to S fd) \<and>
    (\<forall>i<length vs. bound_to S' (fds ! i) = Some (service_addr port (vs ! i)))"
proof (induction vs arbitrary: S)
  case (Cons v vs)
  let ?fd = "socket_call k S"
  obtain S1 where S1: "open_service k port v S = Running (?fd, S1)"
    "open_fds S1 = insert ?fd (open_fds S)" "bound_to S1 = (bound_to S)(?fd \<mapsto> service_addr port v)"
    using open_service_up [OF k] by blast
  obtain fds S' where rest: "open_services k port vs S1 = Running (fds, S')" "length fds = length vs"
    "distinct fds" "set fds \<inter> open_fds S1 = {}" "open_fds S' = open_fds S1 \<union> set fds"
    "\<forall>fd. fd \<notin> set fds \<longrightarrow> bound_to S' fd = bound_to S1 fd"
    "\<forall>i<length vs. bound_to S' (fds ! i) = Some (service_addr port (vs ! i))"
    using Cons.IH [of S1] Cons.prems S1(2) by auto
  have new: "?fd \<notin> open_fds S" using k Cons.prems by (simp add: never_refuses_def fresh_fds_def)
  have own: "?fd \<notin> set fds" using rest(4) S1(2) by auto
  have "\<forall>i<length (v # vs). bound_to S' ((?fd # fds) ! i) = Some (service_addr port ((v # vs) ! i))"
    using rest(6,7) own S1(3) by (auto simp: less_Suc_eq_0_disj)
  moreover have "\<forall>fd. fd \<notin> set (?fd # fds) \<longrightarrow> bound_to S' fd = bound_to S fd"
    using rest(6) S1(3) by simp
  ultimately show ?case
    using S1(1,2) rest(1-5) new own
    by (intro exI [of _ "?fd # fds"] exI [of _ S']) auto
qed simp

lemma htons_inj: "htons x = htons y \<longleftrightarrow> x = y"
  by (metis htons_htons)

lemma port_delta_inj: "port_delta v = port_delta w \<Longrightarrow> v = w"
  by (cases v; cases w) simp_all

lemma ucast_of_nat_16: "(ucast (of_nat n :: i32) :: 16 word) = of_nat n"
  by transfer (simp add: take_bit_take_bit)

lemma service_port:
  assumes "0 \<le> sint port"
  shows "unat (htons (sin_port (service_addr port v))) = (nat (sint port) + port_delta v) mod 65536"
proof -
  have "of_nat (nat (sint port)) = (word_of_int (sint port) :: i32)"
    using assms by (metis int_nat_eq of_int_of_nat_eq)
  then have "port = of_nat (nat (sint port))" by simp
  then have "port + of_nat (port_delta v) = of_nat (nat (sint port) + port_delta v)"
    by (metis of_nat_add)
  then have "(ucast (port + of_nat (port_delta v)) :: 16 word) = of_nat (nat (sint port) + port_delta v)"
    by (metis ucast_of_nat_16)
  then show ?thesis by (simp add: service_addr_def htons_htons unat_of_nat take_bit_eq_mod del: of_nat_add)
qed

lemma service_addr_inj:
  assumes "0 \<le> sint port" "service_addr port v = service_addr port w"
  shows "v = w"
proof (rule port_delta_inj)
  have "(nat (sint port) + port_delta v) mod 65536 = (nat (sint port) + port_delta w) mod 65536"
    using assms service_port by metis
  moreover have "port_delta v \<le> 6" "port_delta w \<le> 6" by (cases v; simp) (cases w; simp)
  ultimately obtain q r where "port_delta v + 65536 * q = port_delta w + 65536 * r"
    "port_delta v < 65536" "port_delta w < 65536"
    by (auto simp: nat_mod_eq_iff)
  then show "port_delta v = port_delta w" by (metis mod_less mod_mult_self2)
qed

text \<open>A kernel that never refuses and numbers the descriptors upwards.\<close>

definition sample_kernel :: kernel where
  "sample_kernel = \<lparr>socket_call = (\<lambda>S. \<bar>Max (insert 2 (open_fds S)) + 1\<bar>),
     broadcast_call = (\<lambda>_ _. True), timeout_call = (\<lambda>_ _ _. True), bind_call = (\<lambda>_ _ _. True),
     route_addr = 0x0100000a\<rparr>"

lemma sample_kernel: "never_refuses sample_kernel"
proof -
  have "\<bar>Max (insert 2 A) + 1\<bar> \<notin> A" if "finite A" for A :: "int set"
  proof -
    have "2 \<le> Max (insert 2 A)" using that by simp
    moreover have "Max (insert 2 A) + 1 \<notin> A"
      using that Max_ge [of "insert 2 A" "Max (insert 2 A) + 1"] by auto
    ultimately show ?thesis by simp
  qed
  then show ?thesis by (simp add: never_refuses_def fresh_fds_def sample_kernel_def)
qed

section \<open>Properties\<close>

text \<open>
  C40. The services of a server do not get in each other's way: in whatever order its threads
  start, on a kernel that grants every call each service ends up with a descriptor of its
  own, bound on all interfaces to a port no other service has. For an accepted port number
  up to 65529 it is the port documented for the service; above, the ports of the last
  services wrap modulo 65536 to 0 and the reserved low numbers.
\<close>

theorem services_have_their_ports:
  assumes "never_refuses k" and "distinct vs" and "0 \<le> sint port" and "finite (open_fds S)"
  shows "\<exists>fds S'. open_services k port vs S = Running (fds, S') \<and> distinct fds \<and>
    set fds \<subseteq> open_fds S' \<and>
    (\<forall>i<length vs. \<exists>addr. bound_to S' (fds ! i) = Some addr \<and> sin_addr addr = 0 \<and>
       unat (htons (sin_port addr)) = (nat (sint port) + port_delta (vs ! i)) mod 65536) \<and>
    (\<forall>i<length vs. \<forall>j<length vs. i \<noteq> j \<longrightarrow> bound_to S' (fds ! i) \<noteq> bound_to S' (fds ! j))"
proof -
  obtain fds S' where up: "open_services k port vs S = Running (fds, S')" "length fds = length vs"
    "distinct fds" "open_fds S' = open_fds S \<union> set fds"
    "\<forall>i<length vs. bound_to S' (fds ! i) = Some (service_addr port (vs ! i))"
    using open_services_up [OF assms(1,4)] by blast
  moreover have "sin_addr (service_addr port v) = 0" for v by (simp add: service_addr_def)
  moreover have "\<forall>i<length vs. \<forall>j<length vs. i \<noteq> j \<longrightarrow>
      service_addr port (vs ! i) \<noteq> service_addr port (vs ! j)"
    using service_addr_inj [OF assms(3)] assms(2) by (metis nth_eq_iff_index_eq)
  ultimately show ?thesis using service_port [OF assms(3)] by auto
qed

theorem services_have_their_ports_witness:
  "\<exists>fds S' addr. open_services sample_kernel 4000 enum_class.enum no_sockets =
      Running (fds, S') \<and> distinct fds \<and>
    bound_to S' (fds ! 4) = Some addr \<and> unat (htons (sin_port addr)) = 4006"
proof -
  let ?vs = "enum_class.enum :: service list"
  have port: "sint (4000 :: i32) = 4000" by code_simp
  have "distinct ?vs" "finite (open_fds no_sockets)" by (simp_all add: no_sockets_def enum_distinct)
  then obtain fds S' where up: "open_services sample_kernel 4000 ?vs no_sockets = Running (fds, S')"
    "distinct fds" "\<forall>i<length ?vs. \<exists>addr. bound_to S' (fds ! i) = Some addr \<and> sin_addr addr = 0 \<and>
       unat (htons (sin_port addr)) = (nat (sint (4000 :: i32)) + port_delta (?vs ! i)) mod 65536"
    using services_have_their_ports [OF sample_kernel, of ?vs 4000 no_sockets] port by auto
  have "\<exists>addr. bound_to S' (fds ! 4) = Some addr \<and> unat (htons (sin_port addr)) = 4006"
    using up(3) [rule_format, of 4] port by (auto simp: enum_service_def)
  then show ?thesis using up(1,2) by blast
qed

text \<open>
  A taken port is not noticed: when the kernel refuses the port of a service,
  \<open>bind_to_sockaddr\<close> closes the socket and returns -1, which no caller looks at, so the
  service goes on to its receive loop with a descriptor that is not open.
\<close>

lemma bind_failure_unnoticed:
  assumes "\<And>fd S. 0 \<le> socket_call k S \<and> broadcast_call k fd S"
    and "\<And>fd S. \<not> bind_call k fd (service_addr port v) S"
  shows "\<exists>fd S'. open_service k port v S = Running (fd, S') \<and> fd \<notin> open_fds S'"
  using assms
  by (cases v) (simp_all add: sync_socket_def discovery_socket_def multiplexer_socket_def
      heartbeat_socket_def start_heartbeat_receiver_def election_socket_def create_udp_socket_def enable_broadcast_def
      bind_to_sockaddr_def set_timeout_fd_def set_timeout_def service_addr_def create_sockaddr_def
      HEARTBEAT_PORT_DELTA_def SS_PORT_DELTA_def close_fd_def Let_def not_less)

end
