(* ===== verification/Replication.thy ===== *)
theory Replication
  imports Server_Threads
begin

text \<open>
  The coordinator and a replica over a whole run: the coordinator serves client packets and
  discovery messages one after the other, and the replica receives every database broadcast,
  in order, as one datagram each. The hash table's iteration order is an arbitrary choice
  for every snapshot.
\<close>

section \<open>Runs\<close>

datatype coordinator_input = Client_packet client_message | Discovery sockaddr_in string

definition coordinator_serves ::
  "string \<Rightarrow> coordinator_input \<Rightarrow> db_manager \<Rightarrow> handler_outcome" where
  "coordinator_serves reply ev s =
     (case ev of
        Client_packet m \<Rightarrow> handle_message m s
      | Discovery addr payload \<Rightarrow> discovery_step reply True addr payload s)"

fun replica_receives ::
  "(db_snapshot \<Rightarrow> entries) \<Rightarrow> string \<Rightarrow> sockaddr_in \<Rightarrow> server_output list \<Rightarrow> db_manager \<Rightarrow> db_manager" where
  "replica_receives order self_ip src [] r = r"
| "replica_receives order self_ip src (Reply a t # outs) r = replica_receives order self_ip src outs r"
| "replica_receives order self_ip src (Broadcast_update snap # outs) r =
     replica_receives order self_ip src outs
       (snd (listen_step self_ip (Datagram src (broadcast_update (order snap) snap)) r))"

fun replicated_run ::
  "(db_snapshot \<Rightarrow> entries) \<Rightarrow> string \<Rightarrow> sockaddr_in \<Rightarrow> string \<Rightarrow> coordinator_input list \<Rightarrow>
   db_manager \<Rightarrow> db_manager \<Rightarrow> db_manager \<times> db_manager" where
  "replicated_run order self_ip src reply [] p r = (p, r)"
| "replicated_run order self_ip src reply (ev # evs) p r =
     (let (out, p') = coordinator_serves reply ev p;
          r' = (case out of Inl e \<Rightarrow> r | Inr outs \<Rightarrow> replica_receives order self_ip src outs r)
      in replicated_run order self_ip src reply evs p' r')"

text \<open>What a broadcast needs to be loaded: few clients, and counters of the size of \<open>int\<close>.\<close>

definition sendable :: "db_manager \<Rightarrow> bool" where
  "sendable s \<longleftrightarrow> card (dom (database_records s)) \<le> 19 \<and> snapshot_fits (get_db_snapshot s)"

fun always_sendable :: "string \<Rightarrow> coordinator_input list \<Rightarrow> db_manager \<Rightarrow> bool" where
  "always_sendable reply [] p = True"
| "always_sendable reply (ev # evs) p =
     (sendable (snd (coordinator_serves reply ev p)) \<and>
      always_sendable reply evs (snd (coordinator_serves reply ev p)))"

section \<open>One input\<close>

lemma handle_message_broadcasts:
  assumes "db_ok s" "handle_message m s = (Inr outs, s')"
  shows "(\<forall>snap. Broadcast_update snap \<in> set outs \<longrightarrow> snap = get_db_snapshot s') \<and>
    (ledger_of s' \<noteq> ledger_of s \<longrightarrow> Broadcast_update (get_db_snapshot s') \<in> set outs)"
proof (cases m)
  case (Req_message addr p)
  have "snap = get_db_snapshot s'" if "Broadcast_update snap \<in> set outs" for snap
  proof (cases "check_packet_status p (known_record (sin_addr addr) s) = VALID")
    case True
    obtain res t where t: "settle (sin_addr addr) (receiver_ip p) (transfer_amount p) s = (Inr res, t)"
      by (rule settle_returns)
    show ?thesis
      using that assms Req_message process_req_settles [OF assms(1) True t] by (auto split: if_splits)
  qed (use that assms Req_message in \<open>auto simp: process_req_refusal\<close>)
  then show ?thesis
    using process_req_broadcasts [OF assms(1), of addr p outs s'] assms(2) Req_message by auto
next
  case (Kil_message addr p)
  have "snap = get_db_snapshot s'" if "Broadcast_update snap \<in> set outs" for snap
    using that assms Kil_message
    by (auto simp: process_kill_packet_def Let_def split: prod.splits sum.splits if_splits)
  then show ?thesis
    using process_kill_broadcasts [OF assms(1), of addr p outs s'] assms(2) Kil_message by auto
qed

lemma coordinator_step:
  assumes "db_ok s"
  obtains outs s' where "coordinator_serves reply ev s = (Inr outs, s')" "db_ok s'"
    and "\<And>snap. Broadcast_update snap \<in> set outs \<Longrightarrow> snap = get_db_snapshot s'"
    and "ledger_of s' \<noteq> ledger_of s \<Longrightarrow> Broadcast_update (get_db_snapshot s') \<in> set outs"
proof (cases ev)
  case (Client_packet m)
  obtain outs where outs: "handle_message m s = (Inr outs, snd (handle_message m s))"
    using handler_service.returns [OF assms, of m] by (metis prod.collapse)
  have "coordinator_serves reply ev s = (Inr outs, snd (handle_message m s))"
    using outs Client_packet by (simp add: coordinator_serves_def)
  moreover have "db_ok (snd (handle_message m s))" using assms by (rule handler_service.keeps)
  ultimately show thesis using that handle_message_broadcasts [OF assms outs] by blast
next
  case (Discovery addr payload)
  obtain s' where s': "discovery_step reply True addr payload s =
      (Inr [Reply addr reply, Broadcast_update (get_db_snapshot s')], s')" "db_ok s'"
    using discovery_step_answers [OF assms] by metis
  show thesis by (rule that) (use s' Discovery in \<open>auto simp: coordinator_serves_def\<close>)
qed

lemma replica_loads:
  assumes "db_ok p" "db_ok r" "sendable p" "addr_to_string (sin_addr src) \<noteq> self_ip"
    and "\<And>snap. finite (dom (records snap)) \<Longrightarrow> enumerates (order snap) (records snap)"
  shows "db_ok (snd (listen_step self_ip
      (Datagram src (broadcast_update (order (get_db_snapshot p)) (get_db_snapshot p))) r)) \<and>
    get_db_snapshot (snd (listen_step self_ip
      (Datagram src (broadcast_update (order (get_db_snapshot p)) (get_db_snapshot p))) r)) =
      get_db_snapshot p"
proof -
  let ?es = "order (get_db_snapshot p)"
  have fin: "finite (dom (database_records p))" using assms(1) by (simp add: db_ok_def db_wf_def)
  then have es: "enumerates ?es (database_records p)"
    using assms(5) [of "get_db_snapshot p"] by (simp add: get_db_snapshot_def)
  then have "length ?es = card (dom (database_records p))"
    by (metis dom_map_of_conv_image_fst enumerates_def distinct_card length_map set_map)
  then have "length ?es \<le> 19" using assms(3) by (simp add: sendable_def)
  moreover have "db_idle r" using assms(2) by (simp add: db_ok_def)
  ultimately show ?thesis
    using listen_loads [OF assms(1) _ es _ assms(4), of r] assms(3) by (auto simp: sendable_def)
qed

lemma ledger_of_snapshot: "get_db_snapshot s = get_db_snapshot t \<Longrightarrow> ledger_of s = ledger_of t"
  by (simp add: get_db_snapshot_def ledger_of_def)

lemma replica_receives_all:
  assumes "db_ok p" "sendable p" "addr_to_string (sin_addr src) \<noteq> self_ip"
    and "\<And>snap. finite (dom (records snap)) \<Longrightarrow> enumerates (order snap) (records snap)"
  shows "(\<And>snap. Broadcast_update snap \<in> set outs \<Longrightarrow> snap = get_db_snapshot p) \<Longrightarrow> db_ok r \<Longrightarrow>
    db_ok (replica_receives order self_ip src outs r) \<and>
    ledger_of (replica_receives order self_ip src outs r) =
      (if Broadcast_update (get_db_snapshot p) \<in> set outs then ledger_of p else ledger_of r)"
proof (induction outs arbitrary: r)
  case (Cons o' outs)
  have rest: "\<And>snap. Broadcast_update snap \<in> set outs \<Longrightarrow> snap = get_db_snapshot p"
    using Cons.prems(1) by (metis list.set_intros(2))
  show ?case
  proof (cases o')
    case (Broadcast_update snap)
    let ?r = "snd (listen_step self_ip (Datagram src (broadcast_update (order snap) snap)) r)"
    have snap: "snap = get_db_snapshot p"
      by (rule Cons.prems(1)) (simp add: Broadcast_update)
    note loads = replica_loads [OF assms(1) Cons.prems(2) assms(2,3) assms(4)]
    have ok: "db_ok ?r" unfolding snap by (rule loads [THEN conjunct1])
    have eq: "ledger_of ?r = ledger_of p"
      unfolding snap by (rule ledger_of_snapshot [OF loads [THEN conjunct2]])
    show ?thesis
      using Cons.IH [OF rest ok] eq by (simp add: Broadcast_update snap)
  next
    case (Reply a t)
    show ?thesis using Cons.IH [OF rest Cons.prems(2)] by (simp add: Reply)
  qed
qed simp

text \<open>One iteration order: by address.\<close>

definition by_address :: "db_snapshot \<Rightarrow> entries" where
  "by_address snap = map (\<lambda>a. (a, the (records snap a))) (sorted_list_of_set (dom (records snap)))"

lemma by_address: "finite (dom (records snap)) \<Longrightarrow> enumerates (by_address snap) (records snap)"
  by (auto simp: enumerates_def by_address_def comp_def map_of_map_restrict restrict_map_def
      fun_eq_iff domIff)

lemma two_clients_transfer_sendable:
  "sendable (snd (make_transaction 1 2 30 two_clients))"
proof -
  let ?r = "\<lparr>ip = 1, balance = 100000, last_request = 0\<rparr>"
  let ?q = "\<lparr>ip = 2, balance = 100000, last_request = 0\<rparr>"
  have settled: "snd (make_transaction 1 2 30 two_clients) = snd (settle 1 2 30 two_clients)"
    using two_clients_ok by (simp add: make_transaction_settle db_ok_def)
  have "database_records (snd (settle 1 2 30 two_clients)) = [1 \<mapsto> debited 30 ?r, 2 \<mapsto> credited 30 ?q]"
    "total_transferred (snd (settle 1 2 30 two_clients)) = 30"
    using two_clients_state by (simp_all add: settle_def uint_plus_ulong_low fun_upd_twist)
  then show ?thesis
    unfolding settled
    by (auto simp: sendable_def snapshot_fits_def get_db_snapshot_def get_db_metadata_def ran_def
        request_fits_def debited_def credited_def)
qed

section \<open>Properties\<close>

text \<open>
  C6. Replicas follow the coordinator. Whatever client packets and discovery messages the
  coordinator serves, a replica that starts with its balances and receives its broadcasts
  has the coordinator's balances after each of them, and neither ever loses a valid
  database, as long as there are at most 19 clients and the counters fit \<open>int\<close>.
\<close>

theorem replicas_follow_coordinator:
  assumes "db_ok p" and "db_ok r" and "ledger_of r = ledger_of p"
    and "always_sendable reply evs p" and "addr_to_string (sin_addr src) \<noteq> self_ip"
    and "\<And>snap. finite (dom (records snap)) \<Longrightarrow> enumerates (order snap) (records snap)"
    and "replicated_run order self_ip src reply evs p r = (p', r')"
  shows "ledger_of r' = ledger_of p' \<and> db_ok p' \<and> db_ok r'"
  using assms(1-4,7)
proof (induction evs arbitrary: p r)
  case (Cons ev evs)
  obtain outs q where q: "coordinator_serves reply ev p = (Inr outs, q)" "db_ok q"
    and current: "\<And>snap. Broadcast_update snap \<in> set outs \<Longrightarrow> snap = get_db_snapshot q"
    and told: "ledger_of q \<noteq> ledger_of p \<Longrightarrow> Broadcast_update (get_db_snapshot q) \<in> set outs"
    using coordinator_step [OF Cons.prems(1), of reply ev] by metis
  let ?r = "replica_receives order self_ip src outs r"
  have "sendable q" using Cons.prems(4) q(1) by simp
  then have loaded: "db_ok ?r \<and> ledger_of ?r =
      (if Broadcast_update (get_db_snapshot q) \<in> set outs then ledger_of q else ledger_of r)"
    using replica_receives_all [OF q(2) _ assms(5,6) current Cons.prems(2)] by blast
  then have "ledger_of ?r = ledger_of q" using told Cons.prems(3)
    by (cases "ledger_of q = ledger_of p") simp_all
  then show ?case
    using Cons.IH [of q ?r] q loaded Cons.prems(4,5) by simp
qed simp

theorem replicas_follow_coordinator_witness:
  "ledger_of (snd (replicated_run by_address ''10.0.0.3'' \<lparr>sin_port = 0, sin_addr = 1\<rparr> []
      [Client_packet (Req_message \<lparr>sin_port = 5, sin_addr = 1\<rparr> (REQ_Packet 1 2 30))]
      two_clients two_clients)) =
    ledger_of (snd (make_transaction 1 2 30 two_clients))"
proof -
  let ?msg = "Req_message \<lparr>sin_port = 5, sin_addr = 1\<rparr> (REQ_Packet 1 2 30)"
  let ?run = "replicated_run by_address ''10.0.0.3'' \<lparr>sin_port = 0, sin_addr = 1\<rparr> []
      [Client_packet ?msg] two_clients two_clients"
  have served: "snd (coordinator_serves [] (Client_packet ?msg) two_clients) =
      snd (make_transaction 1 2 30 two_clients)"
    by (simp add: coordinator_serves_def process_req_valid check_valid_iff get_client_info_def
        two_clients_records respond_def REQ_Packet_def)
  have far: "addr_to_string (sin_addr \<lparr>sin_port = 0, sin_addr = 1\<rparr>) \<noteq> ''10.0.0.3''"
    by (simp add: addr_to_string_def inet_ntop_def show_nat.simps [of "Suc 0"])
  have "ledger_of (snd ?run) = ledger_of (fst ?run)"
    using replicas_follow_coordinator [OF two_clients_ok two_clients_ok refl _ far by_address,
        of "[]" "[Client_packet ?msg]" "fst ?run" "snd ?run"]
      two_clients_transfer_sendable served
    by (simp del: replicated_run.simps)
  moreover have "fst ?run = snd (make_transaction 1 2 30 two_clients)"
    using served by (simp add: split_beta Let_def)
  ultimately show ?thesis by simp
qed

end
