(* ===== verification/Election_Network.thy ===== *)
theory Election_Network
  imports Election
begin

text \<open>
  Several nodes of \<open>Election\<close> on a network that delays, loses, repeats and reorders
  datagrams: whatever was sent may be delivered, at any later time and any number of times,
  to every node for a broadcast (the sender included) and to its addressee otherwise. A step
  is one loop iteration of one node, with any clock value, or the call of
  \<open>backup_election\<close> by its heartbeat thread between two iterations.
\<close>

section \<open>The network\<close>

text \<open>A datagram: the address it was sent from, its addressee if it has one, its text.\<close>

type_synonym datagram = "sockaddr_in \<times> sockaddr_in option \<times> string"

type_synonym net = "redundancy_manager list \<times> datagram list"

fun datagrams :: "sockaddr_in \<Rightarrow> election_output \<Rightarrow> datagram list" where
  "datagrams src (Send_broadcast text) = [(src, None, text)]"
| "datagrams src (Send_to dst text) = [(src, Some dst, text)]"
| "datagrams src Broadcast_database = []"

definition after :: "sockaddr_in list \<Rightarrow> nat \<Rightarrow> node_step \<Rightarrow> net \<Rightarrow> net" where
  "after addrs i res N =
     ((fst N)[i := fst res], snd N @ concat (map (datagrams (addrs ! i)) (snd res)))"

inductive net_step :: "sockaddr_in list \<Rightarrow> net \<Rightarrow> net \<Rightarrow> bool" for addrs where
  deliver: "i < length ns \<Longrightarrow> (src, dst, text) \<in> set sent \<Longrightarrow> dst = None \<or> dst = Some (addrs ! i) \<Longrightarrow>
    net_step addrs (ns, sent)
      (after addrs i (election_iteration now (Datagram src text) (ns ! i)) (ns, sent))"
| silence: "i < length ns \<Longrightarrow>
    net_step addrs (ns, sent)
      (after addrs i (election_iteration now Nothing_received (ns ! i)) (ns, sent))"
| backup: "i < length ns \<Longrightarrow>
    net_step addrs (ns, sent) (after addrs i (backup_election (ns ! i)) (ns, sent))"

definition id_of :: "sockaddr_in \<Rightarrow> u32" where
  "id_of addr = ntohl (sin_addr addr)"

text \<open>The nodes of a cluster after \<open>election_init\<close>: different addresses outside loopback.\<close>

definition net_start :: "sockaddr_in list \<Rightarrow> net \<Rightarrow> bool" where
  "net_start addrs N \<longleftrightarrow>
     (case N of (ns, sent) \<Rightarrow>
        sent = [] \<and> length ns = length addrs \<and> distinct (map sin_addr addrs) \<and>
        (\<forall>a\<in>set addrs. \<not> from_loopback (sin_addr a)) \<and>
        (\<forall>i<length ns. \<exists>now rm. node_id rm = id_of (addrs ! i) \<and> ns ! i = election_init now rm))"

section \<open>What one iteration does, whatever the message\<close>

definition own_text :: "u32 \<Rightarrow> string \<Rightarrow> bool" where
  "own_text i t \<longleftrightarrow> (\<exists>tag. election_tag tag \<and> t = election_text tag i)"

definition step_fine :: "redundancy_manager \<Rightarrow> u32 option \<Rightarrow> node_step \<Rightarrow> bool" where
  "step_fine rm sender res \<longleftrightarrow>
     (case res of (rm', out) \<Rightarrow>
        node_id rm' = node_id rm \<and>
        (\<forall>o' \<in> set out. case o' of
            Send_broadcast t \<Rightarrow> own_text (node_id rm) t
          | Send_to dst t \<Rightarrow> own_text (node_id rm) t
          | Broadcast_database \<Rightarrow> True) \<and>
        (is_coordinator rm' \<longrightarrow> is_coordinator rm \<or>
           Send_broadcast (election_text ''CRD'' (node_id rm)) \<in> set out) \<and>
        (state rm' = WAITING_FOR_COORD \<longrightarrow> state rm = WAITING_FOR_COORD \<or>
           (\<exists>k. sender = Some k \<and> node_id rm < k)))"

lemma tags [simp]: "election_tag ''ELE''" "election_tag ''ANS''" "election_tag ''CRD''"
  by (simp_all add: election_tag_def)

lemma own_texts [simp]:
  "own_text i (election_text ''ELE'' i)" "own_text i (election_text ''ANS'' i)"
  "own_text i (election_text ''CRD'' i)"
  by (auto simp: own_text_def intro: tags)

lemma message_fine:
  assumes far: "\<not> from_loopback (sin_addr src)" and tag: "election_tag tag"
  shows "step_fine rm (Some k) (election_iteration now (election_datagram src tag k) rm)"
proof (cases "state rm = INIT")
  case True
  then show ?thesis
    using iteration_init [OF True far tag] by (auto simp: step_fine_def)
next
  case ready: False
  show ?thesis
  proof (cases "k = node_id rm")
    case True
    then show ?thesis using iteration_own [OF ready far tag] by (simp add: step_fine_def)
  next
    case False
    consider "tag = ''ELE''" | "tag = ''ANS''" | "tag = ''CRD''"
      using tag by (auto simp: election_tag_def)
    then show ?thesis
    proof cases
      case 1
      have "\<not> k < node_id rm \<longleftrightarrow> node_id rm < k" using False by auto
      then show ?thesis
        unfolding 1 using iteration_election [OF ready far False]
        by (auto simp: step_fine_def bully_reply_def bully_state_def)
    next
      case 2
      show ?thesis unfolding 2 using iteration_answer [OF ready far False] by (simp add: step_fine_def)
    next
      case 3
      show ?thesis unfolding 3 using iteration_announcement [OF ready far False] by (simp add: step_fine_def)
    qed
  qed
qed

lemma silence_fine:
  assumes far: "\<not> from_loopback (sin_addr (ss_cliaddr rm))"
  shows "step_fine rm None (election_iteration now Nothing_received rm) \<and>
    ss_cliaddr (fst (election_iteration now Nothing_received rm)) = ss_cliaddr rm"
proof (cases "state rm = INIT")
  case True
  then show ?thesis using far
    by (auto simp: step_fine_def election_iteration_def fsm_step_def fsm_init_def
        broadcast_election_message_def election_message_def)
next
  case False
  show ?thesis using iteration_timeout [OF False far] by (auto simp: step_fine_def Let_def)
qed

lemma backup_fine:
  "step_fine rm None (backup_election rm) \<and> ss_cliaddr (fst (backup_election rm)) = ss_cliaddr rm"
  by (auto simp: step_fine_def backup_election_def broadcast_election_message_def election_message_def)

lemma message_cliaddr:
  "ss_cliaddr (fst (election_iteration now (Datagram src text) rm)) = src"
  using step_ok_fsm [of now "int (length (take ELECTION_MAXLINE text))" "rm\<lparr>ss_cliaddr := src\<rparr>"
      "buffer_text ELECTION_MAXLINE text"]
  by (simp add: election_iteration_def step_ok_def split_beta)

section \<open>The invariant of the cluster\<close>

definition node_ok :: "sockaddr_in list \<Rightarrow> datagram list \<Rightarrow> nat \<Rightarrow> redundancy_manager \<Rightarrow> bool" where
  "node_ok addrs sent i rm \<longleftrightarrow>
     node_id rm = id_of (addrs ! i) \<and> \<not> from_loopback (sin_addr (ss_cliaddr rm)) \<and>
     (is_coordinator rm \<longrightarrow> (addrs ! i, None, election_text ''CRD'' (id_of (addrs ! i))) \<in> set sent) \<and>
     (state rm = WAITING_FOR_COORD \<longrightarrow> (\<exists>a\<in>set addrs. id_of (addrs ! i) < id_of a))"

definition datagram_ok :: "sockaddr_in list \<Rightarrow> datagram \<Rightarrow> bool" where
  "datagram_ok addrs d \<longleftrightarrow>
     (case d of (src, dst, text) \<Rightarrow>
        src \<in> set addrs \<and> own_text (id_of src) text)"

definition net_ok :: "sockaddr_in list \<Rightarrow> net \<Rightarrow> bool" where
  "net_ok addrs N \<longleftrightarrow>
     (case N of (ns, sent) \<Rightarrow>
        length ns = length addrs \<and> (\<forall>a\<in>set addrs. \<not> from_loopback (sin_addr a)) \<and>
        (\<forall>i<length ns. node_ok addrs sent i (ns ! i)) \<and> (\<forall>d\<in>set sent. datagram_ok addrs d))"

lemma net_ok_start: "net_start addrs N \<Longrightarrow> net_ok addrs N"
  by (fastforce simp: net_start_def net_ok_def node_ok_def sample_node from_loopback_zero)

text \<open>One node steps: the others keep their invariant, since datagrams are only added.\<close>

lemma net_ok_after:
  assumes ok: "net_ok addrs (ns, sent)" and i: "i < length ns"
    and fine: "step_fine (ns ! i) sender res"
    and heard: "\<And>k. sender = Some k \<Longrightarrow> \<exists>a\<in>set addrs. k = id_of a"
    and addr: "\<not> from_loopback (sin_addr (ss_cliaddr (fst res)))"
  shows "net_ok addrs (after addrs i res (ns, sent))"
proof -
  obtain rm' out where res: "res = (rm', out)" by force
  let ?new = "concat (map (datagrams (addrs ! i)) out)"
  have len: "length ns = length addrs" and self: "node_ok addrs sent i (ns ! i)"
    using ok i by (simp_all add: net_ok_def)
  have me: "addrs ! i \<in> set addrs" using i len by simp
  have new: "datagram_ok addrs d" if "d \<in> set ?new" for d
  proof -
    have "\<exists>o'\<in>set out. d \<in> set (datagrams (addrs ! i) o')" using that by simp
    then obtain o' where o': "o' \<in> set out" "d \<in> set (datagrams (addrs ! i) o')" by blast
    have id: "node_id (ns ! i) = id_of (addrs ! i)" using self by (simp add: node_ok_def)
    show ?thesis
    proof (cases o')
      case (Send_broadcast t)
      then have "own_text (id_of (addrs ! i)) t"
        using fine o'(1) id unfolding step_fine_def res by fastforce
      then show ?thesis using o'(2) Send_broadcast me by (simp add: datagram_ok_def)
    next
      case (Send_to dst t)
      then have "own_text (id_of (addrs ! i)) t"
        using fine o'(1) id unfolding step_fine_def res by fastforce
      then show ?thesis using o'(2) Send_to me by (simp add: datagram_ok_def)
    qed (use o'(2) in simp)
  qed
  have announced: "Send_broadcast t \<in> set out \<Longrightarrow> (addrs ! i, None, t) \<in> set ?new" for t
    by (auto intro!: bexI [of _ "Send_broadcast t"])
  have "node_ok addrs (sent @ ?new) i rm'"
    using fine self heard addr res announced by (auto simp: step_fine_def node_ok_def)
  moreover have "\<forall>j<length ns. node_ok addrs (sent @ ?new) j (ns ! j)"
    using ok by (auto simp: net_ok_def node_ok_def)
  ultimately have nodes: "\<forall>j<length ns. node_ok addrs (sent @ ?new) j (ns[i := rm'] ! j)"
    using i by (metis nth_list_update_eq nth_list_update_neq)
  have "\<forall>d\<in>set (sent @ ?new). datagram_ok addrs d"
    using ok new by (auto simp: net_ok_def simp del: set_concat)
  then show ?thesis
    using ok nodes unfolding net_ok_def after_def res by simp
qed

lemma net_ok_step:
  assumes ok: "net_ok addrs N" and step: "net_step addrs N N'"
  shows "net_ok addrs N'"
  using step
proof cases
  case (deliver i ns src dst body sent now)
  have "datagram_ok addrs (src, dst, body)" using ok deliver by (auto simp: net_ok_def)
  then obtain tag where t: "src \<in> set addrs" "election_tag tag" "body = election_text tag (id_of src)"
    by (auto simp: datagram_ok_def own_text_def)
  have far: "\<not> from_loopback (sin_addr src)" using ok deliver t by (auto simp: net_ok_def)
  show ?thesis
    unfolding deliver using ok deliver t far message_fine [OF far t(2)] message_cliaddr
    by (intro net_ok_after [where sender = "Some (id_of src)"]) auto
next
  case (silence i ns sent now)
  have "\<not> from_loopback (sin_addr (ss_cliaddr (ns ! i)))"
    using ok silence by (auto simp: net_ok_def node_ok_def)
  then show ?thesis
    unfolding silence using ok silence silence_fine
    by (intro net_ok_after [where sender = None]) auto
next
  case (backup i ns sent)
  have "\<not> from_loopback (sin_addr (ss_cliaddr (ns ! i)))"
    using ok backup by (auto simp: net_ok_def node_ok_def)
  then show ?thesis
    unfolding backup using ok backup backup_fine
    by (intro net_ok_after [where sender = None]) auto
qed

interpretation cluster: invariant_system "net_start addrs" "net_step addrs" "net_ok addrs" for addrs
  by unfold_locales (blast intro: net_ok_start net_ok_step)+

section \<open>Runs\<close>

lemma id_of_inj: "id_of a = id_of b \<longleftrightarrow> sin_addr a = sin_addr b"
  by (simp add: id_of_def ntohl_inj)

lemma other_id:
  assumes "distinct (map sin_addr addrs)" "i < length addrs" "j < length addrs" "i \<noteq> j"
  shows "id_of (addrs ! i) \<noteq> id_of (addrs ! j)"
  using assms by (auto simp: id_of_inj distinct_conv_nth)

text \<open>The announcement of node \<open>j\<close>, taken by the first \<open>k\<close> nodes other than \<open>j\<close>.\<close>

lemma announcement_spreads:
  assumes ok: "net_ok addrs (ns, sent)" and dist: "distinct (map sin_addr addrs)"
    and j: "j < length ns" "(addrs ! j, None, election_text ''CRD'' (id_of (addrs ! j))) \<in> set sent"
    and ready: "\<forall>i<length ns. i \<noteq> j \<longrightarrow> state (ns ! i) \<noteq> INIT"
  shows "k \<le> length ns \<Longrightarrow> \<exists>ns'. (net_step addrs)\<^sup>*\<^sup>* (ns, sent) (ns', sent) \<and> length ns' = length ns \<and>
    ns' ! j = ns ! j \<and> (\<forall>i<length ns. k \<le> i \<longrightarrow> ns' ! i = ns ! i) \<and>
    (\<forall>i<k. i \<noteq> j \<longrightarrow> \<not> is_coordinator (ns' ! i) \<and> state (ns' ! i) = NOT_IN_PROGRESS \<and>
       coordinator_ip (ns' ! i) = sin_addr (addrs ! j))"
proof (induction k)
  case 0
  then show ?case by auto
next
  case (Suc k)
  then obtain ns' where run: "(net_step addrs)\<^sup>*\<^sup>* (ns, sent) (ns', sent)" "length ns' = length ns"
    and ns': "ns' ! j = ns ! j" "\<forall>i<length ns. k \<le> i \<longrightarrow> ns' ! i = ns ! i"
    and settled: "\<forall>i<k. i \<noteq> j \<longrightarrow> \<not> is_coordinator (ns' ! i) \<and> state (ns' ! i) = NOT_IN_PROGRESS \<and>
       coordinator_ip (ns' ! i) = sin_addr (addrs ! j)"
    by auto
  show ?case
  proof (cases "k = j")
    case True
    then show ?thesis using run ns' settled by (intro exI [of _ ns']) (auto simp: less_Suc_eq)
  next
    case False
    have k: "k < length ns" "ns' ! k = ns ! k" using Suc.prems ns' by simp_all
    have len: "length ns = length addrs" and far: "\<not> from_loopback (sin_addr (addrs ! j))"
      and id: "node_id (ns ! k) = id_of (addrs ! k)"
      using ok j(1) k by (auto simp: net_ok_def node_ok_def)
    then have ne: "id_of (addrs ! j) \<noteq> node_id (ns ! k)"
      using other_id [OF dist, of j k] False k j(1) by simp
    let ?msg = "election_datagram (addrs ! j) ''CRD'' (id_of (addrs ! j))"
    let ?res = "election_iteration 0 ?msg (ns ! k)"
    have res: "snd ?res = []" "\<not> is_coordinator (fst ?res)" "state (fst ?res) = NOT_IN_PROGRESS"
      "coordinator_ip (fst ?res) = sin_addr (addrs ! j)"
      using ready k(1) False iteration_announcement [OF _ far ne] by simp_all
    have "net_step addrs (ns', sent) (after addrs k (election_iteration 0 ?msg (ns' ! k)) (ns', sent))"
      using k run(2) j(2) by (intro net_step.deliver) auto
    then have "net_step addrs (ns', sent) (ns'[k := fst ?res], sent)"
      using res(1) k(2) by (simp add: after_def)
    then show ?thesis
      using run ns' settled res False k
      by (intro exI [of _ "ns'[k := fst ?res]"])
        (auto simp: less_Suc_eq nth_list_update intro: rtranclp.rtrancl_into_rtrancl)
  qed
qed

text \<open>One node that hears nothing for a while.\<close>

lemma silence_run:
  "i < length ns \<Longrightarrow>
   (net_step addrs)\<^sup>*\<^sup>* (ns, sent) (after addrs i (election_loop (silence ts) (ns ! i)) (ns, sent))"
proof (induction ts arbitrary: ns sent)
  case Nil
  then show ?case by (simp add: after_def)
next
  case (Cons t ts)
  let ?r = "election_iteration t Nothing_received (ns ! i)"
  let ?ns = "ns[i := fst ?r]" and ?sent = "sent @ concat (map (datagrams (addrs ! i)) (snd ?r))"
  have "net_step addrs (ns, sent) (?ns, ?sent)"
    using net_step.silence [OF Cons.prems, of addrs sent t] by (simp add: after_def)
  moreover have "(net_step addrs)\<^sup>*\<^sup>* (?ns, ?sent)
      (after addrs i (election_loop (silence ts) (fst ?r)) (?ns, ?sent))"
    using Cons.IH [of ?ns ?sent] Cons.prems by simp
  ultimately show ?case
    by (simp add: after_def split_beta converse_rtranclp_into_rtranclp)
qed

definition fresh_node :: "sockaddr_in \<Rightarrow> redundancy_manager" where
  "fresh_node a = election_init 0 (sample_node\<lparr>node_id := id_of a\<rparr>)"

lemma fresh_node_wins:
  "election_loop (silence [10, 300]) (fresh_node a) =
    (fresh_node a\<lparr>current_wait_time := 300, state := NOT_IN_PROGRESS, is_coordinator := True\<rparr>,
     [Send_broadcast (election_text ''ELE'' (id_of a)), Send_broadcast (election_text ''CRD'' (id_of a))])"
  by (simp add: fresh_node_def first_iteration iteration_timeout sample_node from_loopback_zero Let_def)

lemma fresh_cluster:
  assumes "distinct (map sin_addr addrs)" "\<forall>a\<in>set addrs. \<not> from_loopback (sin_addr a)"
  shows "net_start addrs (map fresh_node addrs, [])"
  using assms by (auto simp: net_start_def fresh_node_def intro!: exI)

definition sample_addrs :: "sockaddr_in list" where
  "sample_addrs = [\<lparr>sin_port = 0, sin_addr = 0x0100000a\<rparr>, \<lparr>sin_port = 0, sin_addr = 0x0200000a\<rparr>]"

lemma sample_addrs:
  "distinct (map sin_addr sample_addrs)" "\<forall>a\<in>set sample_addrs. \<not> from_loopback (sin_addr a)"
  "\<forall>a\<in>set sample_addrs. id_of a \<le> id_of (sample_addrs ! 1)"
  "length sample_addrs = 2"
  by (simp_all add: sample_addrs_def from_loopback_def id_of_def ntohl_def octets_def)

section \<open>Properties\<close>

text \<open>
  The largest identifier stays in the race. Whatever the network does, a node with no
  larger one in the cluster never waits for a coordinator; while its election is in progress
  a late timeout makes it coordinator, with its announcement on the wire; and every
  coordinator of the cluster has announced itself.
\<close>

lemma largest_node_can_win:
  assumes "net_start addrs N" and "(net_step addrs)\<^sup>*\<^sup>* N (ns, sent)" and "i < length ns"
    and "\<forall>a\<in>set addrs. id_of a \<le> id_of (addrs ! i)"
  shows "state (ns ! i) \<noteq> WAITING_FOR_COORD \<and>
    (\<forall>j<length ns. is_coordinator (ns ! j) \<longrightarrow>
       (addrs ! j, None, election_text ''CRD'' (id_of (addrs ! j))) \<in> set sent) \<and>
    (state (ns ! i) = IN_PROGRESS \<longrightarrow>
      answer_max_wait_time (ns ! i) \<le> get_current_time_ms now - start_time (ns ! i) \<longrightarrow>
      (\<exists>ns' sent'. net_step addrs (ns, sent) (ns', sent') \<and> is_coordinator (ns' ! i) \<and>
         (addrs ! i, None, election_text ''CRD'' (id_of (addrs ! i))) \<in> set sent'))"
proof -
  have ok: "net_ok addrs (ns, sent)" using assms(1,2) by (rule cluster.inv_reachable)
  then have node: "node_ok addrs sent i (ns ! i)" using assms(3) by (simp add: net_ok_def)
  then have waits: "state (ns ! i) \<noteq> WAITING_FOR_COORD"
    using assms(4) by (auto simp: node_ok_def not_less [symmetric])
  have wins: "\<exists>ns' sent'. net_step addrs (ns, sent) (ns', sent') \<and> is_coordinator (ns' ! i) \<and>
         (addrs ! i, None, election_text ''CRD'' (id_of (addrs ! i))) \<in> set sent'"
    if "state (ns ! i) = IN_PROGRESS"
      "answer_max_wait_time (ns ! i) \<le> get_current_time_ms now - start_time (ns ! i)"
  proof -
    let ?res = "election_iteration now Nothing_received (ns ! i)"
    have "is_coordinator (fst ?res)" "snd ?res = [Send_broadcast (election_text ''CRD'' (id_of (addrs ! i)))]"
      using that node iteration_timeout [of "ns ! i" now] by (simp_all add: node_ok_def)
    moreover have "net_step addrs (ns, sent) (after addrs i ?res (ns, sent))"
      using assms(3) by (rule net_step.silence)
    ultimately show ?thesis
      using assms(3) by (intro exI [of _ "fst (after addrs i ?res (ns, sent))"]
          exI [of _ "snd (after addrs i ?res (ns, sent))"]) (simp add: after_def)
  qed
  show ?thesis using waits wins ok by (auto simp: net_ok_def node_ok_def)
qed

text \<open>
  C27. One announcement unites the cluster. When every other node has started and the
  announcement of a coordinator is delivered to each of them, in any order that the network
  chooses to deliver it alone, that node is the only coordinator, the others know its
  address, and nothing further was sent.
\<close>

theorem announcement_unites_cluster:
  assumes "net_start addrs N" and "(net_step addrs)\<^sup>*\<^sup>* N (ns, sent)"
    and "j < length ns" and "is_coordinator (ns ! j)"
    and "\<forall>i<length ns. i \<noteq> j \<longrightarrow> state (ns ! i) \<noteq> INIT"
  shows "\<exists>ns'. (net_step addrs)\<^sup>*\<^sup>* (ns, sent) (ns', sent) \<and> length ns' = length ns \<and>
    (\<forall>i<length ns. is_coordinator (ns' ! i) \<longleftrightarrow> i = j) \<and>
    (\<forall>i<length ns. i \<noteq> j \<longrightarrow> state (ns' ! i) = NOT_IN_PROGRESS \<and>
       coordinator_ip (ns' ! i) = sin_addr (addrs ! j))"
proof -
  have ok: "net_ok addrs (ns, sent)" using assms(1,2) by (rule cluster.inv_reachable)
  have dist: "distinct (map sin_addr addrs)" using assms(1) by (auto simp: net_start_def)
  have "(addrs ! j, None, election_text ''CRD'' (id_of (addrs ! j))) \<in> set sent"
    using ok assms(3,4) by (simp add: net_ok_def node_ok_def)
  then obtain ns' where "(net_step addrs)\<^sup>*\<^sup>* (ns, sent) (ns', sent)" "length ns' = length ns"
    "ns' ! j = ns ! j" "\<forall>i<length ns. i \<noteq> j \<longrightarrow> \<not> is_coordinator (ns' ! i) \<and>
       state (ns' ! i) = NOT_IN_PROGRESS \<and> coordinator_ip (ns' ! i) = sin_addr (addrs ! j)"
    using announcement_spreads [OF ok dist assms(3) _ assms(5), of "length ns"] by blast
  then show ?thesis using assms(4) by (intro exI [of _ ns']) auto
qed

theorem announcement_unites_cluster_witness:
  "\<exists>ns' sent. (net_step sample_addrs)\<^sup>*\<^sup>* (map fresh_node sample_addrs, []) (ns', sent) \<and>
    (\<forall>i<2. is_coordinator (ns' ! i) \<longleftrightarrow> i = 0)"
proof -
  let ?a = "sample_addrs ! 0" and ?b = "sample_addrs ! 1"
  let ?win = "fst (election_loop (silence [10, 300]) (fresh_node ?a))"
  let ?up = "fst (election_loop (silence [10]) (fresh_node ?b))"
  have addrs: "map fresh_node sample_addrs = [fresh_node ?a, fresh_node ?b]"
    by (simp add: sample_addrs_def)
  obtain sent1 where one: "(net_step sample_addrs)\<^sup>*\<^sup>* (map fresh_node sample_addrs, [])
      ([?win, fresh_node ?b], sent1)"
    using silence_run [of 0 "map fresh_node sample_addrs" sample_addrs "[]" "[10, 300]"] addrs
    by (simp add: after_def del: election_loop.simps)
  obtain sent2 where "(net_step sample_addrs)\<^sup>*\<^sup>* ([?win, fresh_node ?b], sent1) ([?win, ?up], sent2)"
    using silence_run [of 1 "[?win, fresh_node ?b]" sample_addrs sent1 "[10]"]
    by (simp add: after_def del: election_loop.simps)
  with one have run: "(net_step sample_addrs)\<^sup>*\<^sup>* (map fresh_node sample_addrs, []) ([?win, ?up], sent2)"
    by (rule rtranclp_trans)
  have "state ?up \<noteq> INIT" by (simp add: fresh_node_def first_iteration)
  moreover have "is_coordinator ?win" unfolding fresh_node_wins by simp
  ultimately obtain ns' where ns': "(net_step sample_addrs)\<^sup>*\<^sup>* ([?win, ?up], sent2) (ns', sent2)"
    "\<forall>i<2. is_coordinator (ns' ! i) \<longleftrightarrow> i = 0"
    using announcement_unites_cluster [OF fresh_cluster [OF sample_addrs(1,2)] run, of 0]
    by (auto simp: less_2_cases_iff simp del: election_loop.simps)
  then show ?thesis using rtranclp_trans [OF run] by blast
qed

text \<open>
  C22. A cluster can lose its coordinator for good. When two nodes end their elections at the
  same time their announcements cross, each demotes the other, and both are idle without a
  coordinator: nothing was lost, no message is on the way that they have not taken, and no
  amount of waiting makes either of them coordinator.
\<close>

theorem crossing_announcements_leave_no_coordinator:
  assumes "sin_addr a \<noteq> sin_addr b" and "\<not> from_loopback (sin_addr a)" and "\<not> from_loopback (sin_addr b)"
  shows "\<exists>ns sent. (net_step [a, b])\<^sup>*\<^sup>* (map fresh_node [a, b], []) (ns, sent) \<and> length ns = 2 \<and>
    (\<forall>rm\<in>set ns. state rm = NOT_IN_PROGRESS \<and> \<not> is_coordinator rm \<and>
      (\<forall>ts. \<not> is_coordinator (fst (election_loop (silence ts) rm))))"
proof -
  let ?A = "fst (election_loop (silence [10, 300]) (fresh_node a))"
  let ?B = "fst (election_loop (silence [10, 300]) (fresh_node b))"
  let ?crd = "\<lambda>x. election_datagram x ''CRD'' (id_of x)"
  let ?A' = "fst (election_iteration 300 (?crd b) ?A)" and ?B' = "fst (election_iteration 300 (?crd a) ?B)"
  obtain sent1 where one: "(net_step [a, b])\<^sup>*\<^sup>* (map fresh_node [a, b], []) ([?A, fresh_node b], sent1)"
    and crd1: "(a, None, election_text ''CRD'' (id_of a)) \<in> set sent1"
    using silence_run [of 0 "map fresh_node [a, b]" "[a, b]" "[]" "[10, 300]"] fresh_node_wins [of a]
    by (simp add: after_def del: election_loop.simps)
  obtain sent where two: "(net_step [a, b])\<^sup>*\<^sup>* ([?A, fresh_node b], sent1) ([?A, ?B], sent)"
    and crd: "(a, None, election_text ''CRD'' (id_of a)) \<in> set sent"
      "(b, None, election_text ''CRD'' (id_of b)) \<in> set sent"
    using silence_run [of 1 "[?A, fresh_node b]" "[a, b]" sent1 "[10, 300]"] fresh_node_wins [of b] crd1
    by (simp add: after_def del: election_loop.simps)
  have ne: "id_of a \<noteq> id_of b" using assms(1) by (simp add: id_of_inj)
  have ids: "node_id ?A = id_of a" "node_id ?B = id_of b" "state ?A = NOT_IN_PROGRESS" "state ?B = NOT_IN_PROGRESS"
    unfolding fresh_node_wins by (simp_all add: fresh_node_def election_init_defs)
  have A': "snd (election_iteration 300 (?crd b) ?A) = []" "state ?A' = NOT_IN_PROGRESS"
    "\<not> is_coordinator ?A'" "ss_cliaddr ?A' = b"
    using iteration_announcement [OF _ assms(3), of ?A "id_of b" 300] ids ne by simp_all
  have B': "snd (election_iteration 300 (?crd a) ?B) = []" "state ?B' = NOT_IN_PROGRESS"
    "\<not> is_coordinator ?B'" "ss_cliaddr ?B' = a"
    using iteration_announcement [OF _ assms(2), of ?B "id_of a" 300] ids ne by simp_all
  have three: "net_step [a, b] ([?A, ?B], sent) ([?A', ?B], sent)"
    using net_step.deliver [of 0 "[?A, ?B]" b None "election_text ''CRD'' (id_of b)" sent "[a, b]" 300] crd A'(1)
    by (simp add: after_def del: election_loop.simps)
  have four: "net_step [a, b] ([?A', ?B], sent) ([?A', ?B'], sent)"
    using net_step.deliver [of 1 "[?A', ?B]" a None "election_text ''CRD'' (id_of a)" sent "[a, b]" 300] crd B'(1)
    by (simp add: after_def del: election_loop.simps)
  have "(net_step [a, b])\<^sup>*\<^sup>* (map fresh_node [a, b], []) ([?A', ?B'], sent)"
    using rtranclp_trans [OF one two] three four by (meson rtranclp.rtrancl_into_rtrancl)
  moreover have "\<not> is_coordinator (fst (election_loop (silence ts) ?A'))"
    "\<not> is_coordinator (fst (election_loop (silence ts) ?B'))" for ts
    using silence_idle [of ?A' ts] silence_idle [of ?B' ts] A'(2-4) B'(2-4) assms(2,3) by simp_all
  ultimately show ?thesis
    using A'(2,3) B'(2,3) by (intro exI [of _ "[?A', ?B']"] exI [of _ sent]) simp
qed

theorem crossing_announcements_leave_no_coordinator_witness:
  "\<exists>ns sent. (net_step sample_addrs)\<^sup>*\<^sup>* (map fresh_node sample_addrs, []) (ns, sent) \<and> length ns = 2 \<and>
    (\<forall>rm\<in>set ns. state rm = NOT_IN_PROGRESS \<and> \<not> is_coordinator rm \<and>
      (\<forall>ts. \<not> is_coordinator (fst (election_loop (silence ts) rm))))"
  unfolding sample_addrs_def
  by (rule crossing_announcements_leave_no_coordinator)
    (simp_all add: from_loopback_def ntohl_def octets_def)

end
