(* ===== verification/Server_Cluster.thy ===== *)
theory Server_Cluster
  imports Replication Election_Network Heartbeat Db_Locking
begin

text \<open>
  Whole server processes on a network. A process has the two objects its threads share, the
  election state and the database, and its table of sockets. It reacts to a datagram on one of
  its ports, to a receive timeout of the election, and makes rounds of the heartbeat tester;
  what it sends goes back to the client, to one other election, to a heartbeat receiver or
  tester, or to the elections or the synchronizers of all processes. The network delays,
  loses, repeats and reorders datagrams as in \<open>Election_Network\<close>. Handler threads run to their
  end before the next event, with one exception: the handler of a closing account can run
  between the last unlock of a request's transaction and the read of the record it replies
  with. How handlers overlap otherwise is the subject of \<open>Db_Interleavings\<close>, \<open>Db_Linear\<close> and
  \<open>Server_Concurrency\<close>, and what an update does to handlers that hold mutexes that of
  \<open>Db_Memory\<close>: the deadlock and the undefined behaviour shown there are not events here.
\<close>

section \<open>One process\<close>

record server =
  manager :: redundancy_manager
  database :: db_manager
  fd_table :: sockets
  alive :: bool

text \<open>
  A round of the tester comes with what its up to three tries receive. An overlap names the
  datagrams of the request and of the closing, and the step before which the closing runs.
\<close>

datatype server_event =
  Client_datagram sockaddr_in string | Discovery_datagram sockaddr_in string
| Sync_receive received | Election_receive int received | Tester_round "received list"
| Heartbeat_datagram sockaddr_in string | Overtaken nat sockaddr_in string sockaddr_in string

datatype server_message =
  To_client sockaddr_in string | To_peer sockaddr_in string | To_elections string
| To_synchronizers string | To_heartbeat sockaddr_in string | To_tester sockaddr_in string

type_synonym table_order = "db_snapshot \<Rightarrow> entries"

definition update_text :: "table_order \<Rightarrow> db_manager \<Rightarrow> string" where
  "update_text order s = broadcast_update (order (get_db_snapshot s)) (get_db_snapshot s)"

fun handler_message :: "table_order \<Rightarrow> server_output \<Rightarrow> server_message" where
  "handler_message order (Reply a t) = To_client a t"
| "handler_message order (Broadcast_update snap) = To_synchronizers (broadcast_update (order snap) snap)"

fun election_output_message :: "table_order \<Rightarrow> db_manager \<Rightarrow> election_output \<Rightarrow> server_message" where
  "election_output_message order s (Send_broadcast t) = To_elections t"
| "election_output_message order s (Send_to a t) = To_peer a t"
| "election_output_message order s Broadcast_database = To_synchronizers (update_text order s)"

fun heartbeat_message :: "election_output \<Rightarrow> server_message list" where
  "heartbeat_message (Send_to a t) = [To_tester a t]"
| "heartbeat_message o' = []"

text \<open>
  A request whose transaction has released its mutexes and is about to read the record it
  replies with (program counters of \<open>Db_Locking\<close>), a closing that runs then, and the rest of
  the request. The result says whether the process goes on; an exception or a read through a
  dangling pointer ends it. Where the request is not at such a point nothing happens.
\<close>

definition overtaken ::
  "nat \<Rightarrow> sockaddr_in \<Rightarrow> req_packet \<Rightarrow> sockaddr_in \<Rightarrow> kil_packet \<Rightarrow> db_manager \<Rightarrow>
   bool \<times> server_output list \<times> db_manager" where
  "overtaken n addr p addr' k s =
     (case run_alone n (Handle (sin_addr addr) p) s of (t, s1) \<Rightarrow>
        if \<not> reads_record t then (True, [], s)
        else case process_kill_packet addr' k s1 of
               (Inl e, s2) \<Rightarrow> (False, [], s2)
             | (Inr outs, s2) \<Rightarrow>
                 (case thread_step t s2 of
                    Some (Finished (Inr res), s3) \<Rightarrow>
                      (let ack = transaction_reply (sin_addr addr) p res
                       in (True, outs @ (if result ack = ''SUCCESS'' then [Broadcast_update (get_db_snapshot s3)] else []) @
                             [Reply addr (ACK_Packet_to_string ack)], s3))
                  | _ \<Rightarrow> (False, outs, s2)))"

text \<open>An exception that leaves a thread ends the process.\<close>

definition of_handler :: "table_order \<Rightarrow> handler_outcome \<Rightarrow> server \<Rightarrow> server \<times> server_message list" where
  "of_handler order res p =
     (case res of
        (Inl e, s) \<Rightarrow> (p\<lparr>database := s, alive := False\<rparr>, [])
      | (Inr outs, s) \<Rightarrow> (p\<lparr>database := s\<rparr>, map (handler_message order) outs))"

definition of_election :: "table_order \<Rightarrow> node_step \<Rightarrow> server \<Rightarrow> server \<times> server_message list" where
  "of_election order res p =
     (p\<lparr>manager := fst res\<rparr>, map (election_output_message order (database p)) (snd res))"

fun server_step ::
  "kernel \<Rightarrow> table_order \<Rightarrow> string \<Rightarrow> i32 \<Rightarrow> server_event \<Rightarrow> server \<Rightarrow> server \<times> server_message list" where
  "server_step k order self_ip port (Client_datagram src t) p =
     of_handler order (serve_datagram src t (database p)) p"
| "server_step k order self_ip port (Discovery_datagram src t) p =
     of_handler order
       (discovery_step (greeter_reply self_ip port) (is_coordinator (manager p)) src t (database p)) p"
| "server_step k order self_ip port (Sync_receive ev) p =
     (case listen_step self_ip ev (database p) of
        (Inl e, s) \<Rightarrow> (p\<lparr>database := s, alive := False\<rparr>, [])
      | (Inr _, s) \<Rightarrow> (p\<lparr>database := s\<rparr>, []))"
| "server_step k order self_ip port (Election_receive now ev) p =
     of_election order (election_iteration now ev (manager p)) p"
| "server_step k order self_ip port (Tester_round script) p =
     (case tester_round k scripted port (manager p) (fd_table p, ([], script)) of
        Exited \<Rightarrow> (p\<lparr>alive := False\<rparr>, [])
      | Running (res, S, sent, rest) \<Rightarrow>
          (let (p', out) = of_election order res p
           in (p'\<lparr>fd_table := S\<rparr>, map (\<lambda>(a, t). To_heartbeat a t) sent @ out)))"
| "server_step k order self_ip port (Heartbeat_datagram src t) p =
     (p, concat (map heartbeat_message (snd (heartbeat_receiver (Datagram src t) src))))"
| "server_step k order self_ip port (Overtaken n src t src' t') p =
     (case (multiplex src t, multiplex src' t') of
        (Start (Req_message addr q), Start (Kil_message addr' kil)) \<Rightarrow>
          (case overtaken n addr q addr' kil (database p) of (goes_on, outs, s) \<Rightarrow>
             (p\<lparr>database := s, alive := alive p \<and> goes_on\<rparr>, map (handler_message order) outs))
      | _ \<Rightarrow> (p, []))"

section \<open>The cluster\<close>

type_synonym cluster = "server list \<times> (sockaddr_in \<times> server_message) list"

text \<open>
  What the cluster runs with: the kernel, table order, addresses, port, and the hosts of the
  clients.
\<close>

record cluster_setup =
  system :: kernel
  table_order :: "db_snapshot \<Rightarrow> entries"
  host_addrs :: "sockaddr_in list"
  base_port :: i32
  client_hosts :: "in_addr set"

text \<open>The events that can reach process \<open>i\<close>.\<close>

fun can_happen :: "cluster_setup \<Rightarrow> nat \<Rightarrow> (sockaddr_in \<times> server_message) list \<Rightarrow> server_event \<Rightarrow> bool" where
  "can_happen K i sent (Client_datagram src t) = (sin_addr src \<in> client_hosts K)"
| "can_happen K i sent (Discovery_datagram src t) = (sin_addr src \<in> client_hosts K)"
| "can_happen K i sent (Sync_receive Nothing_received) = True"
| "can_happen K i sent (Sync_receive (Datagram src t)) = ((src, To_synchronizers t) \<in> set sent)"
| "can_happen K i sent (Election_receive now Nothing_received) = True"
| "can_happen K i sent (Election_receive now (Datagram src t)) =
     ((src, To_elections t) \<in> set sent \<or> (src, To_peer (host_addrs K ! i) t) \<in> set sent)"
| "can_happen K i sent (Tester_round script) = True"
| "can_happen K i sent (Heartbeat_datagram src t) = True"
| "can_happen K i sent (Overtaken n src t src' t') = (sin_addr src \<in> client_hosts K \<and> sin_addr src' \<in> client_hosts K)"

definition react :: "cluster_setup \<Rightarrow> nat \<Rightarrow> server_event \<Rightarrow> cluster \<Rightarrow> cluster" where
  "react K i ev C =
     (let (p, out) = server_step (system K) (table_order K)
            (addr_to_string (sin_addr (host_addrs K ! i))) (base_port K) ev (fst C ! i)
      in ((fst C)[i := p], snd C @ map (Pair (host_addrs K ! i)) out))"

inductive cluster_step :: "cluster_setup \<Rightarrow> cluster \<Rightarrow> cluster \<Rightarrow> bool" for K where
  event: "i < length (fst C) \<Longrightarrow> alive (fst C ! i) \<Longrightarrow> can_happen K i (snd C) ev \<Longrightarrow>
    cluster_step K C (react K i ev C)"

inductive_cases cluster_stepE: "cluster_step K C C'"

definition cluster_start :: "cluster_setup \<Rightarrow> cluster \<Rightarrow> bool" where
  "cluster_start K C \<longleftrightarrow>
     net_start (host_addrs K) (map manager (fst C), []) \<and> snd C = [] \<and>
     (\<forall>p\<in>set (fst C). database p = DbManager \<and> alive p)"

section \<open>The election inside the cluster\<close>

text \<open>The processes as the election network sees them.\<close>

fun election_datagrams :: "sockaddr_in \<times> server_message \<Rightarrow> datagram list" where
  "election_datagrams (src, To_elections t) = [(src, None, t)]"
| "election_datagrams (src, To_peer dst t) = [(src, Some dst, t)]"
| "election_datagrams (src, To_client dst t) = []"
| "election_datagrams (src, To_synchronizers t) = []"
| "election_datagrams (src, To_heartbeat a t) = []"
| "election_datagrams (src, To_tester a t) = []"

definition election_view :: "cluster \<Rightarrow> net" where
  "election_view C = (map manager (fst C), concat (map election_datagrams (snd C)))"

lemma election_outputs:
  "concat (map election_datagrams (map (Pair src \<circ> election_output_message order s) outs)) =
     concat (map (datagrams src) outs)"
proof (induction outs)
  case (Cons o' outs)
  then show ?case by (cases o') simp_all
qed simp

lemma handler_outputs:
  "concat (map election_datagrams (map (Pair src \<circ> handler_message order) outs)) = []"
proof (induction outs)
  case (Cons o' outs)
  then show ?case by (cases o') simp_all
qed simp

lemma in_election_view:
  "(src, To_elections t) \<in> set sent \<Longrightarrow> (src, None, t) \<in> set (concat (map election_datagrams sent))"
  "(src, To_peer dst t) \<in> set sent \<Longrightarrow> (src, Some dst, t) \<in> set (concat (map election_datagrams sent))"
  by (auto intro: rev_bexI)

lemma heartbeat_outputs:
  "concat (map election_datagrams (map (Pair src \<circ> (\<lambda>(a, t). To_heartbeat a t)) sent)) = []"
  "concat (map election_datagrams (map (Pair src) (concat (map heartbeat_message outs)))) = []"
proof -
  show "concat (map election_datagrams (map (Pair src \<circ> (\<lambda>(a, t). To_heartbeat a t)) sent)) = []"
    by (induction sent) auto
  show "concat (map election_datagrams (map (Pair src) (concat (map heartbeat_message outs)))) = []"
  proof (induction outs)
    case (Cons o' outs)
    then show ?case by (cases o') simp_all
  qed simp
qed

lemma react_election:
  "i < length (fst C) \<Longrightarrow>
   election_view (react K i (Election_receive now ev) C) =
     after (host_addrs K) i (election_iteration now ev (manager (fst C ! i))) (election_view C)"
  using election_outputs [of "host_addrs K ! i" "table_order K" "database (fst C ! i)"]
  by (simp add: election_view_def react_def of_election_def after_def map_update)

lemma same_managers:
  "i < length ps \<Longrightarrow> manager p = manager (ps ! i) \<Longrightarrow> map manager (ps[i := p]) = map manager ps"
  by (simp add: map_update) (metis length_map list_update_id nth_map)

text \<open>A round of the tester changes nothing in the election, or opens one.\<close>

lemma tester_round_cases:
  "tester_round k net port rm st = Exited \<or> (\<exists>st'. tester_round k net port rm st = Running ((rm, []), st')) \<or>
   (\<exists>st'. tester_round k net port rm st = Running (backup_election rm, st'))"
proof (cases "heartbeat_test k net (inet_ntop (coordinator_ip rm)) (port + HEARTBEAT_PORT_DELTA) 10 3 st")
  case (Running x)
  then show ?thesis by (cases x) (simp add: tester_round_def)
qed (simp add: tester_round_def)

lemma react_tester:
  assumes i: "i < length (fst C)"
  shows "election_view (react K i (Tester_round script) C) = election_view C \<or>
    election_view (react K i (Tester_round script) C) =
      after (host_addrs K) i (backup_election (manager (fst C ! i))) (election_view C)"
proof -
  let ?p = "fst C ! i"
  let ?round = "tester_round (system K) scripted (base_port K) (manager ?p) (fd_table ?p, ([], script))"
  note same = same_managers [OF i]
  consider "?round = Exited" | S sent rest where "?round = Running ((manager ?p, []), (S, sent, rest))"
    | S sent rest where "?round = Running (backup_election (manager ?p), (S, sent, rest))"
    using tester_round_cases [of "system K" scripted "base_port K" "manager ?p" "(fd_table ?p, ([], script))"]
    by (metis prod.collapse)
  then show ?thesis
  proof cases
    case 1
    then show ?thesis using same by (simp add: election_view_def react_def)
  next
    case 2
    then show ?thesis
      using same heartbeat_outputs(1) [of "host_addrs K ! i" sent]
      by (simp add: election_view_def react_def of_election_def)
  next
    case 3
    then show ?thesis
      using heartbeat_outputs(1) [of "host_addrs K ! i" sent]
        election_outputs [of "host_addrs K ! i" "table_order K" "database ?p"] i
      by (simp add: election_view_def react_def of_election_def after_def map_update split_beta)
  qed
qed

lemma react_database:
  assumes "i < length (fst C)"
  shows "election_view (react K i (Client_datagram src t) C) = election_view C"
    and "election_view (react K i (Discovery_datagram src t) C) = election_view C"
    and "election_view (react K i (Sync_receive r) C) = election_view C"
    and "election_view (react K i (Heartbeat_datagram src t) C) = election_view C"
    and "election_view (react K i (Overtaken n src t src' t') C) = election_view C"
proof -
  note same = same_managers [OF assms]
  show "election_view (react K i (Client_datagram src t) C) = election_view C"
    "election_view (react K i (Discovery_datagram src t) C) = election_view C"
    "election_view (react K i (Sync_receive r) C) = election_view C"
    "election_view (react K i (Overtaken n src t src' t') C) = election_view C"
    using handler_outputs [of "host_addrs K ! i" "table_order K"] same
    by (auto simp: election_view_def react_def of_handler_def
        split: prod.split sum.split dispatch.split client_message.split)
  show "election_view (react K i (Heartbeat_datagram src t) C) = election_view C"
    using heartbeat_outputs(2) [of "host_addrs K ! i"] same by (simp add: election_view_def react_def)
qed

text \<open>Every step of the cluster is a step of its election network or invisible to it.\<close>

lemma cluster_simulates_election:
  assumes "cluster_step K C C'"
  shows "net_step (host_addrs K) (election_view C) (election_view C') \<or> election_view C' = election_view C"
  using assms
proof (cases rule: cluster_step.cases)
  case (event i ev)
  let ?ns = "map manager (fst C)" and ?sent = "concat (map election_datagrams (snd C))"
  have i: "i < length ?ns" "?ns ! i = manager (fst C ! i)" using event by simp_all
  have view: "election_view C = (?ns, ?sent)" by (simp add: election_view_def)
  show ?thesis
  proof (cases ev)
    case (Election_receive now r)
    have "net_step (host_addrs K) (?ns, ?sent)
        (after (host_addrs K) i (election_iteration now r (?ns ! i)) (?ns, ?sent))"
    proof (cases r)
      case Nothing_received
      then show ?thesis using net_step.silence [OF i(1), of "host_addrs K" ?sent now] by simp
    next
      case (Datagram src t)
      then have "(src, None, t) \<in> set ?sent \<or> (src, Some (host_addrs K ! i), t) \<in> set ?sent"
        using event Election_receive in_election_view by auto
      then show ?thesis unfolding Datagram using i(1) by (blast intro: net_step.deliver)
    qed
    then show ?thesis using event Election_receive react_election i view by simp
  next
    case (Tester_round script)
    then show ?thesis
      using event react_tester [of i C K script] i view net_step.backup [of i ?ns "host_addrs K" ?sent]
      by auto
  qed (use event react_database in simp_all)
qed

interpretation cluster_elections: projected_system
  "net_start (host_addrs K)" "net_step (host_addrs K)" "net_ok (host_addrs K)"
  "cluster_start K" "cluster_step K" election_view for K
  by unfold_locales (auto simp: cluster_start_def election_view_def dest: cluster_simulates_election)

section \<open>The databases inside the cluster\<close>

definition server_ok :: "cluster_setup \<Rightarrow> server \<Rightarrow> bool" where
  "server_ok K p \<longleftrightarrow> db_ok (database p) \<and> dom (database_records (database p)) \<subseteq> client_hosts K"

definition message_ok :: "cluster_setup \<Rightarrow> server_message \<Rightarrow> bool" where
  "message_ok K m \<longleftrightarrow>
     (\<forall>t. m = To_synchronizers t \<longrightarrow> (\<exists>s. db_ok s \<and> dom (database_records s) \<subseteq> client_hosts K \<and>
        t = update_text (table_order K) s))"

definition cluster_ok :: "cluster_setup \<Rightarrow> cluster \<Rightarrow> bool" where
  "cluster_ok K C \<longleftrightarrow> (\<forall>p\<in>set (fst C). server_ok K p) \<and> (\<forall>(src, m)\<in>set (snd C). message_ok K m)"

text \<open>A table order that lists every table, and few enough clients for one datagram.\<close>

definition setup_ok :: "cluster_setup \<Rightarrow> bool" where
  "setup_ok K \<longleftrightarrow> card (client_hosts K) \<le> 19 \<and>
     (\<forall>snap. enumerates (table_order K snap) (records snap))"

lemma settle_dom: "dom (database_records (snd (settle a b amount s))) \<subseteq> dom (database_records s)"
  by (auto simp: settle_def split: option.splits if_splits)

lemma handle_message_dom:
  assumes "db_ok s"
  shows "dom (database_records (snd (handle_message m s))) \<subseteq> dom (database_records s)"
proof (cases m)
  case (Req_message addr p)
  show ?thesis
  proof (cases "check_packet_status p (known_record (sin_addr addr) s) = VALID")
    case True
    then show ?thesis
      using assms Req_message settle_dom
      by (simp add: process_req_valid known_record_def make_transaction_settle db_ok_def)
  qed (use Req_message in \<open>simp add: process_req_refusal\<close>)
next
  case (Kil_message addr p)
  have "snd (process_kill_packet addr p s) = snd (remove_client (sin_addr addr) s)"
    by (simp add: process_kill_packet_def Let_def split: prod.split sum.split)
  then show ?thesis
    using assms Kil_message
    by (cases "database_records s (sin_addr addr)")
      (auto simp: db_ok_def remove_client_known remove_client_unknown)
qed

lemma register_dom:
  assumes "db_ok s"
  shows "dom (database_records (snd (register_client a s))) = insert a (dom (database_records s))"
  using assms by (cases "database_records s a")
    (auto simp: db_ok_def register_client_new register_client_known)

text \<open>What a handler or the discovery service does to a valid process.\<close>

lemma coordinator_serves_fine:
  assumes "db_ok s" "coordinator_serves reply ev s = (Inr outs, s')" "db_ok s'"
    and "dom (database_records s') \<subseteq> client_hosts K"
    and "\<And>snap. Broadcast_update snap \<in> set outs \<Longrightarrow> snap = get_db_snapshot s'"
  shows "server_ok K (fst (of_handler (table_order K) (coordinator_serves reply ev s) p)) \<and>
    (\<forall>m\<in>set (snd (of_handler (table_order K) (coordinator_serves reply ev s) p)). message_ok K m)"
proof -
  have "message_ok K (handler_message (table_order K) o')" if "o' \<in> set outs" for o'
  proof (cases o')
    case (Broadcast_update snap)
    then have "snap = get_db_snapshot s'" using that by (intro assms(5)) simp
    then show ?thesis using Broadcast_update assms(3,4) by (auto simp: message_ok_def update_text_def)
  qed (simp add: message_ok_def)
  then show ?thesis using assms by (simp add: of_handler_def server_ok_def)
qed

lemma of_handler_idle: "of_handler order (Inr [], database p) p = (p, [])"
  by (simp add: of_handler_def)

definition step_keeps :: "cluster_setup \<Rightarrow> server \<times> server_message list \<Rightarrow> bool" where
  "step_keeps K res \<longleftrightarrow> server_ok K (fst res) \<and> (\<forall>m\<in>set (snd res). message_ok K m)"

lemma client_datagram_keeps:
  assumes "server_ok K p"
  shows "step_keeps K (server_step k (table_order K) self_ip port (Client_datagram src t) p)"
proof (cases "multiplex src t")
  case (Start m)
  let ?s = "database p"
  have ok: "db_ok ?s" "dom (database_records ?s) \<subseteq> client_hosts K" using assms by (simp_all add: server_ok_def)
  obtain outs s' where s': "coordinator_serves [] (Client_packet m) ?s = (Inr outs, s')" "db_ok s'"
    "\<And>snap. Broadcast_update snap \<in> set outs \<Longrightarrow> snap = get_db_snapshot s'"
    using coordinator_step [OF ok(1), of "[]" "Client_packet m"] by metis
  have served: "serve_datagram src t ?s = coordinator_serves [] (Client_packet m) ?s"
    using Start by (simp add: serve_datagram_def coordinator_serves_def)
  have "s' = snd (handle_message m ?s)" using s'(1) by (simp add: coordinator_serves_def)
  then have "dom (database_records s') \<subseteq> client_hosts K" using handle_message_dom [OF ok(1)] ok(2) by blast
  then show ?thesis
    using coordinator_serves_fine [OF ok(1) s'(1,2) _ s'(3)] served by (simp add: step_keeps_def)
qed (use assms in \<open>simp_all add: serve_datagram_def of_handler_def step_keeps_def server_ok_def\<close>)

lemma discovery_keeps:
  assumes "server_ok K p" "sin_addr src \<in> client_hosts K"
  shows "step_keeps K (server_step k (table_order K) self_ip port (Discovery_datagram src t) p)"
proof (cases "is_coordinator (manager p)")
  case True
  let ?s = "database p" and ?reply = "greeter_reply self_ip port"
  have ok: "db_ok ?s" "dom (database_records ?s) \<subseteq> client_hosts K" using assms by (simp_all add: server_ok_def)
  obtain outs s' where s': "coordinator_serves ?reply (Discovery src t) ?s = (Inr outs, s')" "db_ok s'"
    "\<And>snap. Broadcast_update snap \<in> set outs \<Longrightarrow> snap = get_db_snapshot s'"
    using coordinator_step [OF ok(1), of ?reply "Discovery src t"] by metis
  have "s' = snd (register_client (sin_addr src) ?s)"
    using s'(1) by (auto simp: coordinator_serves_def discovery_step_def Let_def split: prod.splits sum.splits)
  then have "dom (database_records s') \<subseteq> client_hosts K"
    using register_dom [OF ok(1)] ok(2) assms(2) by simp
  then show ?thesis
    using coordinator_serves_fine [OF ok(1) s'(1,2) _ s'(3)] True
    by (simp add: step_keeps_def coordinator_serves_def)
qed (use assms in \<open>simp add: discovery_step_idle of_handler_idle step_keeps_def\<close>)

text \<open>An update of another process is loaded, or ends the process when a counter is too large.\<close>

lemma update_entries:
  assumes "setup_ok K" "dom (database_records s) \<subseteq> client_hosts K"
  shows "enumerates (table_order K (get_db_snapshot s)) (database_records s)"
    and "length (table_order K (get_db_snapshot s)) \<le> 19"
proof -
  let ?es = "table_order K (get_db_snapshot s)"
  have "card (dom (database_records s)) \<le> card (client_hosts K)" using assms(2) by (intro card_mono) simp_all
  then have dom: "card (dom (database_records s)) \<le> 19" using assms(1) by (simp add: setup_ok_def)
  have "records (get_db_snapshot s) = database_records s" by (simp add: get_db_snapshot_def)
  then show es: "enumerates ?es (database_records s)"
    using assms(1) unfolding setup_ok_def by metis
  then have "length ?es = card (dom (database_records s))"
    by (metis dom_map_of_conv_image_fst enumerates_def distinct_card length_map set_map)
  then show "length ?es \<le> 19" using dom by simp
qed

lemma update_received:
  assumes "setup_ok K" "server_ok K p" "db_ok s" "dom (database_records s) \<subseteq> client_hosts K"
    and "addr_to_string (sin_addr src) \<noteq> self_ip"
  obtains s' where "db_ok s'" "get_db_snapshot s' = get_db_snapshot s"
    and "listen_step self_ip (Datagram src (update_text (table_order K) s)) (database p) =
      (if snapshot_fits (get_db_snapshot s) then (Inr (), s') else (Inl Out_of_range, database p))"
proof -
  note es = update_entries [OF assms(1,4)]
  have "db_idle (database p)" using assms(2) by (simp add: server_ok_def db_ok_def)
  then show thesis
    using listen_loads [OF assms(3) _ es assms(5), of "database p"] that
    by (auto simp: update_text_def)
qed

lemma sync_keeps:
  assumes "setup_ok K" "server_ok K p" "message_ok K (To_synchronizers t)"
  shows "step_keeps K (server_step k (table_order K) self_ip port (Sync_receive (Datagram src t)) p)"
proof (cases "addr_to_string (sin_addr src) = self_ip")
  case False
  obtain s where s: "db_ok s" "dom (database_records s) \<subseteq> client_hosts K" "t = update_text (table_order K) s"
    using assms(3) by (auto simp: message_ok_def)
  obtain s' where s': "db_ok s'" "get_db_snapshot s' = get_db_snapshot s"
    "listen_step self_ip (Datagram src (update_text (table_order K) s)) (database p) =
      (if snapshot_fits (get_db_snapshot s) then (Inr (), s') else (Inl Out_of_range, database p))"
    using update_received [OF assms(1,2) s(1,2) False] by blast
  have "database_records s' = database_records s" using s'(2) by (simp add: get_db_snapshot_def)
  then show ?thesis using s s' assms(2) by (simp add: step_keeps_def server_ok_def)
qed (use assms in \<open>simp add: listen_step_def step_keeps_def\<close>)

lemma election_keeps:
  assumes "server_ok K p"
  shows "step_keeps K (of_election (table_order K) res p)"
proof -
  have "message_ok K (election_output_message (table_order K) (database p) o')" for o'
    using assms by (cases o') (auto simp: message_ok_def server_ok_def)
  then show ?thesis using assms by (simp add: step_keeps_def of_election_def server_ok_def)
qed

lemma tester_keeps:
  assumes "server_ok K p"
  shows "step_keeps K (server_step k (table_order K) self_ip port (Tester_round script) p)"
proof (cases "tester_round k scripted port (manager p) (fd_table p, ([], script))")
  case (Running x)
  obtain res S sent rest where x: "x = (res, S, sent, rest)" by (metis prod_cases4)
  have "step_keeps K (of_election (table_order K) res p)" using assms by (rule election_keeps)
  then show ?thesis
    using Running x by (auto simp: step_keeps_def server_ok_def message_ok_def split_beta)
qed (use assms in \<open>simp add: step_keeps_def server_ok_def\<close>)

text \<open>A request that is overtaken by a closing: the database is the one both leave.\<close>

lemma overtaken_cases:
  assumes "db_ok s" "overtaken n addr p addr' k s = (goes_on, outs, s')"
  shows "db_ok s' \<and> dom (database_records s') \<subseteq> dom (database_records s) \<and>
    (\<forall>snap. Broadcast_update snap \<in> set outs \<longrightarrow> snap = get_db_snapshot s') \<and>
    (\<not> goes_on \<longrightarrow> sin_addr addr' = sin_addr addr)"
proof -
  let ?a = "sin_addr addr" and ?b = "receiver_ip p" and ?m = "transfer_amount p"
  obtain t s1 where run: "run_alone n (Handle ?a p) s = (t, s1)" by force
  show ?thesis
  proof (cases "reads_record t")
    case False
    then show ?thesis using assms run by (simp add: overtaken_def)
  next
    case True
    obtain pc r where t: "t = Txn pc ?a ?b ?m" "s1 = snd (make_transaction ?a ?b ?m s)"
      "database_records s1 ?a = Some r"
      by (rule reading_point [OF assms(1) run True])
    have ok1: "db_ok s1" unfolding t(2) using assms(1) by (rule db_ok_transaction)
    have dom1: "dom (database_records s1) \<subseteq> dom (database_records s)"
      unfolding t(2) using settle_dom assms(1) by (simp add: make_transaction_settle db_ok_def)
    obtain kills s2 where kill: "process_kill_packet addr' k s1 = (Inr kills, s2)"
      using handler_service.returns [OF ok1, of "Kil_message addr' k"] by (metis handle_message.simps(2) prod.collapse)
    have s2: "s2 = snd (remove_client (sin_addr addr') s1)"
      using kill by (auto simp: process_kill_packet_def Let_def split: prod.splits sum.splits)
    have ok2: "db_ok s2" using handler_service.keeps [OF ok1, of "Kil_message addr' k"] kill by simp
    have dom2: "dom (database_records s2) \<subseteq> dom (database_records s1)"
      using handle_message_dom [OF ok1, of "Kil_message addr' k"] kill by simp
    have told: "Broadcast_update snap \<in> set kills \<Longrightarrow> snap = get_db_snapshot s2" for snap
      using handle_message_broadcasts [OF ok1, of "Kil_message addr' k"] kill by simp
    obtain ok d e where step: "thread_step t s2 = Some (case database_records s2 ?a of
        None \<Rightarrow> Finished (Inl e) | Some r \<Rightarrow> Finished (Inr (respond ok r d)), s2)"
      using reads_recordE True t(1) by metis
    have kept: "sin_addr addr' \<noteq> ?a \<Longrightarrow> database_records s2 ?a = Some r"
      using t(3) ok1 s2 by (cases "database_records s1 (sin_addr addr')")
        (simp_all add: db_ok_def remove_client_known remove_client_unknown)
    show ?thesis
    proof (cases "database_records s2 ?a")
      case None
      then have "goes_on = False" "outs = kills" "s' = s2"
        using assms(2) run True kill step by (simp_all add: overtaken_def)
      moreover have "sin_addr addr' = sin_addr addr" using kept None by auto
      ultimately show ?thesis using ok2 subset_trans [OF dom2 dom1] told by simp
    next
      case (Some q)
      then have "goes_on = True" "s' = s2"
        and "outs = kills @ (if result (transaction_reply ?a p (respond ok q d)) = ''SUCCESS''
            then [Broadcast_update (get_db_snapshot s2)] else []) @
          [Reply addr (ACK_Packet_to_string (transaction_reply ?a p (respond ok q d)))]"
        using assms(2) run True kill step by (auto simp: overtaken_def Let_def)
      then show ?thesis using ok2 subset_trans [OF dom2 dom1] told by (auto simp del: domIff split: if_splits)
    qed
  qed
qed

lemma overtaken_keeps:
  assumes "server_ok K p"
  shows "step_keeps K (server_step k (table_order K) self_ip port (Overtaken n src t src' t') p)"
proof -
  let ?s = "database p"
  have idle: "step_keeps K (p, [])" using assms by (simp add: step_keeps_def)
  have "step_keeps K (p\<lparr>database := s', alive := alive p \<and> goes_on\<rparr>, map (handler_message (table_order K)) outs)"
    if "overtaken n addr q addr' kil ?s = (goes_on, outs, s')" for addr q addr' kil goes_on outs s'
  proof -
    have ok: "db_ok ?s" "dom (database_records ?s) \<subseteq> client_hosts K" using assms by (simp_all add: server_ok_def)
    note fine = overtaken_cases [OF ok(1) that]
    have s': "server_ok K (p\<lparr>database := s', alive := alive p \<and> goes_on\<rparr>)"
      using fine subset_trans [OF _ ok(2)] by (simp add: server_ok_def)
    have "message_ok K (handler_message (table_order K) o')" if "o' \<in> set outs" for o'
    proof (cases o')
      case (Broadcast_update snap)
      then have "snap = get_db_snapshot s'" using fine that by blast
      then show ?thesis using Broadcast_update s' by (auto simp: message_ok_def update_text_def server_ok_def)
    qed (simp add: message_ok_def)
    then show ?thesis using s' by (simp add: step_keeps_def)
  qed
  then show ?thesis using idle by (auto split: dispatch.split client_message.split prod.split)
qed

lemma heartbeat_keeps:
  assumes "server_ok K p"
  shows "step_keeps K (server_step k (table_order K) self_ip port (Heartbeat_datagram src t) p)"
  using assms by (simp add: step_keeps_def heartbeat_receiver_def message_ok_def)

lemma server_step_keeps:
  assumes "setup_ok K" "server_ok K p" "can_happen K i sent ev" "\<forall>(src, m)\<in>set sent. message_ok K m"
  shows "step_keeps K (server_step k (table_order K) self_ip port ev p)"
proof (cases ev)
  case (Sync_receive r)
  show ?thesis
  proof (cases r)
    case Nothing_received
    then show ?thesis using assms Sync_receive by (simp add: listen_step_def step_keeps_def)
  next
    case (Datagram src t)
    then show ?thesis unfolding Sync_receive Datagram
      using assms Sync_receive Datagram by (intro sync_keeps) auto
  qed
qed (use assms client_datagram_keeps discovery_keeps election_keeps tester_keeps overtaken_keeps
    heartbeat_keeps in \<open>simp_all del: server_step.simps(5-7)\<close>)

lemma cluster_ok_start: "cluster_start K C \<Longrightarrow> cluster_ok K C"
  using db_ok_initial by (auto simp: cluster_start_def cluster_ok_def server_ok_def DbManager_def)

lemma cluster_ok_step:
  assumes "setup_ok K" "cluster_ok K C" "cluster_step K C C'"
  shows "cluster_ok K C'"
  using assms(3)
proof (cases rule: cluster_step.cases)
  case (event i ev)
  let ?res = "server_step (system K) (table_order K) (addr_to_string (sin_addr (host_addrs K ! i))) (base_port K) ev (fst C ! i)"
  have "step_keeps K ?res"
    using assms(1,2) event by (intro server_step_keeps) (auto simp: cluster_ok_def)
  then show ?thesis
    using assms(2) event(1) set_update_subset_insert [of "fst C" i "fst ?res"]
    by (auto simp: cluster_ok_def react_def split_beta Let_def step_keeps_def)
qed

interpretation server_cluster: invariant_system "cluster_start K" "cluster_step K"
  "\<lambda>C. setup_ok K \<longrightarrow> cluster_ok K C" for K
  by unfold_locales (blast intro: cluster_ok_start cluster_ok_step)+

section \<open>How a process ends\<close>

lemma client_datagram_ends:
  assumes "server_ok K p" "alive p"
  shows "\<not> alive (fst (server_step k order self_ip port (Client_datagram src t) p)) \<longleftrightarrow>
    take 3 (buffer_text 2048 t) = ''KIL'' \<and> tokens (buffer_text 2048 t) \<noteq> [''KIL'', ''END'']"
proof -
  have "\<exists>outs. fst (handle_message m (database p)) = Inr outs" for m
    using assms(1) handler_service.returns by (simp add: server_ok_def)
  then have "(\<exists>e. fst (serve_datagram src t (database p)) = Inl e) \<longleftrightarrow> (\<exists>e. multiplex src t = Uncaught e)"
    by (auto simp: serve_datagram_def split: dispatch.split) (metis sum.distinct(1))
  moreover have "\<not> alive (fst (server_step k order self_ip port (Client_datagram src t) p)) \<longleftrightarrow>
      (\<exists>e. fst (serve_datagram src t (database p)) = Inl e)"
    using assms(2) by (auto simp: of_handler_def split: prod.split sum.split)
  ultimately show ?thesis using multiplex_uncaught_iff by simp
qed

text \<open>
  The events that can end a process of a valid cluster: a malformed KIL, an update with a
  counter beyond \<open>int\<close>, a heartbeat test for which the kernel has no socket, and a request
  whose client's account is closed before its record is read.
\<close>

fun can_end :: "cluster_setup \<Rightarrow> server \<Rightarrow> server_event \<Rightarrow> bool" where
  "can_end K p (Client_datagram src t) =
     (take 3 (buffer_text 2048 t) = ''KIL'' \<and> tokens (buffer_text 2048 t) \<noteq> [''KIL'', ''END''])"
| "can_end K p (Sync_receive (Datagram src t)) =
     (\<exists>s. db_ok s \<and> t = update_text (table_order K) s \<and> \<not> snapshot_fits (get_db_snapshot s))"
| "can_end K p (Tester_round script) =
     (\<not> is_coordinator (manager p) \<and> socket_call (system K) (fd_table p) < 0)"
| "can_end K p (Overtaken n src t src' t') =
     (\<exists>addr q addr' kil. multiplex src t = Start (Req_message addr q) \<and>
        multiplex src' t' = Start (Kil_message addr' kil) \<and> sin_addr addr' = sin_addr addr)"
| "can_end K p ev = False"

lemma tester_exits:
  "tester_round k net port rm st = Exited \<longleftrightarrow> \<not> is_coordinator rm \<and> socket_call k (fst st) < 0"
  by (simp add: tester_round_def heartbeat_test_def create_udp_socket_def Let_def split_beta)

lemma process_ends:
  assumes "setup_ok K" "server_ok K p" "can_happen K i sent ev" "\<forall>(src, m)\<in>set sent. message_ok K m"
    and "alive p" "\<not> alive (fst (server_step (system K) (table_order K) self_ip port ev p))"
  shows "can_end K p ev"
proof (cases ev)
  case (Client_datagram src t)
  then show ?thesis using client_datagram_ends [OF assms(2,5)] assms(6) by simp
next
  case (Discovery_datagram src t)
  have "\<exists>outs. fst (discovery_step reply c src t (database p)) = Inr outs" for reply c
    using discovery_step_answers [of "database p" reply src t] assms(2)
    by (cases c) (auto simp: server_ok_def discovery_step_idle)
  then show ?thesis
    using assms(5,6) Discovery_datagram
    by (auto simp: of_handler_def split: prod.splits sum.splits) (metis fst_conv sum.distinct(1))
next
  case (Sync_receive r)
  show ?thesis
  proof (cases r)
    case (Datagram src t)
    have "message_ok K (To_synchronizers t)" using assms(3,4) Sync_receive Datagram by auto
    then obtain s where s: "db_ok s" "dom (database_records s) \<subseteq> client_hosts K" "t = update_text (table_order K) s"
      by (auto simp: message_ok_def)
    have far: "addr_to_string (sin_addr src) \<noteq> self_ip"
      using assms(5,6) Sync_receive Datagram by (auto simp: listen_step_def)
    obtain s' where "listen_step self_ip (Datagram src (update_text (table_order K) s)) (database p) =
        (if snapshot_fits (get_db_snapshot s) then (Inr (), s') else (Inl Out_of_range, database p))"
      using update_received [OF assms(1,2) s(1,2) far] by blast
    then show ?thesis using assms(5,6) s Sync_receive Datagram by (auto split: if_splits)
  qed (use assms Sync_receive in \<open>simp add: listen_step_def\<close>)
next
  case (Tester_round script)
  have "tester_round (system K) scripted port (manager p) (fd_table p, ([], script)) = Exited"
    using assms(5,6) Tester_round by (auto simp: of_election_def split: process.splits prod.splits)
  then show ?thesis using Tester_round by (simp add: tester_exits)
next
  case (Overtaken n src t src' t')
  obtain addr q addr' kil where m: "multiplex src t = Start (Req_message addr q)"
    "multiplex src' t' = Start (Kil_message addr' kil)"
    and ends: "\<not> fst (overtaken n addr q addr' kil (database p))"
    using assms(5,6) Overtaken by (auto split: dispatch.splits client_message.splits prod.splits)
  then have "sin_addr addr' = sin_addr addr"
    using overtaken_cases [of "database p" n addr q addr' kil] assms(2)
    by (metis prod.collapse server_ok_def)
  then show ?thesis using m Overtaken by auto
qed (use assms in \<open>simp_all add: of_election_def\<close>)

section \<open>A process that has just been started\<close>

definition new_process :: "sockaddr_in \<Rightarrow> server" where
  "new_process b = \<lparr>manager = fresh_node b, database = DbManager, fd_table = no_sockets, alive = True\<rparr>"

lemma fresh_node_simps [simp]:
  "node_id (fresh_node a) = id_of a" "state (fresh_node a) = INIT" "is_coordinator (fresh_node a) = False"
  "start_time (fresh_node a) = 0" "answer_max_wait_time (fresh_node a) = 200"
  "ss_cliaddr (fresh_node a) = \<lparr>sin_port = 0, sin_addr = 0\<rparr>"
  by (simp_all add: fresh_node_def sample_node)

lemma new_process_simps [simp]:
  "manager (new_process b) = fresh_node b" "database (new_process b) = DbManager" "alive (new_process b)"
  by (simp_all add: new_process_def)

lemma new_process_calls:
  "election_iteration 10 Nothing_received (fresh_node b) =
     (fresh_node b\<lparr>state := IN_PROGRESS\<rparr>, [Send_broadcast (election_text ''ELE'' (id_of b))])"
  by (simp add: fresh_node_def first_iteration)

lemma new_process_wins:
  "election_iteration 300 Nothing_received (fresh_node b\<lparr>state := IN_PROGRESS\<rparr>) =
     (fresh_node b\<lparr>current_wait_time := 300, state := NOT_IN_PROGRESS, is_coordinator := True\<rparr>,
      [Send_broadcast (election_text ''CRD'' (id_of b))])"
  by (simp add: iteration_timeout sample_node from_loopback_zero)

text \<open>Two hosts and three clients, each table listed by address.\<close>

definition sample_setup :: cluster_setup where
  "sample_setup = \<lparr>system = limited_kernel 1024, table_order = by_address, host_addrs = sample_addrs, base_port = 4000,
     client_hosts = {1, 2, 3}\<rparr>"

lemma sample_setup_ok: "setup_ok sample_setup"
  using by_address by (simp add: setup_ok_def sample_setup_def)

section \<open>Single steps of a run\<close>

lemma cluster_run_event:
  assumes "(cluster_step K)\<^sup>*\<^sup>* C0 C" "i < length (fst C)" "alive (fst C ! i)" "can_happen K i (snd C) ev"
  shows "(cluster_step K)\<^sup>*\<^sup>* C0 (react K i ev C)"
  using assms(1) cluster_step.event [OF assms(2-4)] by (rule rtranclp.rtrancl_into_rtrancl)

lemma react_elects:
  "election_iteration now ev (manager p) = (rm', outs) \<Longrightarrow> ps ! i = p \<Longrightarrow>
   react K i (Election_receive now ev) (ps, sent) = (ps[i := p\<lparr>manager := rm'\<rparr>],
     sent @ map (Pair (host_addrs K ! i)) (map (election_output_message (table_order K) (database p)) outs))"
  by (simp add: react_def of_election_def)

section \<open>Properties\<close>

lemma announcement_in_view:
  "(src, None, t) \<in> set (snd (election_view C)) \<Longrightarrow> (src, To_elections t) \<in> set (snd C)"
proof -
  assume "(src, None, t) \<in> set (snd (election_view C))"
  then obtain d where "d \<in> set (snd C)" "(src, None, t) \<in> set (election_datagrams d)"
    by (auto simp: election_view_def)
  then show ?thesis by (cases d rule: election_datagrams.cases) auto
qed



end
