(* ===== verification/Message_Types.thy ===== *)
theory Message_Types
  imports Server_Cluster Client_Server
begin

text \<open>
  What travels between the processes of a cluster and to its clients: the forms of the
  datagrams a server sends, that in every reachable cluster nothing else is ever in flight,
  and that the program each datagram is meant for reads it as its sender meant it.
\<close>

section \<open>The forms\<close>

text \<open>A datagram to a client is a reply to a request or the location of the multiplexer.\<close>

inductive client_text :: "cluster_setup \<Rightarrow> sockaddr_in \<Rightarrow> string \<Rightarrow> bool" for K src where
  reply: "ack_encodable ack \<Longrightarrow> client_text K src (ACK_Packet_to_string ack)"
| location: "client_text K src (greeter_reply (addr_to_string (sin_addr src)) (base_port K))"

inductive well_typed :: "cluster_setup \<Rightarrow> sockaddr_in \<Rightarrow> server_message \<Rightarrow> bool" for K src where
  to_client: "client_text K src t \<Longrightarrow> well_typed K src (To_client a t)"
| to_peer: "election_tag tag \<Longrightarrow> well_typed K src (To_peer a (election_text tag (id_of src)))"
| to_elections: "election_tag tag \<Longrightarrow> well_typed K src (To_elections (election_text tag (id_of src)))"
| to_synchronizers: "db_ok s \<Longrightarrow> dom (database_records s) \<subseteq> client_hosts K \<Longrightarrow>
    well_typed K src (To_synchronizers (update_text (table_order K) s))"
| to_heartbeat: "well_typed K src (To_heartbeat a ''TST'')"
| to_tester: "well_typed K src (To_tester a ''ALV'')"

inductive_simps well_typed_simps:
  "well_typed K src (To_client a t)" "well_typed K src (To_peer a t)"
  "well_typed K src (To_elections t)" "well_typed K src (To_synchronizers t)"
  "well_typed K src (To_heartbeat a t)" "well_typed K src (To_tester a t)"

section \<open>Replies\<close>

lemma req_replies:
  assumes "db_ok s" "process_req_packet addr p s = (Inr outs, s')" "Reply a t \<in> set outs"
  shows "\<exists>ack. ack_encodable ack \<and> t = ACK_Packet_to_string ack"
proof (cases "check_packet_status p (known_record (sin_addr addr) s) = VALID")
  case True
  obtain res u where u: "settle (sin_addr addr) (receiver_ip p) (transfer_amount p) s = (Inr res, u)"
    by (rule settle_returns)
  show ?thesis
    using assms process_req_settles [OF assms(1) True u]
    by (auto split: if_splits intro: ack_encodable_replies)
next
  case False
  then show ?thesis
    using assms by (auto simp: process_req_refusal refusal_def intro: ack_encodable_replies)
qed

lemma kill_replies:
  assumes "process_kill_packet addr p s = (Inr outs, s')" "Reply a t \<in> set outs"
  shows "client_text K src t"
  using assms
  by (auto simp: process_kill_packet_def Let_def split: prod.splits sum.splits if_splits
      intro!: client_text.reply ack_encodable_replies)

lemma handle_message_replies:
  assumes "db_ok s" "handle_message m s = (Inr outs, s')" "Reply a t \<in> set outs"
  shows "client_text K src t"
proof (cases m)
  case (Req_message addr p)
  then show ?thesis using assms req_replies [OF assms(1)] by (fastforce intro: client_text.reply)
next
  case (Kil_message addr p)
  then show ?thesis using assms(2,3) kill_replies by simp
qed

lemma overtaken_replies:
  assumes "overtaken n addr p addr' k s = (goes_on, outs, s')" "Reply a t \<in> set outs"
  shows "client_text K src t"
  using assms kill_replies
  by (auto simp: overtaken_def Let_def split: prod.splits sum.splits option.splits thread.splits if_splits
      intro!: client_text.reply ack_encodable_replies)

lemma to_client_election [simp]: "To_client a t \<noteq> election_output_message order s o'"
  by (cases o') simp_all

lemma to_client_handler: "To_client a t = handler_message order o' \<longleftrightarrow> o' = Reply a t"
  by (cases o') auto

text \<open>What the tester of a process puts on the wire.\<close>

lemma tries_send:
  "(a, t) \<in> set (fst (snd (heartbeat_tries scripted n addr (sent, script)))) \<Longrightarrow> (a, t) \<in> set sent \<or> t = ''TST''"
proof (induction n arbitrary: sent script)
  case (Suc n)
  show ?case
  proof (cases script)
    case (Cons ev rest)
    then show ?thesis
      using Suc.IH [of "sent @ [(addr, ''TST'')]" rest] Suc.prems by (cases ev) auto
  qed (use Suc.IH [of "sent @ [(addr, ''TST'')]" "[]"] Suc.prems in auto)
qed simp

lemma tests_send:
  assumes "tester_round k scripted port rm (S, [], script) = Running (res, S', sent, rest)" "(a, t) \<in> set sent"
  shows "t = ''TST''"
proof -
  have closed: "heartbeat_tries (on_socket False net) n addr e = (False, e)"
    for net :: "'e network" and n addr e
    by (induction n) (simp_all add: on_socket_def)
  have sent: "(a, t) \<in> set (fst (snd (heartbeat_tries (on_socket b scripted) n addr ([], script)))) \<Longrightarrow> t = ''TST''"
    for b n addr
    using tries_send [of a t n addr "[]" script] by (cases b) (simp_all add: closed)
  show ?thesis
    using assms sent
    by (auto simp: tester_round_def heartbeat_test_def create_udp_socket_def Let_def split_beta
        split: if_splits process.splits) (metis fst_conv snd_conv)+
qed

text \<open>What a step sends to clients, heartbeat receivers and testers.\<close>

fun plain_ok :: "cluster_setup \<Rightarrow> sockaddr_in \<Rightarrow> server_message \<Rightarrow> bool" where
  "plain_ok K src (To_client a t) = client_text K src t"
| "plain_ok K src (To_heartbeat a t) = (t = ''TST'')"
| "plain_ok K src (To_tester a t) = (t = ''ALV'')"
| "plain_ok K src m = True"

lemma plain_election [simp]: "plain_ok K src (election_output_message order s o')"
  by (cases o') simp_all

lemma plain_of_election: "m \<in> set (snd (of_election order res p)) \<Longrightarrow> plain_ok K src m"
  by (auto simp: of_election_def)

lemma plain_handler:
  "(\<And>a t. o' = Reply a t \<Longrightarrow> client_text K src t) \<Longrightarrow> plain_ok K src (handler_message order o')"
  by (cases o') simp_all

lemma step_plain_texts:
  assumes ok: "server_ok K p" and out: "m \<in> set (snd (server_step k order
      (addr_to_string (sin_addr src)) (base_port K) ev p))"
  shows "plain_ok K src m"
proof -
  have db: "db_ok (database p)" using ok by (simp add: server_ok_def)
  show ?thesis
  proof (cases ev)
    case (Client_datagram cl u)
    obtain outs s' o' where "serve_datagram cl u (database p) = (Inr outs, s')" "o' \<in> set outs"
      "m = handler_message order o'"
      using out Client_datagram by (auto simp: of_handler_def split: prod.splits sum.splits)
    then show ?thesis
      using handle_message_replies [OF db]
      by (auto simp: serve_datagram_def split: dispatch.splits intro!: plain_handler)
  next
    case (Discovery_datagram cl u)
    let ?reply = "greeter_reply (addr_to_string (sin_addr src)) (base_port K)"
    obtain outs s' o' where "discovery_step ?reply (is_coordinator (manager p)) cl u (database p) = (Inr outs, s')"
      "o' \<in> set outs" "m = handler_message order o'"
      using out Discovery_datagram by (auto simp: of_handler_def split: prod.splits sum.splits)
    then show ?thesis
      by (auto simp: discovery_step_def Let_def split: if_splits prod.splits sum.splits
          intro!: client_text.location)
  next
    case (Tester_round script)
    show ?thesis
    proof (cases "tester_round k scripted (base_port K) (manager p) (fd_table p, [], script)")
      case (Running x)
      obtain res S sent rest where x: "x = (res, S, sent, rest)" by (metis prod_cases4)
      have "t = ''TST''" if "(a, t) \<in> set sent" for a t
        using tests_send [of k "base_port K" "manager p" "fd_table p" script res S sent rest] Running x that by simp
      then show ?thesis
        using out Tester_round Running x plain_of_election [of m order res p]
        by (auto simp: split_beta)
    qed (use out Tester_round in simp)
  next
    case (Overtaken n a t a' t')
    then show ?thesis
      using out overtaken_replies
      by (auto split: dispatch.splits client_message.splits prod.splits intro!: plain_handler)
  qed (use out plain_of_election in \<open>auto simp: heartbeat_receiver_def split: prod.splits sum.splits\<close>)
qed

section \<open>Every message in flight\<close>

definition all_typed :: "cluster_setup \<Rightarrow> cluster \<Rightarrow> bool" where
  "all_typed K C \<longleftrightarrow> (\<forall>(src, m)\<in>set (snd C). src \<in> set (host_addrs K) \<and> plain_ok K src m)"

lemma all_typed_step:
  assumes "cluster_ok K C" "length (fst C) = length (host_addrs K)" "all_typed K C" "cluster_step K C C'"
  shows "all_typed K C'"
  using assms(4)
proof (cases rule: cluster_step.cases)
  case (event i ev)
  let ?src = "host_addrs K ! i"
  have "server_ok K (fst C ! i)" using assms(1) event by (simp add: cluster_ok_def)
  then have "m \<in> set (snd (server_step (system K) (table_order K) (addr_to_string (sin_addr ?src))
      (base_port K) ev (fst C ! i))) \<Longrightarrow> plain_ok K ?src m" for m
    by (rule step_plain_texts)
  moreover have "?src \<in> set (host_addrs K)" using event assms(2) by simp
  ultimately show ?thesis
    using assms(3) event by (auto simp: all_typed_def react_def split_beta Let_def)
qed

lemma cluster_length: "cluster_step K C C' \<Longrightarrow> length (fst C') = length (fst C)"
  by (auto elim!: cluster_stepE simp: react_def split_beta Let_def)

lemma cluster_typed:
  assumes "setup_ok K" "cluster_start K C" "(cluster_step K)\<^sup>*\<^sup>* C C'"
  shows "all_typed K C' \<and> length (fst C') = length (host_addrs K)"
  using assms(3)
proof (induction rule: rtranclp_induct)
  case base
  then show ?case using assms(2) by (simp add: cluster_start_def all_typed_def net_start_def)
next
  case (step C1 C2)
  have "cluster_ok K C1" using server_cluster.inv_reachable [OF assms(2) step(1)] assms(1) by blast
  then show ?case using all_typed_step step cluster_length by metis
qed

lemma election_texts_typed:
  assumes "cluster_start K C" "(cluster_step K)\<^sup>*\<^sup>* C C'"
    and "(src, dst, t) \<in> set (snd (election_view C'))"
  shows "own_text (id_of src) t"
proof -
  have "net_ok (host_addrs K) (election_view C')"
    using assms(1,2) by (rule cluster_elections.fine.inv_reachable)
  then show ?thesis using assms(3) by (force simp: net_ok_def datagram_ok_def election_view_def)
qed

lemma messages_typed:
  assumes "setup_ok K" "cluster_start K C" "(cluster_step K)\<^sup>*\<^sup>* C C'" "(src, m) \<in> set (snd C')"
  shows "src \<in> set (host_addrs K) \<and> well_typed K src m"
proof -
  have typed: "all_typed K C'" using cluster_typed [OF assms(1-3)] by simp
  have ok: "cluster_ok K C'" using server_cluster.inv_reachable [OF assms(2,3)] assms(1) by blast
  note own = election_texts_typed [OF assms(2,3)]
  have "well_typed K src m"
  proof (cases m)
    case (To_client a t)
    then show ?thesis using typed assms(4) by (auto simp: all_typed_def well_typed_simps)
  next
    case (To_peer a t)
    then have "own_text (id_of src) t"
      using own [of src "Some a" t] in_election_view(2) [of src a t "snd C'"] assms(4)
      by (simp add: election_view_def)
    then show ?thesis using To_peer by (auto simp: own_text_def intro: well_typed.to_peer)
  next
    case (To_elections t)
    then have "own_text (id_of src) t"
      using own [of src None t] in_election_view(1) [of src t "snd C'"] assms(4)
      by (simp add: election_view_def)
    then show ?thesis using To_elections by (auto simp: own_text_def intro: well_typed.to_elections)
  next
    case (To_synchronizers t)
    then have "message_ok K (To_synchronizers t)" using ok assms(4) by (auto simp: cluster_ok_def)
    then show ?thesis using To_synchronizers by (auto simp: message_ok_def intro: well_typed.to_synchronizers)
  qed (use typed assms(4) in \<open>auto simp: all_typed_def well_typed_simps\<close>)
  then show ?thesis using typed assms(4) by (auto simp: all_typed_def)
qed

section \<open>What the receivers read\<close>

text \<open>
  The reading of a datagram by its receiver: the client's parsers for replies and locations,
  the election's for its messages, and the synchronizer's for updates. A heartbeat receiver
  answers \<open>ALV\<close> to what it gets, and a test ends with success at the datagram it gets.
\<close>

fun understood :: "cluster_setup \<Rightarrow> sockaddr_in \<Rightarrow> server_message \<Rightarrow> bool" where
  "understood K src (To_client a t) =
     ((\<exists>ack. to_ACK_Packet t = Inr ack \<and> ACK_Packet_to_string ack = t) \<or>
      extract_ip_and_port_from_response (buffer_text DISCOVERY_MAXLINE t) True =
        (0, Some (inet_ntop (sin_addr src), base_port K + 1)))"
| "understood K src (To_peer a t) =
     (\<exists>tag. election_tag tag \<and> read_message t = Some (tag, id_of src, ''END''))"
| "understood K src (To_elections t) =
     (\<exists>tag. election_tag tag \<and> read_message t = Some (tag, id_of src, ''END''))"
| "understood K src (To_synchronizers t) =
     (\<exists>s. db_ok s \<and> db_snapshot_from_string (buffer_text MAXLINE t) =
        (if snapshot_fits (get_db_snapshot s) then Inr (get_db_snapshot s) else Inl Out_of_range))"
| "understood K src (To_heartbeat a t) =
     (\<forall>c. heartbeat_receiver (Datagram src t) c = (src, [Send_to src ''ALV'']))"
| "understood K src (To_tester a t) =
     (\<forall>n script. fst (heartbeat_tries scripted (Suc n) src ([], Datagram src t # script)))"

lemma location_understood:
  assumes "0 \<le> sint (base_port K)" "sint (base_port K) < 65535"
  shows "extract_ip_and_port_from_response (buffer_text DISCOVERY_MAXLINE
      (greeter_reply (addr_to_string (sin_addr src)) (base_port K))) True =
    (0, Some (inet_ntop (sin_addr src), base_port K + 1))"
  using location_received [OF assms] by (simp add: addr_to_string_def)

lemma well_typed_understood:
  assumes "setup_ok K" "0 \<le> sint (base_port K)" "sint (base_port K) < 65535" "well_typed K src m"
  shows "understood K src m"
  using assms(4)
proof cases
  case (to_client t a)
  then show ?thesis
    using location_understood [OF assms(2,3)]
    by (auto elim!: client_text.cases simp: ack_wire.decode_encode)
next
  case (to_synchronizers s)
  then have "db_snapshot_from_string (buffer_text MAXLINE (update_text (table_order K) s)) =
      (if snapshot_fits (get_db_snapshot s) then Inr (get_db_snapshot s) else Inl Out_of_range)"
    unfolding update_text_def using assms(1) by (intro update_read update_entries) simp_all
  then show ?thesis using to_synchronizers(1,2) by auto
qed (auto simp: read_message_text election_tag_no_space heartbeat_receiver_def)

section \<open>Properties\<close>

text \<open>
  C8. Every datagram is well typed. In every reachable state of a cluster with at most 19
  client hosts, on a port below 65535, whatever a process has put on the wire is one of the
  program's forms and is read by its receiver as it was meant: a reply by the packet parser
  of the client, a location as the address of the sender's multiplexer, an election message
  with its tag and the sender's identifier, an update as the snapshot of a valid database
  (or refused with \<open>out_of_range\<close>), a heartbeat as a question that is answered \<open>ALV\<close>, and that
  answer as a sign of life.
\<close>

theorem messages_are_well_typed:
  assumes "setup_ok K" and "cluster_start K C" and "(cluster_step K)\<^sup>*\<^sup>* C (ps, sent)"
    and "0 \<le> sint (base_port K)" and "sint (base_port K) < 65535" and "(src, m) \<in> set sent"
  shows "src \<in> set (host_addrs K) \<and> well_typed K src m \<and> understood K src m"
  using messages_typed [OF assms(1-3), of src m] well_typed_understood [OF assms(1,4,5)] assms(6) by simp

theorem messages_are_well_typed_witness:
  "\<exists>ps sent. (cluster_step sample_setup)\<^sup>*\<^sup>* (map new_process sample_addrs, []) (ps, sent) \<and>
    sent \<noteq> [] \<and> (\<forall>(src, m)\<in>set sent. well_typed sample_setup src m \<and> understood sample_setup src m)"
proof -
  let ?K = sample_setup and ?a = "sample_addrs ! 0" and ?b = "sample_addrs ! 1"
  let ?pa = "new_process ?a" and ?pb = "new_process ?b" and ?C0 = "(map new_process sample_addrs, []) :: cluster"
  let ?ele = "(?b, To_elections (election_text ''ELE'' (id_of ?b)))"
  let ?pb1 = "?pb\<lparr>manager := fresh_node ?b\<lparr>state := IN_PROGRESS\<rparr>\<rparr>"
  have addrs: "map new_process sample_addrs = [?pa, ?pb]" and hosts: "host_addrs ?K = sample_addrs"
    by (simp_all add: sample_addrs_def sample_setup_def)
  have start: "cluster_start ?K ?C0"
    using fresh_cluster [OF sample_addrs(1,2)] by (simp add: cluster_start_def hosts comp_def)
  have run: "(cluster_step ?K)\<^sup>*\<^sup>* ?C0 ([?pa, ?pb1], [?ele])"
    using cluster_run_event [of ?K ?C0 ?C0 1 "Election_receive 10 Nothing_received"]
      react_elects [of 10 Nothing_received ?pb _ _ "[?pa, ?pb]" 1 ?K "[]"] new_process_calls [of ?b]
    by (simp add: addrs hosts)
  have port: "sint (base_port ?K) = 4000" unfolding sample_setup_def by code_simp
  show ?thesis
    using run messages_are_well_typed [OF sample_setup_ok start run] port
    by (intro exI [of _ "[?pa, ?pb1]"] exI [of _ "[?ele]"]) simp
qed

end
