(* ===== verification/Takeover.thy ===== *)
theory Takeover
  imports Server_Cluster
begin

text \<open>
  The change of the coordinator, in the cluster of \<open>Server_Cluster\<close>: a new process with a
  larger identifier joins, its election message makes the old coordinator broadcast the
  database, and after the waiting time the new process announces itself. The accounts reach
  the new coordinator only in updates of the old one, that broadcast or another.
\<close>

section \<open>Runs of the cluster\<close>

text \<open>The run of a list of events, each with the process it reaches, if they can happen.\<close>

fun run_events :: "cluster_setup \<Rightarrow> (nat \<times> server_event) list \<Rightarrow> cluster \<Rightarrow> cluster option" where
  "run_events K [] C = Some C"
| "run_events K ((i, ev) # evs) C =
     (if i < length (fst C) \<and> alive (fst C ! i) \<and> can_happen K i (snd C) ev
      then run_events K evs (react K i ev C) else None)"

lemma run_events_snoc:
  "run_events K (evs @ [(i, ev)]) C0 = Some C' \<longleftrightarrow>
     (\<exists>C. run_events K evs C0 = Some C \<and> i < length (fst C) \<and> alive (fst C ! i) \<and>
        can_happen K i (snd C) ev \<and> C' = react K i ev C)"
proof (induction evs arbitrary: C0)
  case (Cons e evs)
  then show ?case by (cases e) (simp del: split_paired_Ex)
qed (auto simp del: split_paired_Ex)

lemma run_event:
  assumes "run_events K evs C0 = Some C" "i < length (fst C)" "alive (fst C ! i)" "can_happen K i (snd C) ev"
  shows "run_events K (evs @ [(i, ev)]) C0 = Some (react K i ev C)"
  using assms run_events_snoc by blast

lemma run_events_steps: "run_events K evs C0 = Some C \<Longrightarrow> (cluster_step K)\<^sup>*\<^sup>* C0 C"
proof (induction evs arbitrary: C rule: rev_induct)
  case (snoc e evs)
  obtain i ev where e: "e = (i, ev)" by force
  then obtain C1 where "run_events K evs C0 = Some C1" "cluster_step K C1 C"
    using snoc.prems unfolding e run_events_snoc by (blast intro: cluster_step.event)
  then show ?case using snoc.IH by (metis rtranclp.rtrancl_into_rtrancl)
qed simp

lemma react_loads:
  "listen_step (addr_to_string (sin_addr (host_addrs K ! i))) ev (database p) = (Inr (), s') \<Longrightarrow> ps ! i = p \<Longrightarrow>
   react K i (Sync_receive ev) (ps, sent) = (ps[i := p\<lparr>database := s'\<rparr>], sent)"
  by (simp add: react_def)

lemma addr_to_string_inj: "addr_to_string x = addr_to_string y \<longleftrightarrow> x = y"
  unfolding addr_to_string_def by (metis inet_addr_inet_ntop)

section \<open>Two processes\<close>

text \<open>The old coordinator, idle, with the database \<open>s\<close>.\<close>

definition old_coordinator :: "sockaddr_in \<Rightarrow> db_manager \<Rightarrow> server" where
  "old_coordinator a s =
     \<lparr>manager = fst (election_loop (silence [10, 300]) (fresh_node a)), database = s,
      fd_table = no_sockets, alive = True\<rparr>"

text \<open>What the election leaves: the roles, and what the databases do not depend on.\<close>

definition taken_over :: "sockaddr_in \<Rightarrow> server \<Rightarrow> server \<Rightarrow> bool" where
  "taken_over b pa pb \<longleftrightarrow> alive pa \<and> alive pb \<and> is_coordinator (manager pb) \<and>
     \<not> is_coordinator (manager pa) \<and> coordinator_ip (manager pa) = sin_addr b"

definition joining :: "cluster_setup \<Rightarrow> sockaddr_in \<Rightarrow> sockaddr_in \<Rightarrow> db_manager \<Rightarrow> bool" where
  "joining K a b s \<longleftrightarrow> setup_ok K \<and> host_addrs K = [a, b] \<and> id_of a < id_of b \<and>
     \<not> from_loopback (sin_addr a) \<and> \<not> from_loopback (sin_addr b) \<and>
     db_ok s \<and> dom (database_records s) \<subseteq> client_hosts K \<and> snapshot_fits (get_db_snapshot s)"

lemma joining_far:
  assumes "joining K a b s"
  shows "addr_to_string (sin_addr a) \<noteq> addr_to_string (sin_addr b)"
  using assms by (auto simp: joining_def addr_to_string_inj id_of_def)

text \<open>The roles, before and after each message.\<close>

lemma old_coordinator_simps [simp]:
  "node_id (manager (old_coordinator a s)) = id_of a"
  "state (manager (old_coordinator a s)) = NOT_IN_PROGRESS"
  "is_coordinator (manager (old_coordinator a s))"
  "database (old_coordinator a s) = s" "alive (old_coordinator a s)"
  unfolding old_coordinator_def fresh_node_wins by simp_all

lemma old_coordinator_hears:
  assumes "joining K a b s"
  obtains rm where
    "election_iteration 20 (election_datagram b ''ELE'' (id_of b)) (manager (old_coordinator a s)) =
       (rm, [Broadcast_database])"
    and "state rm = WAITING_FOR_COORD" "node_id rm = id_of a"
proof -
  have "\<not> id_of b < id_of a" "id_of b \<noteq> id_of a" "\<not> from_loopback (sin_addr b)"
    using assms by (auto simp: joining_def)
  then show thesis
    using that iteration_election [of "manager (old_coordinator a s)" b "id_of b" 20]
    by (simp add: bully_reply_def bully_state_def)
qed

lemma old_coordinator_obeys:
  assumes "joining K a b s" "state rm = WAITING_FOR_COORD" "node_id rm = id_of a"
  obtains rm' where
    "election_iteration 310 (election_datagram b ''CRD'' (id_of b)) rm = (rm', [])"
    and "\<not> is_coordinator rm'" "coordinator_ip rm' = sin_addr b"
proof -
  have "id_of b \<noteq> id_of a" "\<not> from_loopback (sin_addr b)" using assms(1) by (auto simp: joining_def)
  then show thesis using that assms(2,3) iteration_announcement [of rm b "id_of b" 310] by simp
qed

section \<open>Where the accounts of the new process come from\<close>

text \<open>The accounts a step adds to a process that loads no update are those the discovery opens.\<close>

lemma of_handler_database [simp]: "database (fst (of_handler order res p)) = snd res"
  by (simp add: of_handler_def split: prod.split sum.split)

lemma step_accounts:
  assumes ok: "server_ok K p"
    and far: "\<And>src t. ev = Sync_receive (Datagram src t) \<Longrightarrow> addr_to_string (sin_addr src) = self_ip"
  shows "dom (database_records (database (fst (server_step k order self_ip port ev p)))) \<subseteq>
    dom (database_records (database p)) \<union> {sin_addr d | d t. ev = Discovery_datagram d t}"
proof -
  have db: "db_ok (database p)" using ok by (simp add: server_ok_def)
  show ?thesis
  proof (cases ev)
    case (Client_datagram src t)
    have "dom (database_records (snd (serve_datagram src t (database p)))) \<subseteq> dom (database_records (database p))"
      using handle_message_dom [OF db] by (simp add: serve_datagram_def split: dispatch.split)
    then show ?thesis using Client_datagram by (simp add: le_supI1)
  next
    case (Discovery_datagram src t)
    have "snd (discovery_step reply c src t (database p)) \<in>
        {database p, snd (register_client (sin_addr src) (database p))}" for reply c
      by (auto simp: discovery_step_def Let_def split: prod.split sum.split)
    moreover have "dom (database_records s') \<subseteq> dom (database_records (database p)) \<union> {sin_addr src}"
      if "s' \<in> {database p, snd (register_client (sin_addr src) (database p))}" for s'
      using that register_dom [OF db, of "sin_addr src"] by (elim insertE) (simp_all del: Un_insert_right add: subset_insertI)
    ultimately have "dom (database_records (snd (discovery_step reply c src t (database p)))) \<subseteq>
        dom (database_records (database p)) \<union> {sin_addr src}" for reply c by blast
    then show ?thesis using Discovery_datagram by simp
  next
    case (Sync_receive r)
    then show ?thesis using far by (cases r) (simp_all add: listen_step_def)
  next
    case (Overtaken n src t src' t')
    have "\<exists>z. database_records (database p) x = Some z"
      if "overtaken n addr q addr' kil (database p) = (goes_on, outs, s')" "database_records s' x = Some y"
      for addr q addr' kil goes_on outs s' x y
      using overtaken_cases [OF db that(1)] that(2) by blast
    then show ?thesis
      using Overtaken by (auto split: dispatch.split client_message.split prod.split)
  qed (auto simp: of_election_def split: process.split prod.split)
qed

definition no_update_from :: "sockaddr_in \<Rightarrow> (nat \<times> server_event) list \<Rightarrow> bool" where
  "no_update_from a evs \<longleftrightarrow> (\<forall>t. (1, Sync_receive (Datagram a t)) \<notin> set evs)"

definition discovered :: "(nat \<times> server_event) list \<Rightarrow> in_addr set" where
  "discovered evs = {sin_addr d | d t. (1, Discovery_datagram d t) \<in> set evs}"

lemma joiner_accounts:
  assumes K: "setup_ok K" "host_addrs K = [a, b]" and C0: "cluster_ok K ([p, new_process b], [])"
  shows "run_events K evs ([p, new_process b], []) = Some C \<Longrightarrow> no_update_from a evs \<Longrightarrow>
    cluster_ok K C \<and> length (fst C) = 2 \<and> fst ` set (snd C) \<subseteq> {a, b} \<and>
    dom (database_records (database (fst C ! 1))) \<subseteq> discovered evs"
proof (induction evs arbitrary: C rule: rev_induct)
  case Nil
  then show ?case using C0 by (auto simp: DbManager_def)
next
  case (snoc e evs)
  obtain i ev where e: "e = (i, ev)" by force
  obtain C1 where C1: "run_events K evs ([p, new_process b], []) = Some C1" "i < length (fst C1)"
    "alive (fst C1 ! i)" "can_happen K i (snd C1) ev" "C = react K i ev C1"
    using snoc.prems(1) unfolding e run_events_snoc by metis
  have "no_update_from a evs" using snoc.prems(2) by (auto simp: no_update_from_def)
  note IH = snoc.IH [OF C1(1) this]
  have ok: "cluster_ok K C"
    using cluster_ok_step [OF K(1), of C1 C] cluster_step.event [OF C1(2-4)] IH C1(5) by blast
  let ?step = "server_step (system K) (table_order K) (addr_to_string (sin_addr (host_addrs K ! i))) (base_port K) ev (fst C1 ! i)"
  have C: "fst C = (fst C1)[i := fst ?step]" "snd C = snd C1 @ map (Pair (host_addrs K ! i)) (snd ?step)"
    using C1(5) by (simp_all add: react_def split_beta Let_def)
  have i: "i = 0 \<or> i = 1" using C1(2) IH by auto
  have grows: "discovered evs \<subseteq> discovered (evs @ [e])" by (auto simp: discovered_def)
  have "dom (database_records (database (fst C ! 1))) \<subseteq> discovered (evs @ [e])"
  proof (cases "i = 1")
    case True
    have "server_ok K (fst C1 ! 1)" using IH by (simp add: cluster_ok_def)
    moreover have "addr_to_string (sin_addr src) = addr_to_string (sin_addr b)"
      if ev: "ev = Sync_receive (Datagram src t)" for src t
    proof -
      have "src \<in> {a, b}" using C1(4) ev IH by force
      moreover have "src \<noteq> a" using snoc.prems(2) True ev e by (auto simp: no_update_from_def)
      ultimately show ?thesis by simp
    qed
    ultimately have "dom (database_records (database (fst C ! 1))) \<subseteq>
        dom (database_records (database (fst C1 ! 1))) \<union> {sin_addr d | d t. ev = Discovery_datagram d t}"
      using step_accounts [of K "fst C1 ! 1" ev "addr_to_string (sin_addr b)"] C(1) True IH K(2) by simp
    also have "\<dots> \<subseteq> discovered evs \<union> {sin_addr d | d t. ev = Discovery_datagram d t}"
      using IH by (intro Un_mono) simp_all
    also have "\<dots> = discovered (evs @ [e])" using True e by (auto simp: discovered_def)
    finally show ?thesis .
  next
    case False
    then show ?thesis using IH C(1) grows by auto
  qed
  then show ?case using ok C IH i K(2) by auto
qed

section \<open>The takeover, with the broadcast of the old coordinator delivered or not\<close>

text \<open>The joining: the new process calls, the old one broadcasts, the new one announces itself.\<close>

definition call_events :: "sockaddr_in \<Rightarrow> (nat \<times> server_event) list" where
  "call_events b = [(1, Election_receive 10 Nothing_received), (0, Election_receive 20 (election_datagram b ''ELE'' (id_of b)))]"

definition update_events :: "cluster_setup \<Rightarrow> sockaddr_in \<Rightarrow> db_manager \<Rightarrow> (nat \<times> server_event) list" where
  "update_events K a s = [(1, Sync_receive (Datagram a (update_text (table_order K) s)))]"

definition win_events :: "sockaddr_in \<Rightarrow> (nat \<times> server_event) list" where
  "win_events b = [(1, Election_receive 300 Nothing_received), (0, Election_receive 310 (election_datagram b ''CRD'' (id_of b)))]"

text \<open>The update of the old coordinator reaches the new one, or is lost.\<close>

lemma update_delivery:
  assumes J: "joining K a b s"
    and run: "run_events K evs C = Some ([p, q], sent)" and q: "database q = DbManager" "alive q"
    and sent: "(a, To_synchronizers (update_text (table_order K) s)) \<in> set sent"
  shows "\<exists>d. run_events K (evs @ (if delivered then update_events K a s else [])) C =
      Some ([p, q\<lparr>database := d\<rparr>], sent) \<and>
    (if delivered then get_db_snapshot d = get_db_snapshot s \<and> db_ok d else d = DbManager)"
proof (cases delivered)
  case True
  let ?ev = "Datagram a (update_text (table_order K) s)"
  have K: "setup_ok K" "host_addrs K = [a, b]" "db_ok s" "dom (database_records s) \<subseteq> client_hosts K"
    "snapshot_fits (get_db_snapshot s)"
    using J by (simp_all add: joining_def)
  have "server_ok K q" using db_ok_initial q by (simp add: server_ok_def DbManager_def)
  then obtain d where d: "db_ok d" "get_db_snapshot d = get_db_snapshot s"
    "listen_step (addr_to_string (sin_addr b)) ?ev (database q) = (Inr (), d)"
    using update_received [OF K(1) _ K(3,4) joining_far [OF J], of q] K(5) by auto
  have "run_events K (evs @ update_events K a s) C = Some ([p, q\<lparr>database := d\<rparr>], sent)"
    using run_event [OF run, of 1 "Sync_receive ?ev"]
      react_loads [of K 1 ?ev q d "[p, q]"] d(3) K(2) q(2) sent by (simp add: update_events_def)
  then show ?thesis using d True by auto
next
  case False
  have "q = q\<lparr>database := DbManager\<rparr>" using q by simp
  then show ?thesis using run False by (metis append_Nil2)
qed

lemma takeover_run:
  assumes J: "joining K a b s"
  shows "\<exists>pa pb sent. run_events K (call_events b @ (if delivered then update_events K a s else []) @ win_events b)
      ([old_coordinator a s, new_process b], []) = Some ([pa, pb], sent) \<and>
    taken_over b pa pb \<and> database pa = s \<and>
    (if delivered then get_db_snapshot (database pb) = get_db_snapshot s \<and> db_ok (database pb)
     else database pb = DbManager)"
proof -
  let ?old = "old_coordinator a s" and ?new = "new_process b" and ?o = "table_order K"
  have K: "setup_ok K" "host_addrs K = [a, b]" "db_ok s" "dom (database_records s) \<subseteq> client_hosts K"
    "snapshot_fits (get_db_snapshot s)"
    using J by (simp_all add: joining_def)
  obtain rm where rm: "election_iteration 20 (election_datagram b ''ELE'' (id_of b)) (manager ?old) =
      (rm, [Broadcast_database])" "state rm = WAITING_FOR_COORD" "node_id rm = id_of a"
    using old_coordinator_hears [OF J] .
  obtain rm' where rm': "election_iteration 310 (election_datagram b ''CRD'' (id_of b)) rm = (rm', [])"
    "\<not> is_coordinator rm'" "coordinator_ip rm' = sin_addr b"
    using old_coordinator_obeys [OF J rm(2,3)] .
  let ?ele = "(b, To_elections (election_text ''ELE'' (id_of b)))"
  let ?upd = "(a, To_synchronizers (update_text ?o s))"
  let ?crd = "(b, To_elections (election_text ''CRD'' (id_of b)))"
  let ?C0 = "([?old, ?new], []) :: cluster"
  let ?new1 = "?new\<lparr>manager := fresh_node b\<lparr>state := IN_PROGRESS\<rparr>\<rparr>" and ?old1 = "?old\<lparr>manager := rm\<rparr>"
  have "run_events K ([] @ [(1, Election_receive 10 Nothing_received)]) ?C0 = Some ([?old, ?new1], [?ele])"
    using run_event [of K "[]" ?C0 ?C0 1 "Election_receive 10 Nothing_received"]
      react_elects [of 10 Nothing_received ?new _ _ "[?old, ?new]" 1 K "[]"] new_process_calls [of b] K(2)
    by simp
  then have called: "run_events K (call_events b) ?C0 = Some ([?old1, ?new1], [?ele, ?upd])"
    using run_event [of K "[(1, Election_receive 10 Nothing_received)]" ?C0 "([?old, ?new1], [?ele])" 0
        "Election_receive 20 (election_datagram b ''ELE'' (id_of b))"]
      react_elects [OF rm(1), of "[?old, ?new1]" 0 K "[?ele]"] K(2)
    by (simp add: call_events_def)
  let ?evs = "call_events b @ (if delivered then update_events K a s else [])"
  obtain d where d: "run_events K ?evs ?C0 = Some ([?old1, ?new1\<lparr>database := d\<rparr>], [?ele, ?upd])"
    "if delivered then get_db_snapshot d = get_db_snapshot s \<and> db_ok d else d = DbManager"
    using update_delivery [OF J called, of delivered] by (auto simp: new_process_def)
  let ?win = "fresh_node b\<lparr>current_wait_time := 300, state := NOT_IN_PROGRESS, is_coordinator := True\<rparr>"
  let ?new2 = "?new1\<lparr>database := d, manager := ?win\<rparr>"
  have "run_events K (?evs @ [(1, Election_receive 300 Nothing_received)]) ?C0 =
      Some ([?old1, ?new2], [?ele, ?upd, ?crd])"
    using run_event [OF d(1), of 1 "Election_receive 300 Nothing_received"]
      react_elects [of 300 Nothing_received "?new1\<lparr>database := d\<rparr>" _ _ "[?old1, ?new1\<lparr>database := d\<rparr>]" 1
        K "[?ele, ?upd]"] new_process_wins [of b] K(2)
    by simp
  then have won: "run_events K (call_events b @ (if delivered then update_events K a s else []) @ win_events b) ?C0 =
      Some ([?old1\<lparr>manager := rm'\<rparr>, ?new2], [?ele, ?upd, ?crd])"
    using run_event [of K "?evs @ [(1, Election_receive 300 Nothing_received)]" ?C0
        "([?old1, ?new2], [?ele, ?upd, ?crd])" 0 "Election_receive 310 (election_datagram b ''CRD'' (id_of b))"]
      react_elects [of 310 _ ?old1 rm' "[]" "[?old1, ?new2]" 0 K] rm'(1) K(2)
    by (simp add: win_events_def)
  have "taken_over b (?old1\<lparr>manager := rm'\<rparr>) ?new2"
    using rm'(2,3) by (simp add: taken_over_def)
  then show ?thesis using won d(2) by (intro exI [of _ "?old1\<lparr>manager := rm'\<rparr>"] exI [of _ ?new2]) simp
qed

text \<open>The first client of the new coordinator, and its update at the old one.\<close>

lemma register_fits:
  assumes "db_ok d" "snapshot_fits (get_db_snapshot d)"
  shows "snapshot_fits (get_db_snapshot (snd (register_client x d)))"
proof (cases "database_records d x")
  case None
  have "ran ((database_records d)(x \<mapsto> r)) = insert r (ran (database_records d))" for r
    using None by (rule ran_map_upd)
  then show ?thesis using assms None
    by (simp add: db_ok_def register_client_new snapshot_fits_def get_db_snapshot_def
        get_db_metadata_def request_fits_def STARTING_REQUEST_def)
qed (use assms in \<open>simp add: db_ok_def register_client_known\<close>)

lemma dom_ledger: "dom (ledger_of d) = dom (database_records d)"
  by (auto simp: ledger_of_def dom_def)

lemma first_client_run:
  fixes c :: sockaddr_in
  assumes K: "setup_ok K" "host_addrs K = [a, b]" "addr_to_string (sin_addr a) \<noteq> addr_to_string (sin_addr b)"
    and over: "taken_over b pa pb" and pa: "server_ok K pa" and pb: "server_ok K pb"
    and fits: "snapshot_fits (get_db_snapshot (database pb))" and c: "sin_addr c \<in> client_hosts K"
    and run: "run_events K evs C0 = Some ([pa, pb], sent)"
  shows "\<exists>u pa' pb' sent'. run_events K (evs @ [(1, Discovery_datagram c t), (0, Sync_receive (Datagram b u))]) C0 =
      Some ([pa', pb'], sent') \<and> taken_over b pa' pb' \<and>
    ledger_of (database pa') = ledger_open (sin_addr c) (ledger_of (database pb)) \<and>
    ledger_of (database pb') = ledger_open (sin_addr c) (ledger_of (database pb))"
proof -
  let ?d = "database pb" and ?o = "table_order K"
  let ?s' = "snd (register_client (sin_addr c) ?d)"
  let ?reply = "greeter_reply (addr_to_string (sin_addr b)) (base_port K)"
  let ?outs = "[To_client c ?reply, To_synchronizers (update_text ?o ?s')]"
  have d: "db_ok ?d" "dom (database_records ?d) \<subseteq> client_hosts K" using pb by (simp_all add: server_ok_def)
  have disc: "discovery_step ?reply True c t ?d =
      (Inr [Reply c ?reply, Broadcast_update (get_db_snapshot ?s')], ?s')" "db_ok ?s'"
    "ledger_of ?s' = ledger_open (sin_addr c) (ledger_of ?d)"
    using discovery_step_answers [OF d(1), of ?reply c t] db_ok_register [OF d(1)] ledger_register [OF d(1)]
    by (auto simp: discovery_step_def Let_def split: prod.splits sum.splits)
  have alive: "alive pa" "alive pb" "is_coordinator (manager pb)" using over by (simp_all add: taken_over_def)
  have "react K 1 (Discovery_datagram c t) ([pa, pb], sent) =
      ([pa, pb\<lparr>database := ?s'\<rparr>], sent @ map (Pair b) ?outs)"
    using disc(1) alive(3) K(2) by (simp add: react_def of_handler_def update_text_def)
  then have one: "run_events K (evs @ [(1, Discovery_datagram c t)]) C0 =
      Some ([pa, pb\<lparr>database := ?s'\<rparr>], sent @ map (Pair b) ?outs)"
    using run_event [OF run, of 1 "Discovery_datagram c t"] alive c by simp
  have dom: "dom (database_records ?s') \<subseteq> client_hosts K" using register_dom [OF d(1)] d(2) c by simp
  obtain d' where d': "db_ok d'" "get_db_snapshot d' = get_db_snapshot ?s'"
    "listen_step (addr_to_string (sin_addr a)) (Datagram b (update_text ?o ?s')) (database pa) = (Inr (), d')"
    using update_received [OF K(1) pa disc(2) dom K(3) [symmetric]] register_fits [OF d(1) fits] by auto
  have "react K 0 (Sync_receive (Datagram b (update_text ?o ?s')))
      ([pa, pb\<lparr>database := ?s'\<rparr>], sent @ map (Pair b) ?outs) =
      ([pa\<lparr>database := d'\<rparr>, pb\<lparr>database := ?s'\<rparr>], sent @ map (Pair b) ?outs)"
    using react_loads [of K 0 _ pa d'] d'(3) K(2) by simp
  then have "run_events K (evs @ [(1, Discovery_datagram c t),
        (0, Sync_receive (Datagram b (update_text ?o ?s')))]) C0 =
      Some ([pa\<lparr>database := d'\<rparr>, pb\<lparr>database := ?s'\<rparr>], sent @ map (Pair b) ?outs)"
    using run_event [OF one, of 0 "Sync_receive (Datagram b (update_text ?o ?s'))"] alive by simp
  moreover have "ledger_of d' = ledger_of ?s'" using d'(2) by (rule ledger_of_snapshot)
  moreover have "taken_over b (pa\<lparr>database := d'\<rparr>) (pb\<lparr>database := ?s'\<rparr>)"
    using over by (simp add: taken_over_def)
  ultimately show ?thesis using disc(3) by fastforce
qed

section \<open>Properties\<close>

text \<open>
  C9. A change of the coordinator needs an update of the old one. A process with a larger
  identifier joins. In every run in which no update of the old coordinator reaches it, the only
  accounts it ever has are those it opens itself, with new balances, for clients whose
  discovery it answers. Two runs show that this decides what the cluster keeps: the new process
  calls, the old one broadcasts its database, the new one announces itself, a client discovers
  it, and its update reaches the old one. If the broadcast was delivered, both end with the old
  accounts and the client's; if not, both end with the client's account alone. The broadcast
  is sent once; another update of the old coordinator that arrives would do as well.
\<close>

theorem takeover_needs_an_update:
  fixes c :: sockaddr_in
  assumes "joining K a b s" and "sin_addr c \<in> client_hosts K"
  shows "(\<forall>evs C. run_events K evs ([old_coordinator a s, new_process b], []) = Some C \<longrightarrow>
      no_update_from a evs \<longrightarrow> dom (ledger_of (database (fst C ! 1))) \<subseteq> discovered evs) \<and>
    (\<exists>u pa pb sent. run_events K
        ((call_events b @ (if delivered then update_events K a s else []) @ win_events b) @
         [(1, Discovery_datagram c t), (0, Sync_receive (Datagram b u))])
        ([old_coordinator a s, new_process b], []) = Some ([pa, pb], sent) \<and>
      taken_over b pa pb \<and>
      ledger_of (database pa) = ledger_open (sin_addr c) (if delivered then ledger_of s else Map.empty) \<and>
      ledger_of (database pb) = ledger_open (sin_addr c) (if delivered then ledger_of s else Map.empty))"
proof -
  have K: "setup_ok K" "host_addrs K = [a, b]" "db_ok s" "dom (database_records s) \<subseteq> client_hosts K"
    "snapshot_fits (get_db_snapshot s)"
    using assms(1) by (simp_all add: joining_def)
  let ?C0 = "([old_coordinator a s, new_process b], []) :: cluster"
  let ?evs = "call_events b @ (if delivered then update_events K a s else []) @ win_events b"
  have "cluster_ok K ?C0" using K db_ok_initial by (simp add: cluster_ok_def server_ok_def DbManager_def)
  then have kept: "dom (ledger_of (database (fst C ! 1))) \<subseteq> discovered evs"
    if "run_events K evs ?C0 = Some C" "no_update_from a evs" for evs C
    using joiner_accounts [OF K(1,2) _ that] by (simp add: dom_ledger)
  obtain pa pb sent where run: "run_events K ?evs ?C0 = Some ([pa, pb], sent)"
    "taken_over b pa pb" "database pa = s"
    and pb: "if delivered then get_db_snapshot (database pb) = get_db_snapshot s \<and> db_ok (database pb)
      else database pb = DbManager"
    using takeover_run [OF assms(1), of delivered] by metis
  have empty: "ledger_of DbManager = Map.empty" "snapshot_fits (get_db_snapshot DbManager)"
    by (simp_all add: ledger_of_def DbManager_def snapshot_fits_def get_db_snapshot_def get_db_metadata_def)
  have pa: "server_ok K pa" using run(3) K by (simp add: server_ok_def)
  have ready: "server_ok K pb \<and> snapshot_fits (get_db_snapshot (database pb)) \<and>
      ledger_of (database pb) = (if delivered then ledger_of s else Map.empty)"
  proof (cases delivered)
    case True
    then have same: "get_db_snapshot (database pb) = get_db_snapshot s" and ok: "db_ok (database pb)"
      using pb by simp_all
    have "database_records (database pb) = database_records s"
      using same by (simp add: get_db_snapshot_def)
    then have "server_ok K pb" using ok K(4) by (simp add: server_ok_def)
    moreover have "snapshot_fits (get_db_snapshot (database pb))" unfolding same by (rule K(5))
    moreover have "ledger_of (database pb) = ledger_of s" using same by (rule ledger_of_snapshot)
    ultimately show ?thesis using True by simp
  next
    case False
    then have new: "database pb = DbManager" using pb by simp
    have "database_records DbManager = Map.empty" by (simp add: DbManager_def)
    then have "server_ok K pb" using db_ok_initial by (simp add: server_ok_def new)
    then show ?thesis using False empty by (simp add: new)
  qed
  show ?thesis
    using kept first_client_run [OF K(1,2) joining_far [OF assms(1)] run(2) pa _ _ assms(2) run(1)] ready by auto
qed

lemma sample_joining: "joining sample_setup (sample_addrs ! 0) (sample_addrs ! 1) two_clients"
proof -
  have "snapshot_fits (get_db_snapshot two_clients)" "dom (database_records two_clients) \<subseteq> {1, 2, 3}"
    using two_clients_state
    by (auto simp: snapshot_fits_def get_db_snapshot_def get_db_metadata_def ran_def request_fits_def)
  then show ?thesis
    using two_clients_ok sample_setup_ok
    by (simp add: joining_def sample_setup_def sample_addrs_def id_of_def from_loopback_def ntohl_def octets_def)
qed

theorem takeover_needs_an_update_witness:
  "(\<exists>u pa pb sent. run_events sample_setup
      ((call_events (sample_addrs ! 1) @ win_events (sample_addrs ! 1)) @
       [(1, Discovery_datagram \<lparr>sin_port = 7, sin_addr = 3\<rparr> ''DIS END''), (0, Sync_receive (Datagram (sample_addrs ! 1) u))])
      ([old_coordinator (sample_addrs ! 0) two_clients, new_process (sample_addrs ! 1)], []) = Some ([pa, pb], sent) \<and>
    ledger_of (database pa) = [3 \<mapsto> 100000] \<and> ledger_of (database pb) = [3 \<mapsto> 100000]) \<and>
   (\<exists>evs pa pb sent. run_events sample_setup evs
      ([old_coordinator (sample_addrs ! 0) two_clients, new_process (sample_addrs ! 1)], []) = Some ([pa, pb], sent) \<and>
    taken_over (sample_addrs ! 1) pa pb \<and> ledger_of (database pb) = ledger_open 3 (ledger_of two_clients))"
proof -
  have "ledger_open 3 Map.empty = [3 \<mapsto> 100000]" by (simp add: ledger_open_def)
  then show ?thesis
    using takeover_needs_an_update [OF sample_joining, of "\<lparr>sin_port = 7, sin_addr = 3\<rparr>" False "''DIS END''"]
      takeover_needs_an_update [OF sample_joining, of "\<lparr>sin_port = 7, sin_addr = 3\<rparr>" True "''DIS END''"]
    by (simp add: sample_setup_def) blast
qed

text \<open>
  C24. Any process serves clients. The multiplexer does not ask for the role: a transfer that
  reaches a process which is not the coordinator is executed on its own copy, and the update
  it broadcasts replaces the coordinator's database, with everything the coordinator had
  executed since the copy was made.
\<close>

theorem replica_overwrites_coordinator:
  fixes c :: sockaddr_in and seq :: i64
  assumes "setup_ok K" and "host_addrs K = [a, b]" and "sin_addr a \<noteq> sin_addr b"
    and "server_ok K pa" and "server_ok K pb" and "alive pa" and "alive pb"
    and "\<not> is_coordinator (manager pb)" and "sin_addr c \<in> client_hosts K"
    and "database_records (database pb) (sin_addr c) = Some x" and "d \<noteq> sin_addr c"
    and "database_records (database pb) d = Some y" and "amount \<noteq> 0" and "amount \<le> balance x"
    and "ucast seq = last_request x + 1"
    and "snapshot_fits (get_db_snapshot (snd (make_transaction (sin_addr c) d amount (database pb))))"
  shows "\<exists>pa' pb' sent'. (cluster_step K)\<^sup>*\<^sup>* ([pa, pb], sent) ([pa', pb'], sent') \<and>
    manager pa' = manager pa \<and> manager pb' = manager pb \<and>
    database pb' = snd (make_transaction (sin_addr c) d amount (database pb)) \<and>
    get_db_snapshot (database pa') = get_db_snapshot (database pb')"
proof -
  let ?s = "database pb" and ?o = "table_order K" and ?p = "REQ_Packet seq d amount"
  let ?s' = "snd (make_transaction (sin_addr c) d amount ?s)"
  have ok: "db_ok ?s" "dom (database_records ?s) \<subseteq> client_hosts K" using assms(5) by (simp_all add: server_ok_def)
  obtain s' where s': "settle (sin_addr c) d amount ?s = (Inr (respond True (debited amount x) SUCCESS), s')"
    using settle_covered [OF assms(10,12) _ assms(13,14)] assms(11) by metis
  have same: "s' = ?s'" using s' ok(1) by (simp add: make_transaction_settle db_ok_def)
  have "check_packet_status ?p (known_record (sin_addr c) ?s) = VALID"
    using assms(10,15) by (simp add: check_valid_iff REQ_Packet_def)
  then obtain t where served: "process_req_packet c ?p ?s =
      (Inr [Broadcast_update (get_db_snapshot ?s'), Reply c t], ?s')"
    using process_req_settles [OF ok(1), of ?p c] s' same by (simp add: REQ_Packet_def)
  have mux: "multiplex c (REQ_Packet_to_string ?p) = Start (Req_message c ?p)" by (rule multiplex_REQ)
  let ?sent = "sent @ map (Pair b) [To_synchronizers (update_text ?o ?s'), To_client c t]"
  have "react K 1 (Client_datagram c (REQ_Packet_to_string ?p)) ([pa, pb], sent) =
      ([pa, pb\<lparr>database := ?s'\<rparr>], ?sent)"
    using served mux assms(2) by (simp add: react_def of_handler_def serve_datagram_def update_text_def)
  then have one: "(cluster_step K)\<^sup>*\<^sup>* ([pa, pb], sent) ([pa, pb\<lparr>database := ?s'\<rparr>], ?sent)"
    using cluster_run_event [of K "([pa, pb], sent)" "([pa, pb], sent)" 1
        "Client_datagram c (REQ_Packet_to_string ?p)"] assms(7,9) by simp
  have ok': "db_ok ?s'" using ok(1) by (rule db_ok_transaction)
  have dom: "dom (database_records ?s') \<subseteq> client_hosts K"
    using settle_dom [of "sin_addr c" d amount ?s] ok by (simp add: make_transaction_settle db_ok_def)
  obtain d' where d': "get_db_snapshot d' = get_db_snapshot ?s'"
    "listen_step (addr_to_string (sin_addr a)) (Datagram b (update_text ?o ?s')) (database pa) = (Inr (), d')"
    using update_received [OF assms(1,4) ok' dom, of b "addr_to_string (sin_addr a)"] assms(3,16)
    by (auto simp: addr_to_string_inj)
  have "react K 0 (Sync_receive (Datagram b (update_text ?o ?s')))
      ([pa, pb\<lparr>database := ?s'\<rparr>], ?sent) = ([pa\<lparr>database := d'\<rparr>, pb\<lparr>database := ?s'\<rparr>], ?sent)"
    using react_loads [of K 0 _ pa d'] d'(2) assms(2) by simp
  then have "(cluster_step K)\<^sup>*\<^sup>* ([pa, pb], sent) ([pa\<lparr>database := d'\<rparr>, pb\<lparr>database := ?s'\<rparr>], ?sent)"
    using cluster_run_event [OF one, of 0 "Sync_receive (Datagram b (update_text ?o ?s'))"] assms(6) by simp
  then show ?thesis using d'(1) by fastforce
qed

theorem replica_overwrites_coordinator_witness:
  "\<exists>pa pb sent. (cluster_step sample_setup)\<^sup>*\<^sup>*
      ([old_coordinator (sample_addrs ! 0) (snd (make_transaction 2 1 50 two_clients)),
        (new_process (sample_addrs ! 1))\<lparr>database := two_clients\<rparr>], []) ([pa, pb], sent) \<and>
    is_coordinator (manager pa) \<and> \<not> is_coordinator (manager pb) \<and>
    get_db_snapshot (database pa) = get_db_snapshot (snd (make_transaction 1 2 30 two_clients))"
proof -
  let ?a = "sample_addrs ! 0" and ?b = "sample_addrs ! 1"
  let ?pa = "old_coordinator ?a (snd (make_transaction 2 1 50 two_clients))"
  let ?pb = "(new_process ?b)\<lparr>database := two_clients\<rparr>"
  have hosts: "host_addrs sample_setup = [?a, ?b]" "client_hosts sample_setup = {1, 2, 3}"
    "sin_addr ?a \<noteq> sin_addr ?b"
    by (simp_all add: sample_setup_def sample_addrs_def)
  have "db_ok (snd (make_transaction 2 1 50 two_clients))" using two_clients_ok by (rule db_ok_transaction)
  moreover have "dom (database_records (snd (make_transaction 2 1 50 two_clients))) \<subseteq> {1, 2}"
    using settle_dom [of 2 1 50 two_clients] two_clients_ok
    by (auto simp: make_transaction_settle db_ok_def two_clients_records)
  ultimately have pa: "server_ok sample_setup ?pa" by (auto simp: server_ok_def hosts)
  have pb: "server_ok sample_setup ?pb"
    using two_clients_ok by (auto simp: server_ok_def hosts two_clients_records)
  have "snapshot_fits (get_db_snapshot (snd (make_transaction 1 2 30 two_clients)))"
    using two_clients_transfer_sendable by (simp add: sendable_def)
  then have "\<exists>pa' pb' sent'. (cluster_step sample_setup)\<^sup>*\<^sup>* ([?pa, ?pb], []) ([pa', pb'], sent') \<and>
      manager pa' = manager ?pa \<and> manager pb' = manager ?pb \<and>
      database pb' = snd (make_transaction 1 2 30 two_clients) \<and>
      get_db_snapshot (database pa') = get_db_snapshot (database pb')"
    using replica_overwrites_coordinator [OF sample_setup_ok hosts(1,3) pa pb,
        of "\<lparr>sin_port = 7, sin_addr = 1\<rparr>" "\<lparr>ip = 1, balance = 100000, last_request = 0\<rparr>" 2
          "\<lparr>ip = 2, balance = 100000, last_request = 0\<rparr>" 30 1 "[]"]
    by (simp add: hosts two_clients_records)
  then obtain pa pb sent where "(cluster_step sample_setup)\<^sup>*\<^sup>* ([?pa, ?pb], []) ([pa, pb], sent)"
    "manager pa = manager ?pa" "manager pb = manager ?pb"
    "database pb = snd (make_transaction 1 2 30 two_clients)"
    "get_db_snapshot (database pa) = get_db_snapshot (database pb)"
    by (elim exE conjE)
  then show ?thesis by (intro exI [of _ pa] exI [of _ pb] exI [of _ sent]) simp
qed

end
