(* ===== verification/Console.thy ===== *)
theory Console
  imports Client_Server
begin

text \<open>
  What the two programs print on \<open>cout\<close> and \<open>cerr\<close> in a release build, where \<open>_DEBUG\<close> is not
  defined: the dates of \<open>date_time_utils.cpp\<close>, the colours of \<open>colors.h\<close>, the log lines of the
  request handler, the start-up line of the server, and the lines the client shows its user.
  What a request prints is given by the same recursion as the model of its dispatch. The
  lemmas say what the user of a transfer gets to see.
\<close>

section \<open>Dates and colours\<close>

text \<open>
  The broken-down time \<open>localtime\<close> returns, with the month from 0 and the year from 1900; the
  library keeps the month below 12 and the other fields at two digits.
\<close>

record tm =
  tm_sec :: nat
  tm_min :: nat
  tm_hour :: nat
  tm_mday :: nat
  tm_mon :: nat
  tm_year :: int

definition valid_tm :: "tm \<Rightarrow> bool" where
  "valid_tm t \<longleftrightarrow> tm_sec t \<le> 60 \<and> tm_min t < 60 \<and> tm_hour t < 24 \<and> 0 < tm_mday t \<and>
     tm_mday t \<le> 31 \<and> tm_mon t < 12"

definition two_digits :: "nat \<Rightarrow> string" where
  "two_digits n = (if n < 10 then ''0'' @ show_nat n else show_nat n)"

text \<open>
  \<open>strftime\<close> into a buffer of the given size, with its terminating NUL. When the text does not
  fit, the contents of the buffer are unspecified.
\<close>

definition strftime_buffer :: "nat \<Rightarrow> string \<Rightarrow> string option" where
  "strftime_buffer n text = (if length text < n then Some text else None)"

definition getCurrentDateString :: "tm \<Rightarrow> string option" where
  "getCurrentDateString now =
     strftime_buffer 11 (show_int (tm_year now + 1900) @ ''-'' @ two_digits (tm_mon now + 1) @ ''-'' @
       two_digits (tm_mday now))"

definition getCurrentTimeString :: "tm \<Rightarrow> string option" where
  "getCurrentTimeString now =
     strftime_buffer 9 (two_digits (tm_hour now) @ '':'' @ two_digits (tm_min now) @ '':'' @
       two_digits (tm_sec now))"

definition RESET :: string where "RESET = CHR 0x1B # ''[0m''"
definition RED :: string where "RED = CHR 0x1B # ''[31m''"
definition GREEN :: string where "GREEN = CHR 0x1B # ''[32m''"
definition YELLOW :: string where "YELLOW = CHR 0x1B # ''[33m''"
definition BLUE :: string where "BLUE = CHR 0x1B # ''[34m''"
definition CYAN :: string where "CYAN = CHR 0x1B # ''[36m''"
definition BOLD :: string where "BOLD = CHR 0x1B # ''[1m''"

definition endl :: string where "endl = [CHR 0x0A]"

text \<open>
  The head of a log line, \<open>getCurrentDateString() << " " << getCurrentTimeString()\<close>: from left
  to right, each with its own reading of the clock.
\<close>

definition log_stamp :: "tm \<Rightarrow> tm \<Rightarrow> string option" where
  "log_stamp now1 now2 =
     (case (getCurrentDateString now1, getCurrentTimeString now2) of
        (Some d, Some t) \<Rightarrow> Some (d @ '' '' @ t)
      | _ \<Rightarrow> None)"

section \<open>The server\<close>

definition metadata_text :: "db_metadata \<Rightarrow> string" where
  "metadata_text meta =
     ''num_transactions '' @ show_int (sint (num_transactions meta)) @ '' total_transferred '' @
     show_nat (unat (total_transferred meta)) @ '' total_balance '' @
     show_int (sint (total_balance meta))"

definition print_startup_message :: "tm \<Rightarrow> tm \<Rightarrow> db_metadata \<Rightarrow> string option" where
  "print_startup_message now1 now2 meta =
     map_option (\<lambda>stamp. YELLOW @ stamp @ '' '' @ metadata_text meta @ RESET @ endl)
       (log_stamp now1 now2)"

definition server_start_cout :: "tm \<Rightarrow> tm \<Rightarrow> i32 \<Rightarrow> db_manager \<Rightarrow> string option" where
  "server_start_cout now1 now2 port s =
     map_option (\<lambda>message. YELLOW @ ''Servidor iniciado na porta: '' @ show_int (sint port) @ RESET @
         endl @ message)
       (print_startup_message now1 now2 (get_db_metadata s))"

definition print_request_info ::
  "tm \<Rightarrow> tm \<Rightarrow> in_addr \<Rightarrow> req_packet \<Rightarrow> bool \<Rightarrow> bool \<Rightarrow> db_manager \<Rightarrow> string option" where
  "print_request_info now1 now2 sender_ip p is_dup is_out_of_order s =
     map_option (\<lambda>stamp.
       CYAN @ stamp @ '' client '' @ addr_to_string sender_ip @
       '' id_req '' @ show_int (sint (seq_num p)) @
       (if is_dup then RED @ '' DUPLICATE! '' @ CYAN
        else if is_out_of_order then RED @ '' OUT_OF_ORDER! '' @ CYAN else []) @
       '' dest '' @ addr_to_string (receiver_ip p) @
       '' value '' @ show_nat (unat (transfer_amount p)) @ RESET @ endl @
       BLUE @ metadata_text (get_db_metadata s) @ RESET @ endl)
     (log_stamp now1 now2)"

text \<open>\<open>print_record\<close>; no code under \<open>src/\<close> calls it.\<close>

definition print_client_record :: "client_record \<Rightarrow> string" where
  "print_client_record client =
     BOLD @ ''#### Client '' @ inet_ntop (ip client) @ '' ####'' @ RESET @ endl @
     CYAN @ ''- Balance: '' @ show_nat (unat (balance client)) @ endl @
     ''- Last request: '' @ show_nat (unat (last_request client)) @ endl @ RESET @ endl"

text \<open>The line of \<open>broadcast_update\<close>.\<close>

definition broadcast_update_cout :: string where
  "broadcast_update_cout = GREEN @ ''[DB SYNCHRONIZER]: Broadcasting update.'' @ RESET @ endl"

text \<open>
  What \<open>process_req_packet\<close> prints on \<open>cout\<close>: one call of \<open>print_request_info\<close>, with the
  database as it is after the transaction, then, when the reply says \<open>SUCCESS\<close>, the line of the
  broadcast; nothing when an exception leaves the handler.
\<close>

definition process_req_cout ::
  "tm \<Rightarrow> tm \<Rightarrow> sockaddr_in \<Rightarrow> req_packet \<Rightarrow> db_manager \<Rightarrow> string option" where
  "process_req_cout now1 now2 sender_addr p s =
     (let sender_ip = sin_addr sender_addr
      in case check_packet_status p (response_record (get_client_info sender_ip s)) of
           VALID \<Rightarrow>
             (case process_db_transaction sender_ip p s of
                (Inl e, s') \<Rightarrow> Some []
              | (Inr ack, s') \<Rightarrow>
                  map_option (\<lambda>info. info @ (if result ack = ''SUCCESS'' then broadcast_update_cout else []))
                    (print_request_info now1 now2 sender_ip p False False s'))
         | DUPLICATE \<Rightarrow> print_request_info now1 now2 sender_ip p True False s
         | OUT_OF_ORDER \<Rightarrow> print_request_info now1 now2 sender_ip p False True s
         | NO_CLUE \<Rightarrow> Some [])"

section \<open>The client\<close>

text \<open>The lines of the client, and their text; the dates are read when a line is printed.\<close>

datatype client_line =
    Retry_line nat nat
  | Invalid_location_line string
  | Not_found_line
  | Port_line i32
  | Server_not_found_line
  | Location_line string i32
  | Report_line in_addr ack_packet

definition usage_text :: string where
  "usage_text = RED @ ''Bad input!'' @ endl @ BOLD @ ''Usage: <IP> <AMOUNT>'' @ RESET @ endl"

fun line_text :: "tm \<Rightarrow> tm \<Rightarrow> client_line \<Rightarrow> string option" where
  "line_text now1 now2 (Retry_line n max_retries) =
     Some (''Timeout or error receiving response, retrying... ('' @ show_nat n @ ''/'' @
       show_nat max_retries @ '')'' @ endl)"
| "line_text now1 now2 (Invalid_location_line buffer) =
     Some (''Invalid response message received: '' @ buffer @ endl)"
| "line_text now1 now2 Not_found_line = Some (''Could not find server'' @ endl)"
| "line_text now1 now2 (Port_line port) = Some (show_int (sint port) @ endl)"
| "line_text now1 now2 Server_not_found_line = Some (''Server not found'' @ endl)"
| "line_text now1 now2 (Location_line request_server_ip request_server_port) =
     map_option (\<lambda>stamp. stamp @ '' server_addr '' @ request_server_ip @ '':'' @
         show_int (sint request_server_port) @ endl)
       (log_stamp now1 now2)"
| "line_text now1 now2 (Report_line server response) =
     map_option (\<lambda>stamp.
       CYAN @ stamp @ '' server '' @ addr_to_string server @
       '' id_req '' @ show_int (sint (seq_num response)) @
       (if result response = ''SUCCESS''
        then '' dest '' @ addr_to_string (ack_receiver_ip response) @
             '' value '' @ show_nat (unat (ack_transfer_amount response)) else []) @
       (if result response = ''KILL'' then '' removed_balance '' else '' new_balance '') @
       show_nat (unat (new_balance response)) @ '' '' @ GREEN @ result response @ RESET @ endl)
     (log_stamp now1 now2)"

text \<open>
  The discovery prints on \<open>cerr\<close> only: a line for each try that fails and one when it gives
  up. Once \<open>strtok\<close> has worked on a message, a NUL ends its text after the first word.
\<close>

definition after_strtok :: "string \<Rightarrow> string" where
  "after_strtok buffer =
     (if take 3 buffer = ''LOC'' then takeWhile (\<lambda>c. c \<noteq> CHR '' '') buffer else buffer)"

fun discovery_lines :: "'e network \<Rightarrow> nat \<Rightarrow> nat \<Rightarrow> sockaddr_in \<Rightarrow> 'e \<Rightarrow> client_line list" where
  "discovery_lines net max_retries 0 addr e = [Not_found_line]"
| "discovery_lines net max_retries (Suc retries) addr e =
     (case net addr discovery_message e of
        (Nothing_received, e') \<Rightarrow>
          Retry_line (max_retries - retries) max_retries #
          discovery_lines net max_retries retries addr e'
      | (Datagram src payload, e') \<Rightarrow>
          (let buffer = buffer_text DISCOVERY_MAXLINE payload
           in if fst (extract_ip_and_port_from_response buffer True) \<noteq> 0
              then Invalid_location_line (after_strtok buffer) #
                   discovery_lines net max_retries retries src e'
              else []))"

definition locate_lines :: "'e network \<Rightarrow> string \<times> i32 \<Rightarrow> dispatcher \<Rightarrow> 'e \<Rightarrow> client_line list" where
  "locate_lines net garbage d e =
     (let port = location_service_port d;
          location = fst (client_discovery_protocol net ''255.255.255.255'' port 5 e);
          (request_server_ip, request_server_port) =
            (case location of None \<Rightarrow> garbage | Some l \<Rightarrow> l)
      in Port_line port #
         discovery_lines net 5 5 (create_sockaddr ''255.255.255.255'' port) e @
         (if location = None then [Server_not_found_line] else []) @
         [Location_line request_server_ip request_server_port])"

definition response_lines :: "ack_packet \<Rightarrow> dispatcher \<Rightarrow> client_line list" where
  "response_lines response d =
     (if fst (handle_response response d) then [Report_line (sin_addr (servaddr d)) response] else [])"

text \<open>What one request prints, try by try as in \<open>dispatch_loop\<close>.\<close>

fun dispatch_loop_lines ::
  "'e network \<Rightarrow> string \<times> i32 \<Rightarrow> nat \<Rightarrow> request_t \<Rightarrow> dispatcher \<Rightarrow> 'e \<Rightarrow> client_line list" where
  "dispatch_loop_lines net garbage 0 r d e = []"
| "dispatch_loop_lines net garbage (Suc retries) r d e =
     (case net (servaddr d) (serialized_request r d) e of
        (Nothing_received, e1) \<Rightarrow>
          (let (d1, e2) = locate_request_server net garbage d e1
           in locate_lines net garbage d e1 @ dispatch_loop_lines net garbage retries r d1 e2)
      | (Datagram src payload, e1) \<Rightarrow>
          (let d1 = d\<lparr>servaddr := src\<rparr>
           in case to_ACK_Packet (buffer_text CLIENT_MAXLINE payload) of
                Inl _ \<Rightarrow> dispatch_loop_lines net garbage retries r d1 e1
              | Inr response \<Rightarrow>
                  (let (ok, d2) = handle_response response d1
                   in response_lines response d1 @
                      (if ok then [] else dispatch_loop_lines net garbage retries r d2 e1))))"

definition dispatch_lines ::
  "'e network \<Rightarrow> string \<times> i32 \<Rightarrow> request_t \<Rightarrow> dispatcher \<Rightarrow> 'e \<Rightarrow> client_line list" where
  "dispatch_lines net garbage r d e = dispatch_loop_lines net garbage MAX_RETRIES r d e"

text \<open>\<open>from_string\<close> prints the usage for every line it makes no request of.\<close>

definition from_string_cout :: "string \<Rightarrow> string" where
  "from_string_cout input =
     (case request_from_string input of
        Inl e \<Rightarrow> []
      | Inr r \<Rightarrow> if request_kind r = ERROR_REQUEST then usage_text else [])"

section \<open>Lemmas\<close>

text \<open>Which reports a request prints: none, or one as its last line.\<close>

definition is_report :: "client_line \<Rightarrow> bool" where
  "is_report l \<longleftrightarrow> (case l of Report_line server response \<Rightarrow> True | _ \<Rightarrow> False)"

lemma is_report_simps [simp]:
  "is_report (Report_line a p)" "\<not> is_report (Retry_line n m)" "\<not> is_report (Invalid_location_line t)"
  "\<not> is_report Not_found_line" "\<not> is_report (Port_line q)" "\<not> is_report Server_not_found_line"
  "\<not> is_report (Location_line t q)"
  by (simp_all add: is_report_def)

lemma discovery_lines_no_report: "filter is_report (discovery_lines net m k a e) = []"
proof (induction k arbitrary: a e)
  case (Suc k)
  show ?case by (simp add: Suc.IH split_beta Let_def split: received.split)
qed simp

lemma locate_lines_no_report: "filter is_report (locate_lines net g d e) = []"
  by (simp add: locate_lines_def discovery_lines_no_report split_beta Let_def)

lemma handle_response_servaddr [simp]: "servaddr (snd (handle_response a d)) = servaddr d"
  by (simp add: handle_response_def)

lemma dispatch_loop_reports:
  "filter is_report (dispatch_loop_lines net g k r d e) =
    (case dispatch_loop net g k r d e of
       (None, d', e') \<Rightarrow> []
     | (Some response, d', e') \<Rightarrow> [Report_line (sin_addr (servaddr d')) response])"
proof (induction k arbitrary: d e)
  case (Suc k)
  obtain ev e1 where ev: "net (servaddr d) (serialized_request r d) e = (ev, e1)" by fastforce
  show ?case
  proof (cases ev)
    case Nothing_received
    obtain d1 e2 where "locate_request_server net g d e1 = (d1, e2)" by fastforce
    then show ?thesis using ev Nothing_received by (simp add: Suc.IH locate_lines_no_report)
  next
    case (Datagram src payload)
    show ?thesis
    proof (cases "to_ACK_Packet (buffer_text CLIENT_MAXLINE payload)")
      case (Inl err)
      then show ?thesis using ev Datagram by (simp add: Suc.IH)
    next
      case (Inr a)
      obtain ok d2 where "handle_response a (d\<lparr>servaddr := src\<rparr>) = (ok, d2)" by fastforce
      then show ?thesis
        using ev Datagram Inr handle_response_servaddr [of a "d\<lparr>servaddr := src\<rparr>"]
        by (simp add: Suc.IH response_lines_def)
    qed
  qed
qed simp

text \<open>Dates of the years 0 to 9999 fit their buffers.\<close>

lemma two_digits_simps [simp]: "no_space (two_digits n)" "n < 100 \<Longrightarrow> length (two_digits n) \<le> 2"
  using show_nat_no_space [of n] length_show_nat [of n 0] length_show_nat [of n 1]
  by (simp_all add: two_digits_def no_space_def isspace_def)

definition datable :: "tm \<Rightarrow> bool" where
  "datable t \<longleftrightarrow> valid_tm t \<and> 0 \<le> tm_year t + 1900 \<and> tm_year t + 1900 < 10000"

lemma no_space_append [simp]: "no_space v \<Longrightarrow> no_space w \<Longrightarrow> no_space (v @ w)"
  by (simp add: no_space_def)

lemma no_space_parts [simp]:
  "no_space RESET" "no_space RED" "no_space GREEN" "no_space BLUE" "no_space CYAN"
  "no_space '':''" "no_space ''-''"
  by (simp_all add: no_space_def isspace_def RESET_def RED_def GREEN_def BLUE_def CYAN_def)

lemma date_string:
  assumes "datable t"
  obtains d where "getCurrentDateString t = Some d" "no_space d"
proof -
  let ?y = "show_int (tm_year t + 1900)"
  have "length ?y \<le> 4"
    using assms length_show_nat [of "nat (tm_year t + 1900)" 3]
    by (simp add: datable_def show_int_def nat_less_iff)
  moreover have "length (two_digits (tm_mon t + 1)) \<le> 2" "length (two_digits (tm_mday t)) \<le> 2"
    using assms by (simp_all add: datable_def valid_tm_def)
  moreover have "no_space (?y @ ''-'' @ two_digits (tm_mon t + 1) @ ''-'' @ two_digits (tm_mday t))"
    using show_int_no_space no_space_append two_digits_simps(1) no_space_parts by metis
  ultimately show thesis
    by (intro that [of "?y @ ''-'' @ two_digits (tm_mon t + 1) @ ''-'' @ two_digits (tm_mday t)"])
      (simp_all add: getCurrentDateString_def strftime_buffer_def)
qed

lemma time_string:
  assumes "datable t"
  obtains h where "getCurrentTimeString t = Some h" "no_space h"
proof -
  let ?h = "two_digits (tm_hour t) @ '':'' @ two_digits (tm_min t) @ '':'' @ two_digits (tm_sec t)"
  have "length (two_digits (tm_hour t)) \<le> 2" "length (two_digits (tm_min t)) \<le> 2"
    "length (two_digits (tm_sec t)) \<le> 2"
    using assms by (simp_all add: datable_def valid_tm_def)
  moreover have "no_space ?h"
    using no_space_append two_digits_simps(1) no_space_parts by metis
  ultimately show thesis
    by (intro that [of ?h]) (simp_all add: getCurrentTimeString_def strftime_buffer_def)
qed

lemma stamp_words:
  assumes "datable t" "datable u"
  obtains d h where "log_stamp t u = Some (d @ '' '' @ h)" "no_space d" "no_space h"
  using date_string [OF assms(1)] time_string [OF assms(2)]
  by (metis (no_types, lifting) log_stamp_def option.simps(5) prod.case)

text \<open>The report is the last line of a request.\<close>

lemma dispatch_loop_last:
  "dispatch_loop net g k r d e = (Some response, d', e') \<Longrightarrow>
   \<exists>ls. dispatch_loop_lines net g k r d e = ls @ [Report_line (sin_addr (servaddr d')) response]"
proof (induction k arbitrary: d e)
  case (Suc k)
  obtain ev e1 where ev: "net (servaddr d) (serialized_request r d) e = (ev, e1)" by fastforce
  show ?case
  proof (cases ev)
    case Nothing_received
    obtain d1 e2 where "locate_request_server net g d e1 = (d1, e2)" by fastforce
    then show ?thesis using ev Nothing_received Suc.IH [of d1 e2] Suc.prems by auto
  next
    case (Datagram src payload)
    show ?thesis
    proof (cases "to_ACK_Packet (buffer_text CLIENT_MAXLINE payload)")
      case (Inl err)
      then show ?thesis using ev Datagram Suc.IH [of "d\<lparr>servaddr := src\<rparr>" e1] Suc.prems by auto
    next
      case (Inr a)
      obtain ok d2 where "handle_response a (d\<lparr>servaddr := src\<rparr>) = (ok, d2)" by fastforce
      then show ?thesis
        using ev Datagram Inr handle_response_servaddr [of a "d\<lparr>servaddr := src\<rparr>"]
          Suc.IH [of d2 e1] Suc.prems
        by (cases ok) (auto simp: response_lines_def)
    qed
  qed
qed simp

text \<open>The tries of a refused transfer, with what they print.\<close>

lemma refused_loop:
  "db_ok s \<Longrightarrow> refused (sin_addr cli) b amount s \<Longrightarrow> current_request d = expected cli s \<Longrightarrow>
    servaddr d = requests_addr host port \<Longrightarrow>
    \<exists>d' s'. dispatch_loop (server_network cli host port) g k (transfer_request b amount) d (quiet, s) =
        (None, d', (quiet, s')) \<and>
      dispatch_loop_lines (server_network cli host port) g k (transfer_request b amount) d (quiet, s) = [] \<and>
      ledger_of s' = ledger_of s \<and> current_request d' = expected cli s' \<and>
      expected cli s' = expected cli s + of_nat k * refusal_charge (sin_addr cli) b s"
proof (induction k arbitrary: d s)
  case (Suc k)
  let ?a = "sin_addr cli" and ?net = "server_network cli host port" and ?r = "transfer_request b amount"
  obtain res t where t: "settle ?a b amount s = (Inr res, t)"
    "status_code res \<notin> {SUCCESS, BALANCE_CHECK, UNKNOWN_SENDER, NOT_FOUND}"
    "database_records t ?a = Some (response_record res)"
    "last_request (response_record res) = last_request (known_record ?a s) + refusal_charge ?a b s"
    "refused ?a b amount t" "refusal_charge ?a b t = refusal_charge ?a b s"
    "ledger_of t = ledger_of s"
    by (rule settle_refused [OF Suc.prems(2)]) blast
  let ?d = "d\<lparr>current_request := last_request (response_record res) + 1\<rparr>"
  note exchange = settled_exchange [OF Suc.prems(4,3,1) t(1) refl]
  have "handle_response (transaction_reply ?a (REQ_Packet (scast (current_request d)) b amount) res) d =
      (False, ?d)"
    using exchange(3) t(2) by simp
  then have step: "dispatch_loop ?net g (Suc k) ?r d (quiet, s) = dispatch_loop ?net g k ?r ?d (quiet, t)"
    "dispatch_loop_lines ?net g (Suc k) ?r d (quiet, s) = dispatch_loop_lines ?net g k ?r ?d (quiet, t)"
    using exchange(1,2) by (simp_all add: response_lines_def)
  have "db_ok t" using db_ok_settle [OF Suc.prems(1), of ?a b amount] t(1) by simp
  moreover have "expected cli t = last_request (response_record res) + 1"
    using t(3) by (simp add: expected_def)
  moreover have "expected cli t = expected cli s + refusal_charge ?a b s"
    using t(3,4) by (simp add: expected_def)
  ultimately show ?case
    using Suc.IH [of t ?d] t(5-7) Suc.prems(4) step by (auto simp: algebra_simps)
qed simp

text \<open>The words of the two programs' lines about one transfer.\<close>

lemma iss_token_endl: "iss_token (endl @ s) = iss_token s"
  by (simp add: iss_token_def endl_def isspace_def)

lemma tokens_endl: "tokens (endl @ s) = tokens s"
  by (subst (1 2) tokens.simps) (simp add: iss_token_endl)

lemma iss_token_word_endl: "no_space w \<Longrightarrow> iss_token (w @ endl @ s) = Some (w, endl @ s)"
  by (cases w) (auto simp: no_space_def iss_token_def endl_def isspace_def text_simps)

lemma tokens_word_endl: "no_space w \<Longrightarrow> tokens (w @ endl @ s) = w # tokens s"
  by (subst tokens.simps) (simp add: iss_token_word_endl tokens_endl)

lemma tokens_unwords_endl:
  "list_all no_space ws \<Longrightarrow> ws \<noteq> [] \<Longrightarrow> tokens (unwords ws @ endl @ s) = ws @ tokens s"
  by (induction ws rule: unwords.induct) (simp_all add: tokens_word_endl text_simps)

lemma no_space_keywords [simp]:
  "no_space ''client''" "no_space ''server''" "no_space ''id_req''" "no_space ''dest''"
  "no_space ''value''" "no_space ''new_balance''" "no_space ''num_transactions''"
  "no_space ''total_transferred''" "no_space ''total_balance''" "no_space ''SUCCESS''"
  by (simp_all add: no_space_def isspace_def)

lemma no_space_printed [simp]:
  "no_space (show_nat n)" "no_space (show_int i)" "no_space (inet_ntop a)"
  by (rule text_simps)+

lemma success_line_words:
  assumes "log_stamp t u = Some (d @ '' '' @ h)" "no_space d" "no_space h" "result ack = ''SUCCESS''"
  shows "\<exists>line. line_text t u (Report_line server ack) = Some line \<and>
    tokens line = [CYAN @ d, h, ''server'', inet_ntop server, ''id_req'', show_int (sint (seq_num ack)),
      ''dest'', inet_ntop (ack_receiver_ip ack), ''value'', show_nat (unat (ack_transfer_amount ack)),
      ''new_balance'', show_nat (unat (new_balance ack)), GREEN @ ''SUCCESS'' @ RESET]"
proof -
  let ?ws = "[CYAN @ d, h, ''server'', inet_ntop server, ''id_req'', show_int (sint (seq_num ack)),
      ''dest'', inet_ntop (ack_receiver_ip ack), ''value'', show_nat (unat (ack_transfer_amount ack)),
      ''new_balance'', show_nat (unat (new_balance ack)), GREEN @ ''SUCCESS'' @ RESET]"
  have line: "line_text t u (Report_line server ack) = Some (unwords ?ws @ endl)"
    using assms(1,4) by (simp add: addr_to_string_def)
  have "no_space (GREEN @ ''SUCCESS'' @ RESET)"
    by (rule no_space_append no_space_parts no_space_keywords)+
  then have "list_all no_space ?ws"
    using assms(2,3) by simp
  then have "tokens (unwords ?ws @ endl) = ?ws"
    using tokens_unwords_endl [of ?ws "[]"] by (simp add: tokens_Nil del: unwords.simps)
  with line show ?thesis by blast
qed

lemma request_info_words:
  assumes "log_stamp t u = Some (d @ '' '' @ h)" "no_space d" "no_space h"
  shows "\<exists>text. print_request_info t u a p False False s = Some text \<and>
    tokens (text @ rest) = [CYAN @ d, h, ''client'', inet_ntop a, ''id_req'', show_int (sint (seq_num p)),
      ''dest'', inet_ntop (receiver_ip p), ''value'', show_nat (unat (transfer_amount p)) @ RESET,
      BLUE @ ''num_transactions'', show_int (sint (num_transactions s)),
      ''total_transferred'', show_nat (unat (total_transferred s)),
      ''total_balance'', show_int (sint (total_balance s)) @ RESET] @ tokens rest"
proof -
  let ?ws = "[CYAN @ d, h, ''client'', inet_ntop a, ''id_req'', show_int (sint (seq_num p)),
      ''dest'', inet_ntop (receiver_ip p), ''value'', show_nat (unat (transfer_amount p)) @ RESET]"
  let ?vs = "[BLUE @ ''num_transactions'', show_int (sint (num_transactions s)),
      ''total_transferred'', show_nat (unat (total_transferred s)),
      ''total_balance'', show_int (sint (total_balance s)) @ RESET]"
  have text_words: "print_request_info t u a p False False s = Some (unwords ?ws @ endl @ unwords ?vs @ endl)"
    using assms(1) by (simp add: print_request_info_def metadata_text_def get_db_metadata_def addr_to_string_def)
  have "list_all no_space ?ws" "list_all no_space ?vs"
    using assms(2,3) by simp_all
  then have "tokens (unwords ?ws @ endl @ unwords ?vs @ endl @ rest) = ?ws @ ?vs @ tokens rest"
    using tokens_unwords_endl [of ?ws "unwords ?vs @ endl @ rest"] tokens_unwords_endl [of ?vs rest]
    by (simp del: unwords.simps)
  with text_words show ?thesis by fastforce
qed

lemma broadcast_words:
  "tokens broadcast_update_cout = [GREEN @ ''[DB'', ''SYNCHRONIZER]:'', ''Broadcasting'', ''update.'' @ RESET]"
proof -
  let ?ws = "[GREEN @ ''[DB'', ''SYNCHRONIZER]:'', ''Broadcasting'', ''update.'' @ RESET]"
  have "list_all no_space ?ws" by (simp add: no_space_def isspace_def RESET_def GREEN_def)
  moreover have "broadcast_update_cout = unwords ?ws @ endl" by (simp add: broadcast_update_cout_def)
  ultimately show ?thesis
    using tokens_unwords_endl [of ?ws "[]"] by (simp add: tokens_Nil del: unwords.simps)
qed

text \<open>The lines of a covered transfer are one report.\<close>

lemma covered_lines:
  assumes "db_ok s" and s': "settle (sin_addr cli) b amount s =
      (Inr (respond True (debited amount r) SUCCESS), s')"
    and addr: "servaddr d = requests_addr host port"
  shows "dispatch_lines (server_network cli host port) g (transfer_request b amount) d (quiet, s) =
    [Report_line host (transaction_reply (sin_addr cli) (REQ_Packet (scast (expected cli s)) b amount)
       (respond True (debited amount r) SUCCESS))]"
proof -
  let ?net = "server_network cli host port" and ?q = "transfer_request b amount"
  let ?ack = "\<lambda>c. transaction_reply (sin_addr cli) (REQ_Packet (scast c) b amount)
       (respond True (debited amount r) SUCCESS)"
  have host: "sin_addr (requests_addr host port) = host"
    by (simp add: requests_addr_def create_sockaddr_def inet_simps)
  have hit: "dispatch_loop_lines ?net g (Suc k) ?q d (quiet, s) = [Report_line host (?ack (current_request d))]"
    if "servaddr d = requests_addr host port" "current_request d = expected cli s" for d k
  proof -
    have "sin_addr (servaddr d) = host" using that(1) host by simp
    then show ?thesis
      using settled_exchange [OF that assms(1) s' refl] by (simp add: response_lines_def)
  qed
  have miss: "dispatch_loop_lines ?net g (Suc k) ?q d (quiet, s) =
      dispatch_loop_lines ?net g k ?q (d\<lparr>current_request := expected cli s\<rparr>) (quiet, s)"
    if "current_request d \<noteq> expected cli s" for k
    by (rule refused_exchange [OF addr that, of b amount]) (simp add: response_lines_def)
  show ?thesis
  proof (cases "current_request d = expected cli s")
    case True
    then show ?thesis
      using hit [OF addr True, of 4]
      by (simp add: dispatch_lines_def MAX_RETRIES_def del: dispatch_loop_lines.simps)
  next
    case False
    then show ?thesis
      using miss [OF False, of 4] hit [of "d\<lparr>current_request := expected cli s\<rparr>" 3] addr
      by (simp add: dispatch_lines_def MAX_RETRIES_def del: dispatch_loop_lines.simps)
  qed
qed

text \<open>Request numbers below \<open>2 ^ 31\<close> print alike on both sides.\<close>

lemma request_number_text:
  fixes w :: u32
  assumes "unat w + 1 < 2 ^ 31"
  shows "show_int (sint (scast (w + 1 :: i32) :: i64)) = show_nat (unat w + 1)"
    and "show_int (sint (ucast (w + 1) :: i64)) = show_nat (unat w + 1)"
proof -
  have printed: "show_int (int n) = show_nat n" for n by (simp add: show_int_def)
  have "unat (w + 1) = unat w + 1"
    using assms unat_word_ariths(1) [of w 1] by simp
  then have small: "uint (w + 1) = int (unat w + 1)"
    by (metis uint_nat)
  have "int (unat w) < int 2147483647"
    using assms by (subst of_nat_less_iff) simp
  then have "uint w < 2147483647" by simp
  then have fit: "signed_take_bit 31 (int (unat w + 1)) = int (unat w + 1)"
    "signed_take_bit 63 (int (unat w + 1)) = int (unat w + 1)"
    by (auto intro!: signed_take_bit_int_eq_self)
  have "sint (w + 1) = int (unat w + 1)"
    unfolding sint_uint small using fit by simp
  then have "sint (scast (w + 1 :: i32) :: i64) = int (unat w + 1)"
    by (simp add: sint_up_scast is_up)
  then show "show_int (sint (scast (w + 1 :: i32) :: i64)) = show_nat (unat w + 1)"
    by (simp only: printed)
  have "uint (ucast (w + 1) :: i64) = int (unat w + 1)"
    unfolding small [symmetric] by (simp add: uint_up_ucast is_up)
  then have "sint (ucast (w + 1) :: i64) = int (unat w + 1)"
    unfolding sint_uint using fit by simp
  then show "show_int (sint (ucast (w + 1) :: i64)) = show_nat (unat w + 1)"
    by (simp only: printed)
qed

lemma process_req_cout_settled:
  assumes "db_ok s" "settle (sin_addr cli) b amount s = (Inr res, s')" "status_code res = SUCCESS"
  shows "process_req_cout t u cli (REQ_Packet (scast (expected cli s)) b amount) s =
    map_option (\<lambda>info. info @ broadcast_update_cout)
      (print_request_info t u (sin_addr cli) (REQ_Packet (scast (expected cli s)) b amount) False False s')"
proof -
  let ?p = "REQ_Packet (scast (expected cli s)) b amount"
  have "check_packet_status ?p (response_record (get_client_info (sin_addr cli) s)) = VALID"
    using check_expected [of "expected cli s" b amount cli s] by (simp add: known_record_def)
  then show ?thesis
    using assms by (simp add: process_req_cout_def process_db_transaction_def REQ_Packet_def
        transaction_reply_def ACK_Packet_def make_transaction_settle db_ok_def)
qed

section \<open>Properties\<close>

text \<open>
  C19. A refused transfer leaves no trace for the user. When the database refuses a transfer of
  a registered client (too little balance, an unknown receiver, or the client itself), the
  client sends it in all five tries, prints nothing at all and drops it. No balance changes,
  but for lack of balance the server counts every try as a request.
\<close>

theorem refused_transfer_is_silent:
  assumes "db_ok s" and "refused (sin_addr cli) b amount s"
    and "servaddr d = requests_addr host port" and "current_request d = expected cli s"
  shows "\<exists>d' s'.
    dispatch_request (server_network cli host port) g (transfer_request b amount) d (quiet, s) =
      (None, d', (quiet, s')) \<and>
    dispatch_lines (server_network cli host port) g (transfer_request b amount) d (quiet, s) = [] \<and>
    ledger_of s' = ledger_of s \<and> current_request d' = expected cli s' \<and>
    expected cli s' =
      expected cli s + (if sin_addr cli \<noteq> b \<and> database_records s b \<noteq> None then 5 else 0)"
proof -
  obtain d' s' where "dispatch_loop (server_network cli host port) g 5 (transfer_request b amount) d (quiet, s) =
        (None, d', (quiet, s'))"
      "dispatch_loop_lines (server_network cli host port) g 5 (transfer_request b amount) d (quiet, s) = []"
      "ledger_of s' = ledger_of s" "current_request d' = expected cli s'"
      "expected cli s' = expected cli s + 5 * refusal_charge (sin_addr cli) b s"
    using refused_loop [OF assms(1,2,4,3), of g 5] by auto
  then show ?thesis
    unfolding dispatch_request_def dispatch_lines_def MAX_RETRIES_def
    by (intro exI [of _ d'] exI [of _ s'])
      (simp add: refusal_charge_def del: dispatch_loop.simps dispatch_loop_lines.simps)
qed

lemma sample_refused: "refused 1 2 200000 two_clients"
  by (simp add: refused_def two_clients_records)

theorem refused_transfer_is_silent_witness:
  "\<exists>d' s'.
    dispatch_request (server_network \<lparr>sin_port = 5, sin_addr = 1\<rparr> sample_host 4000) ([], 0)
        (transfer_request 2 200000) sample_client (quiet, two_clients) = (None, d', (quiet, s')) \<and>
    dispatch_lines (server_network \<lparr>sin_port = 5, sin_addr = 1\<rparr> sample_host 4000) ([], 0)
        (transfer_request 2 200000) sample_client (quiet, two_clients) = [] \<and>
    ledger_of s' = ledger_of two_clients \<and> expected \<lparr>sin_port = 5, sin_addr = 1\<rparr> s' = 6"
proof -
  have first: "expected \<lparr>sin_port = 5, sin_addr = 1\<rparr> two_clients = 1"
    using sample_records(1) by (simp add: expected_def)
  then show ?thesis
    using refused_transfer_is_silent [OF two_clients_ok, of "\<lparr>sin_port = 5, sin_addr = 1\<rparr>" 2 200000
        sample_client sample_host 4000 "([], 0)"] sample_refused
    by (simp add: sample_client_def two_clients_records) blast
qed

text \<open>
  C32. The two consoles tell the same story. A covered transfer without losses prints one line
  at the client, its report, and at the server where it is executed one log entry, of two
  lines, and the line of the broadcast: both have the same request number, receiver and value,
  the report has the client's new balance in the database, and the log the counters after the
  transfer. These are the words the code prints; the comment above \<open>print_request_info\<close> shows the
  second line with blanks, as in \<open>num transactions 1\<close>. Numbers must be below \<open>2 ^ 31\<close> and the
  clocks between the years 0 and 9999.
\<close>

theorem consoles_agree:
  assumes "db_ok s" and "database_records s (sin_addr cli) = Some r"
    and "database_records s b = Some q" and "sin_addr cli \<noteq> b"
    and "amount \<noteq> 0" and "amount \<le> balance r" and "servaddr d = requests_addr host port"
    and "unat (last_request r) + 1 < 2 ^ 31"
    and "datable t" and "datable u" and "datable t'" and "datable u'"
  shows "\<exists>ack line log day hour day' hour'.
    dispatch_lines (server_network cli host port) g (transfer_request b amount) d (quiet, s) =
      [Report_line host ack] \<and>
    line_text t u (Report_line host ack) = Some line \<and>
    process_req_cout t' u' cli (REQ_Packet (scast (expected cli s)) b amount) s = Some log \<and>
    tokens line = [CYAN @ day, hour, ''server'', inet_ntop host,
      ''id_req'', show_nat (unat (last_request r) + 1),
      ''dest'', inet_ntop b, ''value'', show_nat (unat amount),
      ''new_balance'', show_nat (unat (balance r - amount)), GREEN @ ''SUCCESS'' @ RESET] \<and>
    tokens log = [CYAN @ day', hour', ''client'', inet_ntop (sin_addr cli),
      ''id_req'', show_nat (unat (last_request r) + 1),
      ''dest'', inet_ntop b, ''value'', show_nat (unat amount) @ RESET,
      BLUE @ ''num_transactions'', show_int (sint (num_transactions s + 1)),
      ''total_transferred'', show_nat (unat (uint_plus_ulong (total_transferred s) amount)),
      ''total_balance'', show_int (sint (total_balance s)) @ RESET,
      GREEN @ ''[DB'', ''SYNCHRONIZER]:'', ''Broadcasting'', ''update.'' @ RESET]"
proof -
  let ?p = "REQ_Packet (scast (expected cli s)) b amount"
  let ?res = "respond True (debited amount r) SUCCESS"
  let ?ack = "transaction_reply (sin_addr cli) ?p ?res"
  obtain s' where s': "settle (sin_addr cli) b amount s = (Inr ?res, s')"
    by (rule settle_covered [OF assms(2-6)]) blast
  then have counters: "num_transactions s' = num_transactions s + 1"
    "total_transferred s' = uint_plus_ulong (total_transferred s) amount" "total_balance s' = total_balance s"
    using assms(2-6) by (auto simp: settle_def split: if_splits)
  have number: "expected cli s = last_request r + 1" using assms(2) by (simp add: expected_def)
  note printed = request_number_text [OF assms(8)]
  have ack: "seq_num ?ack = ucast (last_request r + 1)" "ack_receiver_ip ?ack = b"
    "ack_transfer_amount ?ack = amount" "new_balance ?ack = balance r - amount" "result ?ack = ''SUCCESS''"
    by (simp_all add: transaction_reply_def ACK_Packet_def REQ_Packet_def)
  have p: "seq_num ?p = scast (last_request r + 1)" "receiver_ip ?p = b" "transfer_amount ?p = amount"
    by (simp_all add: REQ_Packet_def number)
  obtain day hour where stamp: "log_stamp t u = Some (day @ '' '' @ hour)" "no_space day" "no_space hour"
    by (rule stamp_words [OF assms(9,10)])
  obtain day' hour' where stamp': "log_stamp t' u' = Some (day' @ '' '' @ hour')" "no_space day'" "no_space hour'"
    by (rule stamp_words [OF assms(11,12)])
  note report = success_line_words [OF stamp ack(5), of host, unfolded ack printed]
  note entry = request_info_words [OF stamp', of "sin_addr cli" ?p s' broadcast_update_cout,
      unfolded p counters printed broadcast_words]
  note log_is = process_req_cout_settled [OF assms(1) s', of t' u']
  note line_is = covered_lines [OF assms(1) s' assms(7), of g]
  have told: "status_code ?res = SUCCESS" by (simp add: respond_def)
  from report entry show ?thesis unfolding line_is log_is [OF told] by fastforce
qed

definition sample_time :: tm where
  "sample_time = \<lparr>tm_sec = 1, tm_min = 37, tm_hour = 18, tm_mday = 11, tm_mon = 8, tm_year = 125\<rparr>"

lemma sample_datable: "datable sample_time"
  by (simp add: datable_def valid_tm_def sample_time_def)

theorem consoles_agree_witness:
  "\<exists>ack line log.
    dispatch_lines (server_network \<lparr>sin_port = 5, sin_addr = 1\<rparr> sample_host 4000) ([], 0)
      (transfer_request 2 30) sample_client (quiet, two_clients) = [Report_line sample_host ack] \<and>
    line_text sample_time sample_time (Report_line sample_host ack) = Some line \<and>
    process_req_cout sample_time sample_time \<lparr>sin_port = 5, sin_addr = 1\<rparr>
      (REQ_Packet (scast (expected \<lparr>sin_port = 5, sin_addr = 1\<rparr> two_clients)) 2 30) two_clients = Some log \<and>
    tokens line ! 5 = show_nat 1 \<and> tokens log ! 5 = show_nat 1 \<and>
    tokens line ! 11 = show_nat 99970"
proof -
  have pay: "(30 :: u64) \<le> balance \<lparr>ip = 1, balance = 100000, last_request = 0\<rparr>"
    "unat (last_request \<lparr>ip = 1, balance = 100000, last_request = 0\<rparr>) + 1 < 2 ^ 31"
    "servaddr sample_client = requests_addr sample_host 4000"
    "sin_addr \<lparr>sin_port = 5, sin_addr = 1\<rparr> \<noteq> 2" "(30 :: u64) \<noteq> 0"
    by (simp_all add: sample_client_def)
  from consoles_agree [OF two_clients_ok sample_records pay(4,5,1,3,2) sample_datable sample_datable
      sample_datable sample_datable, of "([], 0)"]
  show ?thesis
  proof (elim exE conjE, goal_cases)
    case (1 ack line log day hour day' hour')
    from 1(1-3) show ?case
      by (intro exI [of _ ack] exI [of _ line] exI [of _ log] conjI) (assumption+, simp_all add: 1(4,5))
  qed
qed

end
