(* ===== verification/Spec2Isabelle.thy ===== *)
theory Spec2Isabelle
  imports Server_Concurrency Lossy_Link Db_Memory Server_Sockets Message_Types Takeover Console
begin

text \<open>
  Brix is a client-server program for transfers between accounts over UDP, with passive
  replicas: every server process listens for clients, one of them is the coordinator, and
  the others copy its database. This library models both programs in HOL, component by
  component, and proves what makes each of them, and the two together, correct, or by a
  concrete run what does not hold.

  \<^bold>\<open>The parts of the program.\<close>
  A client (\<open>client/src\<close>) broadcasts a discovery message, sends its requests one at a time to
  the address it gets back and repeats each until it is answered. A server
  (\<open>server/src\<close>) runs one thread per service: the greeter answers discovery messages and
  registers clients; the multiplexer parses client packets and starts a handler thread for
  each; the handlers call the database, reply, and broadcast the new database; the
  synchronizer of a replica loads the broadcasts; the election picks the coordinator and the
  heartbeat thread of the other nodes watches it. \<open>common/src\<close> holds the packets and the
  socket helpers.

  \<^bold>\<open>The theories.\<close>
  \<^item> \<open>Brix_Prelude\<close>: machine types (\<open>int\<close> has 32 bits, \<open>long\<close> 64, little endian), the
    exceptions, integer conversions, sums over finite maps, and the interfaces as locales: a
    wire format, a service that always returns, a service that refines an abstract one within
    a bound, an invariant of a step relation, a system that projects to another, a system
    that cannot get stuck before its end.
  \<^item> \<open>Cpp_Text\<close>, \<open>Inet_Addr\<close>: the library routines the sources parse and print with (stream
    extraction, \<open>stol\<close>, \<open>stoul\<close>, \<open>stoi\<close>, \<open>atoi\<close>, \<open>strtok\<close>, \<open>inet_addr\<close>, \<open>inet_pton\<close>, \<open>inet_ntop\<close>),
    and that what is printed is read back.
  \<^item> \<open>Packets\<close>: \<open>common/src/packets\<close>. Requests and replies are codecs (interpretations
    \<open>req_wire\<close> and \<open>ack_wire\<close>).
  \<^item> \<open>Socket_Utils\<close>, \<open>Sockets\<close>: \<open>common/src/data_transfer/socket_utils.cpp\<close>. Addresses, timeouts
    and receive buffers; the functions that create, configure and bind sockets, on an explicit
    table of descriptors and a kernel parameter that grants or refuses each call; \<open>get_self_ip\<close>
    with its static cache. \<open>Server_Sockets\<close>: how the five services of a server set up theirs.
  \<^item> \<open>Db_Manager\<close>: \<open>server/src/db_manager\<close>. The record \<open>db_manager\<close> has the counters, the
    accounts and every mutex; each operation makes the lock calls of the code in their order.
    \<open>db_ok\<close> is the invariant of the states between operations: finitely many accounts, one
    mutex per account, no mutex held, and \<open>total_balance\<close> equal to the sum of the balances
    modulo \<open>2 ^ 32\<close>. The operations have lock-free closed forms on these states. The service
    interface is interpreted as \<open>db_service\<close>.
  \<^item> \<open>Db_Ledger\<close>: the abstract ledger, a map from addresses to unbounded balances, and the
    refinement (\<open>db_refines\<close>) as long as less than \<open>2 ^ 64\<close> can be in circulation.
  \<^item> \<open>Db_Snapshot\<close>: \<open>db_snapshot\<close>, its text in any iteration order of the hash table, its
    parser with the exceptions it throws, and \<open>load_snapshot\<close>.
  \<^item> \<open>Db_Memory\<close>: the client mutexes as blocks on the heap, with every \<open>malloc\<close>, \<open>init\<close>, \<open>lock\<close>,
    \<open>unlock\<close>, \<open>destroy\<close> and \<open>free\<close>, on a \<open>platform\<close> that says how large a semaphore and a mutex are
    (the code allocates the one and uses the other); \<open>abs_db\<close> reads the state of \<open>Db_Manager\<close> off such a memory and
    \<open>simulated\<close> relates the operations (interpretation \<open>db_memory\<close>) where a mutex fits; loading a
    snapshot and the destructor.
  \<^item> \<open>Request_Handlers\<close>: the handler threads of \<open>server/src/request_handler\<close>, run to their end
    (interpretation \<open>handler_service\<close>).
  \<^item> \<open>Server_Threads\<close>: one iteration of the multiplexer, of the discovery service and of the
    synchronizer's listener.
  \<^item> \<open>Replication\<close>: a coordinator that serves any sequence of packets, and a replica that
    receives its broadcasts.
  \<^item> \<open>Db_Locking\<close>, \<open>Db_Interleavings\<close>: the same database operations as threads with program
    counters that interleave (\<open>world_step\<close>); a thread reads the record it returns in a step of its
    own, after it has released the mutexes. A thread that runs alone computes the operation
    of \<open>Db_Manager\<close>. The invariant \<open>world_ok\<close> of worlds without removals (interpretation
    \<open>db_threads\<close>) gives mutual exclusion, covered debits, no exceptions, conservation of
    money and progress. \<open>Db_Linear\<close>: \<open>completed\<close> adds to the database of such a world what its
    threads still have to write; the step that decides the outcome of a thread is the
    operation of \<open>Db_Manager\<close> on it, every other step leaves it as it is, and so the order of
    these steps explains the run (\<open>explains\<close>).
  \<^item> \<open>Server_Workers\<close>, \<open>Server_Concurrency\<close>: the whole handler threads, which check a packet, run
    the database thread inside, copy the database record by record without a mutex, broadcast
    and reply (\<open>worker_step\<close>). Their worlds project to those of \<open>Db_Interleavings\<close>
    (interpretation \<open>handler_threads\<close>; \<open>worker_pool\<close> and \<open>workers_end\<close> on top), so that the whole
    server refines the ledger of \<open>Db_Ledger\<close>; the iteration order of the hash table is the
    parameter \<open>order\<close>.
  \<^item> \<open>Election\<close>: one node of \<open>server/src/election\<close>, as a function from the clock, the outcome of
    \<open>recvfrom\<close> and the state to the new state and the datagrams sent; closed forms for every
    kind of message and for the timeout. \<open>Election_Network\<close>: a cluster of such nodes on a
    network that loses, repeats, delays and reorders datagrams (interpretation \<open>cluster\<close>).
  \<^item> \<open>Heartbeat\<close>: \<open>server/src/election/heartbeat.cpp\<close>, with the table of sockets of \<open>Sockets\<close>, since a
    test opens a socket, keeps it when it is answered, and ends the process when it gets none;
    and its tester thread with the election loop of a node that hears nothing.
  \<^item> \<open>Server_Cluster\<close>: whole server processes (record \<open>server\<close>: election state, database,
    sockets, whether the process has ended) that exchange datagrams with each other and with any clients over
    such a network (\<open>cluster_step\<close>). Its runs project to runs of \<open>Election_Network\<close>
    (interpretation \<open>cluster_elections\<close>), and its databases stay valid (interpretation
    \<open>server_cluster\<close>). \<open>Message_Types\<close>: the forms of the datagrams in flight, as an inductive
    typing, and how their receivers read them. Handlers run to their end there, but the closing
    of an account can run before a request reads its record (event \<open>Overtaken\<close>). \<open>Takeover\<close>:
    runs in which the coordinator changes, as lists of events (\<open>run_events\<close>), or a replica
    serves a client.
  \<^item> \<open>Client_Discovery\<close>, \<open>Client_Dispatcher\<close>: the client over a network parameter, a function from
    the address and the text of a datagram to the outcome of the \<open>recvfrom\<close> after it;
    \<open>client_discovery_process\<close> adds the socket of the discovery and its ways to end the program.
    \<open>Client_Threads\<close>: its main thread and its dispatcher thread in any interleaving
    (interpretations \<open>client_threads\<close> and \<open>client_ends\<close>). \<open>Client_Server\<close>: the same client with the
    server's model as its network (nothing reaches port 0), on a \<open>line\<close> that gives each datagram of the client a fate
    (delivered, lost, its reply lost or held back) and keeps the replies that wait in the
    client's socket; \<open>Client_Session\<close>: a whole session on a quiet line, from the start of the
    client to its end, against the abstract ledger; \<open>Lossy_Link\<close>: what losses and late replies
    do. \<open>Programs\<close>: the two \<open>main\<close> functions.
  \<^item> \<open>Console\<close>: the lines both programs print in a release build, with the dates of
    \<open>date_time_utils.cpp\<close> and the colours of \<open>colors.h\<close>; what a request prints follows the
    recursion of its dispatch.

  \<^bold>\<open>What the lemmas show.\<close>
  Texts: every request, reply, snapshot and location message is read back by its receiver,
  with the bounds at which it is not. Database: refinement of the ledger, conservation of
  money, absence of exceptions and held mutexes, on its own and under every interleaving;
  linearizability: an interleaving of threads without removals leaves the database, to the
  last counter, and tells the outcomes of one sequential order, which respects time; a
  deadlock once clients are removed. Handler threads: without removals every interleaving
  of them ends and has then answered each packet once, and one that runs alone is the
  sequential handler; with them, a client that closes its account while its own request is
  served can end the server; and a copy taken during a transfer is a database that never was, and
  can be the last that replicas hear. Requests: served at most once one after the other,
  twice when two handlers of a packet overlap; replies that bring client and server back in
  step; without losses a transfer is executed once, and a whole session of any transfers does
  and reports what the ledger says; whatever is lost, a transfer is executed at most three
  times, and three times it can be; lost replies to the closing of an account open it again;
  a late reply confirms a transfer that is then never executed; a refused transfer is sent
  five times and the user hears nothing of it; the lines that client
  and server print about the same transfer. Election:
  the bully rule, the only way into the coordinator role, a lone node that elects itself,
  the largest node that never waits, agreement after one announcement, the takeover when the stored
  address no longer answers, the exit when the tests have used up the descriptors, and the
  runs in which a cluster loses its coordinator or a node stops electing. Memory: where a mutex
  fits its block, the heap mutexes implement the database without undefined behaviour and leak
  one block per removed account; where it does not, as on x86-64 Linux, the first registration
  is undefined; an update that arrives while a thread holds a mutex is undefined. Clusters:
  safety, the events that can end a process, and typing of every message under any network
  behaviour, replicas that follow their coordinator, a change of coordinator that keeps the
  accounts only by an update of the old one, and a replica that overwrites its coordinator. Sockets: descriptors and ports of the services. Client:
  discovery, order of requests, bounded retries, termination and exit codes by port and input; every interleaving of its two
  threads that ends is the sequential run, and each can be continued to its end.

  \<^bold>\<open>Bounds and fuel.\<close>
  Loops with a bound in the code recurse on it (5 tries of a request, 5 discovery messages, 3
  heartbeats). The dispatcher thread is a \<open>while_option\<close>; that it ends, and when it does not,
  is proved. The election loop and the tester rounds take the list or the number of their
  iterations, since the code never leaves them. \<open>run_alone\<close> takes the exact number of steps
  of an operation. A snapshot of at most 19 clients fits the 1024 bytes of the receive
  buffer whatever its numbers, and no replica ever loads more than 72; the properties of clusters
  assume at most 19 client hosts. The linearization needs no bound, since both sides compute
  modulo the same powers of two; the ledger of the concurrent server counts at most 100000 for
  each worker.

  \<open>num_transactions\<close> wraps in the model where the increment of the code's \<open>int\<close> is undefined; it
  does not get there in fewer than \<open>2 ^ 31\<close> operations (\<open>num_transactions_bounded\<close>).

  \<^bold>\<open>What is not modelled.\<close>
  Removals among the threads of \<open>Db_Linear\<close>, whose interleavings can deadlock; in clusters, every
  overlap of handlers but the one named above; a thread that the system refuses to start; replies to the
  discovery protocol that arrive after its socket is closed, which are lost; the memory model
  of the processor, under which the reads of records without a mutex are data races. The
  output of debug builds, and of the parts whose lines only report progress (election,
  heartbeat, synchronizer, error branches of the database); what the kernel does in a system
  call, beyond its outcome and the table of descriptors; the memory of the hash tables under
  concurrent access and of the client's queue, whose unlocked reads are sequentially
  consistent here, of the stack variable that the multiplexer passes to the removal thread,
  and of the byte in front of the election buffer that a timeout overwrites; the
  uninitialised address after a failed discovery, which is a parameter; the test stub.
\<close>

end
